(* ===== verification/Prelude.thy ===== *)
theory Prelude
  imports Main "HOL-Library.Word" "HOL-Library.Multiset"
begin

text \<open>
  Generic material shared by every component theory: the development's named theorem
  collections, C arrays as zero-padded lists, ring-buffer segments of a list, index masks,
  and the multiset facts used to track connections.
\<close>

unbundle bit_operations_syntax

named_theorems carray "rewrite rules for zero-padded C arrays"
named_theorems ring "rewrite rules for ring-buffer segments"

subsection \<open>Machine integers of the source\<close>

type_synonym u8 = "8 word"
type_synonym u16 = "16 word"
type_synonym u32 = "32 word"
type_synonym u64 = "64 word"

subsection \<open>Undefined behaviour as a value\<close>

text \<open>
  A read or write outside an array, a division by zero and a read of memory never written
  are values of the model, so that their absence is something to prove.
\<close>

datatype fault = OutOfBounds | DivByZero | Uninitialised | NullDeref | SignedOverflow

type_synonym 'a result = "fault + 'a"

fun bindR :: "'a result \<Rightarrow> ('a \<Rightarrow> 'b result) \<Rightarrow> 'b result" where
  "bindR (Inl e) f = Inl e"
| "bindR (Inr x) f = f x"

lemma bindR_Inr_iff: "bindR m f = Inr y \<longleftrightarrow> (\<exists>x. m = Inr x \<and> f x = Inr y)"
  by (cases m) auto

lemma bindR_cong [fundef_cong]:
  "m = m' \<Longrightarrow> (\<And>x. m' = Inr x \<Longrightarrow> f x = g x) \<Longrightarrow> bindR m f = bindR m' g"
  by (cases m') auto

text \<open>The outcome of an operation that may sleep on a condition variable.\<close>

datatype ('r, 's) outcome = Blocks | Returns 'r 's

subsection \<open>The type \<open>int\<close> of the source\<close>

text \<open>A conversion to a 32-bit \<open>int\<close> keeps the low bits; an overflowing product is undefined.\<close>

definition to_int32 :: "int \<Rightarrow> int" where
  "to_int32 x = sint (word_of_int x :: 32 word)"

definition int_mul :: "int \<Rightarrow> int \<Rightarrow> int result" where
  "int_mul a b =
     (if - (2 ^ 31) \<le> a * b \<and> a * b < 2 ^ 31 then Inr (a * b) else Inl SignedOverflow)"

lemma to_int32_id: "- (2 ^ 31) \<le> x \<Longrightarrow> x < 2 ^ 31 \<Longrightarrow> to_int32 x = x"
  by (simp add: to_int32_def signed_of_int signed_take_bit_int_eq_self)

subsection \<open>Zero-filled arrays\<close>

text \<open>
  An array of the source that starts zero-filled (a \<open>calloc\<close>) is the list of its leading
  cells; every cell past the end of the list reads as the zero \<open>z\<close>.
\<close>

definition zget :: "'a \<Rightarrow> 'a list \<Rightarrow> nat \<Rightarrow> 'a" where
  "zget z xs i = (if i < length xs then xs ! i else z)"

definition zset :: "'a \<Rightarrow> nat \<Rightarrow> 'a \<Rightarrow> 'a list \<Rightarrow> 'a list" where
  "zset z i x xs =
     (if i < length xs then xs[i := x] else xs @ replicate (i - length xs) z @ [x])"

lemma zget_zset_same [carray]: "zget z (zset z i x xs) i = x"
  by (simp add: zget_def zset_def nth_append)

lemma zget_zset_other [carray]: "i \<noteq> j \<Longrightarrow> zget z (zset z i x xs) j = zget z xs j"
  by (auto simp: zget_def zset_def nth_append nth_Cons split: nat.split)

lemma zset_length [carray, simp]: "zset z (length xs) x xs = xs @ [x]"
  by (simp add: zset_def)

lemma zset_last [carray]: "zset z (length xs) x (xs @ [y]) = xs @ [x]"
  by (simp add: zset_def)

lemma length_zset: "length (zset z i x xs) = max (length xs) (Suc i)"
  by (simp add: zset_def)

lemma zget_append_last [carray, simp]: "zget z (xs @ [x]) (length xs) = x"
  by (simp add: zget_def)

lemma zget_past [carray, simp]: "zget z xs (length xs) = z"
  by (simp add: zget_def)

subsection \<open>Segments of a ring buffer\<close>

text \<open>
  \<open>ring_seg xs h n\<close> is the list of the \<open>n\<close> elements that start at index \<open>h\<close> of the
  circular array \<open>xs\<close>.
\<close>

definition ring_seg :: "'a list \<Rightarrow> nat \<Rightarrow> nat \<Rightarrow> 'a list" where
  "ring_seg xs h n = map (\<lambda>i. xs ! ((h + i) mod length xs)) [0..<n]"

lemma length_ring_seg [ring, simp]: "length (ring_seg xs h n) = n"
  by (simp add: ring_seg_def)

lemma ring_seg_0 [ring, simp]: "ring_seg xs h 0 = []"
  by (simp add: ring_seg_def)

lemma ring_seg_Cons [ring]:
  assumes "h < length xs"
  shows "ring_seg xs h (Suc n) = xs ! h # ring_seg xs ((h + 1) mod length xs) n"
proof -
  have "[0..<Suc n] = 0 # map Suc [0..<n]"
    by (simp add: map_Suc_upt upt_conv_Cons)
  moreover have "(h + Suc i) mod length xs = ((h + 1) mod length xs + i) mod length xs" for i
    by (simp add: mod_simps)
  ultimately show ?thesis
    using assms by (simp add: ring_seg_def comp_def del: upt_Suc)
qed

lemma mod_add_neq:
  fixes h i n N :: nat
  assumes "i < n" "n < N"
  shows "(h + i) mod N \<noteq> (h + n) mod N"
proof
  assume "(h + i) mod N = (h + n) mod N"
  then have "N dvd (h + n) - (h + i)"
    using assms by (metis mod_eq_dvd_iff_nat add_left_mono less_imp_le_nat)
  with assms show False by (simp add: nat_dvd_not_less)
qed

lemma ring_seg_snoc [ring]:
  assumes "n < length xs"
  shows "ring_seg (xs[(h + n) mod length xs := x]) h (Suc n) = ring_seg xs h n @ [x]"
proof -
  have idx: "(h + i) mod length xs < length xs" for i
    using assms by (intro mod_less_divisor) linarith
  have "(xs[(h + n) mod length xs := x]) ! ((h + i) mod length xs)
      = xs ! ((h + i) mod length xs)" if "i < n" for i
    using mod_add_neq [OF that assms, of h] by (metis nth_list_update_neq)
  with idx show ?thesis
    by (auto simp: ring_seg_def)
qed

subsection \<open>Index masks\<close>

text \<open>\<open>x & (size - 1)\<close> is reduction modulo \<open>size\<close> exactly when \<open>size\<close> is a power of two.\<close>

lemma int_and_mask:
  fixes x :: nat
  shows "int x AND (2 ^ k - 1) = int (x mod 2 ^ k)"
proof -
  have "int x AND mask k = take_bit k (int x)"
    by (simp add: take_bit_eq_mask)
  then show ?thesis
    by (simp add: mask_eq_exp_minus_1 take_bit_eq_mod zmod_int)
qed

lemma nat_and_mask: "nat (int x AND (int (2 ^ k) - 1)) = x mod 2 ^ k"
  using int_and_mask [of x k] by simp

subsection \<open>Lists and multisets\<close>

text \<open>Removing index \<open>i\<close> by overwriting it with the last element and shrinking.\<close>

definition swap_remove :: "nat \<Rightarrow> 'a list \<Rightarrow> 'a list" where
  "swap_remove i xs = butlast (xs[i := last xs])"

lemma length_swap_remove [simp]: "length (swap_remove i xs) = length xs - 1"
  by (simp add: swap_remove_def)

lemma mset_swap_remove:
  assumes "i < length xs"
  shows "add_mset (xs ! i) (mset (swap_remove i xs)) = mset xs"
proof -
  from assms have "xs \<noteq> []" by auto
  then obtain ys y where xs: "xs = ys @ [y]" by (metis append_butlast_last_id)
  show ?thesis
  proof (cases "i = length ys")
    case True
    then show ?thesis by (simp add: swap_remove_def xs)
  next
    case False
    with assms have i: "i < length ys" by (simp add: xs)
    then have "swap_remove i xs = ys[i := y]"
      by (simp add: swap_remove_def xs list_update_append)
    moreover have "mset (ys[i := y]) = add_mset y (mset ys - {#ys ! i#})"
      using i by (rule mset_update)
    ultimately show ?thesis
      using i by (simp add: xs nth_append)
  qed
qed

lemma set_swap_remove_subset: "i < length xs \<Longrightarrow> set (swap_remove i xs) \<subseteq> set xs"
  by (metis mset_swap_remove set_mset_add_mset_insert set_mset_mset subset_insertI)

text \<open>The elements of an updated list.\<close>

lemma in_update: "x \<in> set (xs[i := y]) \<Longrightarrow> x = y \<or> x \<in> set xs"
  using set_update_subset_insert [of xs i y] by blast

end
