(* ===== verification/Fifo.thy ===== *)
theory Fifo
  imports Prelude
begin

text \<open>
  The interface of a bounded first-in first-out buffer, which both shared buffers of the server
  provide: the connection queues (\<open>src/threadpool.c\<close>) and the log ring (\<open>src/logger.c\<close>).
  A provider gives an abstraction \<open>contents\<close> to the list of stored items; \<open>put\<close> is \<open>None\<close> when
  the caller would have to wait (or drop), \<open>get\<close> is \<open>None\<close> when there is nothing to take.
  The client lemmas speak of whole runs of operations.
\<close>

datatype 'a fifo_op = Put 'a | Get

text \<open>What a run shows to its callers: items accepted, items refused, items delivered.\<close>

datatype 'a fifo_event = Accepted 'a | Refused 'a | Delivered 'a | Empty

fun accepted :: "'a fifo_event list \<Rightarrow> 'a list" where
  "accepted [] = []"
| "accepted (Accepted x # es) = x # accepted es"
| "accepted (_ # es) = accepted es"

fun delivered :: "'a fifo_event list \<Rightarrow> 'a list" where
  "delivered [] = []"
| "delivered (Delivered x # es) = x # delivered es"
| "delivered (_ # es) = delivered es"

text \<open>The abstract buffer: a list with a bound.\<close>

fun spec_step :: "nat \<Rightarrow> 'a fifo_op \<Rightarrow> 'a list \<Rightarrow> 'a fifo_event \<times> 'a list" where
  "spec_step b (Put x) xs = (if length xs < b then (Accepted x, xs @ [x]) else (Refused x, xs))"
| "spec_step b Get [] = (Empty, [])"
| "spec_step b Get (x # xs) = (Delivered x, xs)"

fun spec_run :: "nat \<Rightarrow> 'a fifo_op list \<Rightarrow> 'a list \<Rightarrow> 'a fifo_event list \<times> 'a list" where
  "spec_run b [] xs = ([], xs)"
| "spec_run b (p # ps) xs =
     (let (e, ys) = spec_step b p xs; (es, zs) = spec_run b ps ys in (e # es, zs))"

lemma spec_step_fifo:
  "spec_step b p xs = (e, ys) \<Longrightarrow> xs @ accepted [e] = delivered [e] @ ys"
  by (cases p; cases xs) (auto split: if_splits)

lemma accepted_Cons: "accepted (e # es) = accepted [e] @ accepted es"
  by (cases e) auto

lemma delivered_Cons: "delivered (e # es) = delivered [e] @ delivered es"
  by (cases e) auto

lemma spec_run_fifo:
  "spec_run b ps xs = (es, ys) \<Longrightarrow> xs @ accepted es = delivered es @ ys"
proof (induction ps arbitrary: xs es)
  case Nil
  then show ?case by simp
next
  case (Cons p ps)
  obtain e zs where s: "spec_step b p xs = (e, zs)" by (cases "spec_step b p xs")
  obtain es' where r: "spec_run b ps zs = (es', ys)" and es: "es = e # es'"
    using Cons.prems s by (auto simp: Let_def split: prod.splits)
  have "xs @ accepted es = delivered [e] @ zs @ accepted es'"
    using spec_step_fifo [OF s] by (simp add: es accepted_Cons [of e es'])
  also have "\<dots> = delivered [e] @ delivered es' @ ys"
    using Cons.IH [OF r] by simp
  finally show ?case by (simp add: es delivered_Cons [of e es'])
qed

lemma spec_step_bound:
  "spec_step b p xs = (e, ys) \<Longrightarrow> length xs \<le> b \<Longrightarrow> length ys \<le> b"
  by (cases p; cases xs) (auto split: if_splits)

lemma spec_run_bound: "spec_run b ps xs = (es, ys) \<Longrightarrow> length xs \<le> b \<Longrightarrow> length ys \<le> b"
proof (induction ps arbitrary: xs es)
  case Nil
  then show ?case by simp
next
  case (Cons p ps)
  obtain e zs where s: "spec_step b p xs = (e, zs)" by (cases "spec_step b p xs")
  then show ?case
    using Cons spec_step_bound [OF s] by (auto simp: Let_def split: prod.splits)
qed

text \<open>Running the operations of any provider.\<close>

fun fifo_step ::
  "('a \<Rightarrow> 'q \<Rightarrow> 'q option) \<Rightarrow> ('q \<Rightarrow> ('a \<times> 'q) option) \<Rightarrow> 'a fifo_op \<Rightarrow> 'q \<Rightarrow> 'a fifo_event \<times> 'q" where
  "fifo_step put get (Put x) q =
     (case put x q of Some q' \<Rightarrow> (Accepted x, q') | None \<Rightarrow> (Refused x, q))"
| "fifo_step put get Get q =
     (case get q of Some (x, q') \<Rightarrow> (Delivered x, q') | None \<Rightarrow> (Empty, q))"

fun fifo_run ::
  "('a \<Rightarrow> 'q \<Rightarrow> 'q option) \<Rightarrow> ('q \<Rightarrow> ('a \<times> 'q) option) \<Rightarrow> 'a fifo_op list \<Rightarrow> 'q
     \<Rightarrow> 'a fifo_event list \<times> 'q" where
  "fifo_run put get [] q = ([], q)"
| "fifo_run put get (p # ps) q =
     (let (e, q') = fifo_step put get p q; (es, q'') = fifo_run put get ps q' in (e # es, q''))"

locale bounded_fifo =
  fixes invar :: "'q \<Rightarrow> bool"
    and contents :: "'q \<Rightarrow> 'a list"
    and bound :: "'q \<Rightarrow> nat"
    and put :: "'a \<Rightarrow> 'q \<Rightarrow> 'q option"
    and get :: "'q \<Rightarrow> ('a \<times> 'q) option"
  assumes put_room: "invar q \<Longrightarrow> length (contents q) < bound q \<Longrightarrow>
      \<exists>q'. put x q = Some q' \<and> invar q' \<and> contents q' = contents q @ [x] \<and> bound q' = bound q"
    and put_full: "invar q \<Longrightarrow> bound q \<le> length (contents q) \<Longrightarrow> put x q = None"
    and get_empty: "invar q \<Longrightarrow> contents q = [] \<Longrightarrow> get q = None"
    and get_item: "invar q \<Longrightarrow> contents q = x # xs \<Longrightarrow>
      \<exists>q'. get q = Some (x, q') \<and> invar q' \<and> contents q' = xs \<and> bound q' = bound q"
    and contents_bound: "invar q \<Longrightarrow> length (contents q) \<le> bound q"
begin

text \<open>One operation simulates one step of the abstract buffer.\<close>

lemma step_refines:
  assumes "invar q"
  shows "\<exists>e q'. fifo_step put get p q = (e, q') \<and> invar q' \<and> bound q' = bound q
           \<and> spec_step (bound q) p (contents q) = (e, contents q')"
proof (cases p)
  case (Put x)
  show ?thesis
  proof (cases "length (contents q) < bound q")
    case True
    with put_room [OF assms True, of x] Put show ?thesis by auto
  next
    case False
    with put_full [OF assms] Put assms show ?thesis by simp
  qed
next
  case Get
  show ?thesis
  proof (cases "contents q")
    case Nil
    with get_empty [OF assms] Get assms show ?thesis by simp
  next
    case (Cons x xs)
    with get_item [OF assms Cons] Get show ?thesis by auto
  qed
qed

text \<open>Hence every run does: a functional refinement.\<close>

lemma run_refines:
  assumes "invar q"
  shows "\<exists>es q'. fifo_run put get ps q = (es, q') \<and> invar q' \<and> bound q' = bound q
           \<and> spec_run (bound q) ps (contents q) = (es, contents q')"
  using assms
proof (induction ps arbitrary: q)
  case Nil
  then show ?case by simp
next
  case (Cons p ps)
  obtain e q1 where s: "fifo_step put get p q = (e, q1)" "invar q1" "bound q1 = bound q"
      "spec_step (bound q) p (contents q) = (e, contents q1)"
    using step_refines [OF Cons.prems] by blast
  obtain es q2 where r: "fifo_run put get ps q1 = (es, q2)" "invar q2" "bound q2 = bound q1"
      "spec_run (bound q1) ps (contents q1) = (es, contents q2)"
    using Cons.IH [OF s(2)] by blast
  from s r show ?case by simp
qed

lemma run_fifo:
  assumes "invar q" "fifo_run put get ps q = (es, q')"
  shows "contents q @ accepted es = delivered es @ contents q'"
  using run_refines [OF assms(1), of ps] assms(2) by (auto dest: spec_run_fifo)

lemma run_bound:
  assumes "invar q" "fifo_run put get ps q = (es, q')"
  shows "invar q'" and "length (contents q') \<le> bound q"
  using run_refines [OF assms(1), of ps] assms contents_bound by fastforce+

text \<open>A buffer that starts empty loses nothing, duplicates nothing and keeps the order.\<close>

lemma run_from_empty:
  assumes "invar q" "contents q = []" "fifo_run put get ps q = (es, q')"
  shows "accepted es = delivered es @ contents q'"
  using run_fifo [OF assms(1,3)] assms(2) by simp

end

end
