(* ===== verification/ConnQueue.thy ===== *)
theory ConnQueue
  imports Fifo
begin

text \<open>
  The connection queues of \<open>src/threadpool.c\<close> (\<open>work_queue_t\<close>): a circular array with head, tail
  and count, guarded by one mutex.  Each definition here is the critical section of the C function,
  executed by a thread that holds the mutex; \<open>Blocks\<close> is a wait on a condition variable.
  The interleaving of threads is the subject of theory \<open>QueueMonitor\<close>.
\<close>

record 'a work_queue_t =
  wq_buf :: "'a option list"
  wq_capacity :: nat
  wq_head :: nat
  wq_tail :: nat
  wq_count :: nat
  wq_shutting_down :: bool

text \<open>
  \<open>queue_init\<close>: \<open>malloc\<close> leaves the cells unwritten (\<open>None\<close>); the argument says whether it
  succeeds.  A failed allocation leaves a null buffer and returns 1.
\<close>

definition queue_init :: "bool \<Rightarrow> nat \<Rightarrow> 'a work_queue_t \<Rightarrow> int \<times> 'a work_queue_t" where
  "queue_init malloc_ok cap q =
     (if \<not> malloc_ok then (1, q\<lparr>wq_buf := []\<rparr>)
      else (0, q\<lparr>wq_buf := replicate cap None, wq_capacity := cap, wq_head := 0, wq_tail := 0,
                 wq_count := 0, wq_shutting_down := False\<rparr>))"

text \<open>\<open>(i + 1) % capacity\<close> divides by zero when the capacity is zero.\<close>

definition next_index :: "nat \<Rightarrow> nat \<Rightarrow> nat result" where
  "next_index i cap = (if cap = 0 then Inl DivByZero else Inr ((i + 1) mod cap))"

definition write_cell :: "nat \<Rightarrow> 'a \<Rightarrow> 'a option list \<Rightarrow> 'a option list result" where
  "write_cell i x buf = (if i < length buf then Inr (buf[i := Some x]) else Inl OutOfBounds)"

definition read_cell :: "nat \<Rightarrow> 'a option list \<Rightarrow> 'a result" where
  "read_cell i buf =
     (if i < length buf then (case buf ! i of None \<Rightarrow> Inl Uninitialised | Some x \<Rightarrow> Inr x)
      else Inl OutOfBounds)"

text \<open>\<open>queue_push\<close>: wait while full, store at the tail, advance, count, signal \<open>not_empty\<close>.\<close>

definition queue_push :: "'a work_queue_t \<Rightarrow> 'a \<Rightarrow> (unit, 'a work_queue_t) outcome result" where
  "queue_push q c =
     (if wq_count q = wq_capacity q then Inr Blocks
      else bindR (write_cell (wq_tail q) c (wq_buf q)) (\<lambda>b.
           bindR (next_index (wq_tail q) (wq_capacity q)) (\<lambda>t.
           Inr (Returns () (q\<lparr>wq_buf := b, wq_tail := t, wq_count := wq_count q + 1\<rparr>)))))"

text \<open>The common end of both pops: copy the head out, advance, uncount, signal \<open>not_full\<close>.\<close>

definition take_head :: "'a work_queue_t \<Rightarrow> ('a \<times> 'a work_queue_t) result" where
  "take_head q =
     bindR (read_cell (wq_head q) (wq_buf q)) (\<lambda>x.
     bindR (next_index (wq_head q) (wq_capacity q)) (\<lambda>h.
     Inr (x, q\<lparr>wq_head := h, wq_count := wq_count q - 1\<rparr>)))"

text \<open>
  \<open>queue_pop\<close> returns 0 and an element, or -1 once the queue is shutting down and empty; it waits
  while the queue is empty and not shutting down.
\<close>

definition queue_pop ::
  "'a work_queue_t \<Rightarrow> (int \<times> 'a option, 'a work_queue_t) outcome result" where
  "queue_pop q =
     (if wq_count q = 0 \<and> \<not> wq_shutting_down q then Inr Blocks
      else if wq_shutting_down q \<and> wq_count q = 0 then Inr (Returns (-1, None) q)
      else bindR (take_head q) (\<lambda>(x, q'). Inr (Returns (0, Some x) q')))"

text \<open>\<open>queue_trypop\<close> never waits: 1 is empty, -1 is empty and shutting down.\<close>

definition queue_trypop :: "'a work_queue_t \<Rightarrow> ((int \<times> 'a option) \<times> 'a work_queue_t) result" where
  "queue_trypop q =
     (if wq_count q = 0 then Inr ((if wq_shutting_down q then -1 else 1, None), q)
      else bindR (take_head q) (\<lambda>(x, q'). Inr ((0, Some x), q')))"

subsection \<open>Invariant and abstraction\<close>

definition wq_cells :: "'a work_queue_t \<Rightarrow> 'a option list" where
  "wq_cells q = ring_seg (wq_buf q) (wq_head q) (wq_count q)"

definition wq_list :: "'a work_queue_t \<Rightarrow> 'a list" where
  "wq_list q = map the (wq_cells q)"

text \<open>
  The array has the capacity's length, head and tail are indices, the tail is \<open>count\<close> slots after
  the head, and every counted cell has been written.
\<close>

definition wq_inv :: "'a work_queue_t \<Rightarrow> bool" where
  "wq_inv q \<longleftrightarrow>
     0 < wq_capacity q \<and> length (wq_buf q) = wq_capacity q
     \<and> wq_head q < wq_capacity q \<and> wq_count q \<le> wq_capacity q
     \<and> wq_tail q = (wq_head q + wq_count q) mod wq_capacity q
     \<and> None \<notin> set (wq_cells q)"

lemma wq_invD:
  assumes "wq_inv q"
  shows "0 < wq_capacity q" "length (wq_buf q) = wq_capacity q" "wq_head q < wq_capacity q"
    "wq_tail q < wq_capacity q" "wq_count q \<le> wq_capacity q"
    "wq_tail q = (wq_head q + wq_count q) mod wq_capacity q" "None \<notin> set (wq_cells q)"
  using assms by (auto simp: wq_inv_def)

lemma length_wq_list [simp]: "length (wq_list q) = wq_count q"
  by (simp add: wq_list_def wq_cells_def)

lemma queue_init_inv:
  "0 < cap \<Longrightarrow> queue_init True cap q = (r, q') \<Longrightarrow> wq_inv q' \<and> wq_list q' = [] \<and> r = 0"
  by (auto simp: queue_init_def wq_inv_def wq_list_def wq_cells_def)

lemma queue_push_room:
  assumes inv: "wq_inv q" and room: "wq_count q < wq_capacity q"
  obtains q' where "queue_push q c = Inr (Returns () q')" "wq_inv q'"
    "wq_list q' = wq_list q @ [c]" "wq_capacity q' = wq_capacity q"
    "wq_shutting_down q' = wq_shutting_down q" "wq_count q' = wq_count q + 1"
proof -
  note d = wq_invD [OF inv]
  define q' where "q' = q\<lparr>wq_buf := (wq_buf q)[wq_tail q := Some c],
     wq_tail := (wq_tail q + 1) mod wq_capacity q, wq_count := wq_count q + 1\<rparr>"
  have push: "queue_push q c = Inr (Returns () q')"
    using d room by (simp add: queue_push_def write_cell_def next_index_def q'_def)
  have cells: "wq_cells q' = wq_cells q @ [Some c]"
    using ring_seg_snoc [of "wq_count q" "wq_buf q" "wq_head q" "Some c"] d room
    by (simp add: wq_cells_def q'_def)
  have tail: "wq_tail q' = (wq_head q' + wq_count q') mod wq_capacity q'"
    using d by (simp add: q'_def mod_simps)
  have "wq_inv q'"
    using d room cells tail by (auto simp: wq_inv_def q'_def)
  with push cells show ?thesis
    by (intro that [of q']) (simp_all add: wq_list_def q'_def)
qed

lemma queue_push_full:
  assumes "wq_inv q" "wq_count q = wq_capacity q"
  shows "queue_push q c = Inr Blocks"
  using assms(2) by (simp add: queue_push_def)

lemma take_head_item:
  assumes inv: "wq_inv q" and ne: "0 < wq_count q"
  obtains x q' where "take_head q = Inr (x, q')" "wq_inv q'" "wq_list q = x # wq_list q'"
    "wq_capacity q' = wq_capacity q" "wq_shutting_down q' = wq_shutting_down q"
    "wq_count q' = wq_count q - 1"
proof -
  note d = wq_invD [OF inv]
  obtain n where n: "wq_count q = Suc n" using ne by (cases "wq_count q") auto
  define q' where "q' = q\<lparr>wq_head := (wq_head q + 1) mod wq_capacity q, wq_count := n\<rparr>"
  have cells: "wq_cells q = wq_buf q ! wq_head q # wq_cells q'"
    using ring_seg_Cons [of "wq_head q" "wq_buf q" n] d n by (simp add: wq_cells_def q'_def)
  then obtain x where x: "wq_buf q ! wq_head q = Some x"
    using d(7) by (cases "wq_buf q ! wq_head q") auto
  have "take_head q = Inr (x, q')"
    using d x n by (simp add: take_head_def read_cell_def next_index_def q'_def)
  moreover have "wq_inv q'"
    using d n cells by (auto simp: wq_inv_def q'_def mod_simps)
  ultimately show ?thesis
    using cells x n by (intro that [of x q']) (simp_all add: wq_list_def q'_def)
qed

subsection \<open>The queue is a bounded FIFO\<close>

definition wq_put :: "'a \<Rightarrow> 'a work_queue_t \<Rightarrow> 'a work_queue_t option" where
  "wq_put c q = (case queue_push q c of Inr (Returns _ q') \<Rightarrow> Some q' | _ \<Rightarrow> None)"

definition wq_get :: "'a work_queue_t \<Rightarrow> ('a \<times> 'a work_queue_t) option" where
  "wq_get q = (case queue_pop q of Inr (Returns (_, Some x) q') \<Rightarrow> Some (x, q') | _ \<Rightarrow> None)"

lemma wq_put_room:
  assumes "wq_inv q" "wq_count q < wq_capacity q"
  shows "\<exists>q'. wq_put x q = Some q' \<and> wq_inv q' \<and> wq_list q' = wq_list q @ [x]
           \<and> wq_capacity q' = wq_capacity q"
proof -
  obtain q' where "queue_push q x = Inr (Returns () q')" "wq_inv q'"
      "wq_list q' = wq_list q @ [x]" "wq_capacity q' = wq_capacity q"
    using queue_push_room [OF assms, of x] by metis
  then show ?thesis by (simp add: wq_put_def)
qed

lemma wq_get_item:
  assumes "wq_inv q" "wq_list q = x # xs"
  shows "\<exists>q'. wq_get q = Some (x, q') \<and> wq_inv q' \<and> wq_list q' = xs
           \<and> wq_capacity q' = wq_capacity q"
proof -
  have ne: "0 < wq_count q"
    using assms(2) by (metis length_wq_list length_greater_0_conv list.distinct(1))
  obtain y q' where "take_head q = Inr (y, q')" "wq_inv q'" "wq_list q = y # wq_list q'"
      "wq_capacity q' = wq_capacity q"
    using take_head_item [OF assms(1) ne] by metis
  then show ?thesis using assms(2) ne by (simp add: wq_get_def queue_pop_def)
qed

lemma wq_list_Nil: "wq_list q = [] \<longleftrightarrow> wq_count q = 0"
  by (metis length_0_conv length_wq_list)

interpretation wq: bounded_fifo wq_inv wq_list wq_capacity wq_put wq_get
proof unfold_locales
  fix q :: "'a work_queue_t" and x :: 'a
  assume inv: "wq_inv q"
  show "\<exists>q'. wq_put x q = Some q' \<and> wq_inv q' \<and> wq_list q' = wq_list q @ [x]
      \<and> wq_capacity q' = wq_capacity q" if "length (wq_list q) < wq_capacity q"
    using wq_put_room [OF inv] that by simp
  show "wq_put x q = None" if "wq_capacity q \<le> length (wq_list q)"
    using that wq_invD(5) [OF inv] by (simp add: wq_put_def queue_push_def)
  show "wq_get q = None" if "wq_list q = []"
    using that by (simp add: wq_list_Nil wq_get_def queue_pop_def)
  show "\<exists>q'. wq_get q = Some (x, q') \<and> wq_inv q' \<and> wq_list q' = xs \<and> wq_capacity q' = wq_capacity q"
    if "wq_list q = x # xs" for xs
    using wq_get_item [OF inv that] .
  show "length (wq_list q) \<le> wq_capacity q"
    using wq_invD(5) [OF inv] by simp
qed

subsection \<open>Properties\<close>

text \<open>
  Over any sequence of pushes and pops a connection queue delivers connections
  in the order they were pushed, losing and duplicating none, and never holds more than its
  capacity.
\<close>

theorem conn_queue_fifo:
  assumes "wq_inv q" "fifo_run wq_put wq_get ps q = (es, q')"
  shows "wq_list q @ accepted es = delivered es @ wq_list q' \<and> length (wq_list q') \<le> wq_capacity q"
  using wq.run_fifo [OF assms] wq.run_bound [OF assms] by simp

text \<open>
  Both pops on a well-formed queue, on every branch: with elements they return 0
  and the oldest one and leave the rest; on an empty queue \<open>queue_pop\<close> waits, or returns -1 when
  the queue is shutting down, and \<open>queue_trypop\<close> returns 1, or -1 when it is shutting down.  No
  branch reads outside the array or a cell never written.
\<close>

theorem queue_pop_cases:
  assumes "wq_inv q"
  shows "case wq_list q of
      [] \<Rightarrow> queue_pop q = Inr (if wq_shutting_down q then Returns (-1, None) q else Blocks)
           \<and> queue_trypop q = Inr ((if wq_shutting_down q then -1 else 1, None), q)
    | x # xs \<Rightarrow> \<exists>q'. queue_pop q = Inr (Returns (0, Some x) q')
           \<and> queue_trypop q = Inr ((0, Some x), q') \<and> wq_inv q' \<and> wq_list q' = xs"
proof (cases "wq_list q")
  case Nil
  then have "wq_count q = 0" by (simp add: wq_list_Nil)
  with Nil show ?thesis by (simp add: queue_pop_def queue_trypop_def)
next
  case (Cons x xs)
  have ne: "0 < wq_count q"
    using Cons by (metis length_wq_list length_greater_0_conv list.distinct(1))
  obtain y q' where "take_head q = Inr (y, q')" "wq_inv q'" "wq_list q = y # wq_list q'"
    using take_head_item [OF assms ne] by metis
  then show ?thesis using Cons ne by (simp add: queue_pop_def queue_trypop_def)
qed

text \<open>A queue of two slots that holds one element, for the witnesses.\<close>

definition sample_queue :: "nat work_queue_t" where
  "sample_queue = \<lparr>wq_buf = [None, Some 7], wq_capacity = 2, wq_head = 1, wq_tail = 0, wq_count = 1,
     wq_shutting_down = False\<rparr>"

lemma sample_queue_inv: "wq_inv sample_queue" "wq_list sample_queue = [7]"
  by (simp_all add: wq_inv_def wq_list_def wq_cells_def ring_seg_def sample_queue_def)

theorem conn_queue_fifo_witness:
  "case fifo_run wq_put wq_get [Put 8, Get, Put 9] sample_queue of (es, q') \<Rightarrow>
     [7] @ accepted es = delivered es @ wq_list q' \<and> length (wq_list q') \<le> 2"
proof (cases "fifo_run wq_put wq_get [Put 8, Get, Put 9] sample_queue")
  case (Pair es q')
  from conn_queue_fifo [OF sample_queue_inv(1) Pair] Pair show ?thesis
    by (simp add: sample_queue_inv) (simp add: sample_queue_def)
qed

theorem queue_pop_cases_witness:
  "\<exists>q'. queue_pop sample_queue = Inr (Returns (0, Some 7) q') \<and> wq_inv q' \<and> wq_list q' = []"
  using queue_pop_cases [OF sample_queue_inv(1)] by (auto simp: sample_queue_inv)

end
