(* ===== verification/QueueMonitor.thy ===== *)
theory QueueMonitor
  imports ConnQueue
begin

text \<open>
  The threads around one connection queue.  A step is one critical section of
  \<open>src/threadpool.c\<close>: from taking the mutex to releasing it, by returning or by sleeping on a
  condition variable.  A signal wakes one sleeper if there is one, the shutdown of
  \<open>src/server.c\<close> wakes all sleeping poppers, and sleepers may also wake spuriously; a woken
  thread competes for the mutex again and re-tests its condition.  Any number of threads runs in
  any order.
\<close>

datatype 'a tstate = Ready | PushSleep 'a | PushWoken 'a | PopSleep | PopWoken

text \<open>The two lists record, in order, every element stored and every element taken so far.\<close>

record 'a monitor =
  mon_queue :: "'a work_queue_t"
  mon_threads :: "nat \<Rightarrow> 'a tstate"
  mon_pushed :: "'a list"
  mon_popped :: "'a list"

definition pop_sleepers :: "(nat \<Rightarrow> 'a tstate) \<Rightarrow> nat set" where
  "pop_sleepers ts = {i. ts i = PopSleep}"

definition pop_woken :: "(nat \<Rightarrow> 'a tstate) \<Rightarrow> nat set" where
  "pop_woken ts = {i. ts i = PopWoken}"

definition push_sleepers :: "(nat \<Rightarrow> 'a tstate) \<Rightarrow> nat set" where
  "push_sleepers ts = {i. \<exists>c. ts i = PushSleep c}"

definition push_woken :: "(nat \<Rightarrow> 'a tstate) \<Rightarrow> nat set" where
  "push_woken ts = {i. \<exists>c. ts i = PushWoken c}"

lemmas tset_defs = pop_sleepers_def pop_woken_def push_sleepers_def push_woken_def

text \<open>\<open>pthread_cond_signal\<close> on each of the two conditions.\<close>

inductive signal_not_empty :: "(nat \<Rightarrow> 'a tstate) \<Rightarrow> (nat \<Rightarrow> 'a tstate) \<Rightarrow> bool" where
  ne_nobody: "pop_sleepers ts = {} \<Longrightarrow> signal_not_empty ts ts"
| ne_wake: "ts i = PopSleep \<Longrightarrow> signal_not_empty ts (ts(i := PopWoken))"

inductive signal_not_full :: "(nat \<Rightarrow> 'a tstate) \<Rightarrow> (nat \<Rightarrow> 'a tstate) \<Rightarrow> bool" where
  nf_nobody: "push_sleepers ts = {} \<Longrightarrow> signal_not_full ts ts"
| nf_wake: "ts i = PushSleep c \<Longrightarrow> signal_not_full ts (ts(i := PushWoken c))"

text \<open>\<open>pthread_cond_broadcast\<close> on \<open>not_empty\<close>.\<close>

definition wake_poppers :: "(nat \<Rightarrow> 'a tstate) \<Rightarrow> nat \<Rightarrow> 'a tstate" where
  "wake_poppers ts i = (if ts i = PopSleep then PopWoken else ts i)"

inductive mon_step :: "'a monitor \<Rightarrow> 'a monitor \<Rightarrow> bool" where
  push_store: "mon_threads s i = Ready \<or> mon_threads s i = PushWoken c \<Longrightarrow>
     queue_push (mon_queue s) c = Inr (Returns () q) \<Longrightarrow>
     signal_not_empty ((mon_threads s)(i := Ready)) ts \<Longrightarrow>
     mon_step s (s\<lparr>mon_queue := q, mon_threads := ts, mon_pushed := mon_pushed s @ [c]\<rparr>)"
| push_wait: "mon_threads s i = Ready \<or> mon_threads s i = PushWoken c \<Longrightarrow>
     queue_push (mon_queue s) c = Inr Blocks \<Longrightarrow>
     mon_step s (s\<lparr>mon_threads := (mon_threads s)(i := PushSleep c)\<rparr>)"
| pop_take: "mon_threads s i = Ready \<or> mon_threads s i = PopWoken \<Longrightarrow>
     queue_pop (mon_queue s) = Inr (Returns (0, Some x) q) \<Longrightarrow>
     signal_not_full ((mon_threads s)(i := Ready)) ts \<Longrightarrow>
     mon_step s (s\<lparr>mon_queue := q, mon_threads := ts, mon_popped := mon_popped s @ [x]\<rparr>)"
| pop_exit: "mon_threads s i = Ready \<or> mon_threads s i = PopWoken \<Longrightarrow>
     queue_pop (mon_queue s) = Inr (Returns (-1, None) q) \<Longrightarrow>
     mon_step s (s\<lparr>mon_queue := q, mon_threads := (mon_threads s)(i := Ready)\<rparr>)"
| pop_wait: "mon_threads s i = Ready \<or> mon_threads s i = PopWoken \<Longrightarrow>
     queue_pop (mon_queue s) = Inr Blocks \<Longrightarrow>
     mon_step s (s\<lparr>mon_threads := (mon_threads s)(i := PopSleep)\<rparr>)"
| trypop_take: "mon_threads s i = Ready \<Longrightarrow>
     queue_trypop (mon_queue s) = Inr ((0, Some x), q) \<Longrightarrow>
     signal_not_full (mon_threads s) ts \<Longrightarrow>
     mon_step s (s\<lparr>mon_queue := q, mon_threads := ts, mon_popped := mon_popped s @ [x]\<rparr>)"
| spurious_pop: "mon_threads s i = PopSleep \<Longrightarrow>
     mon_step s (s\<lparr>mon_threads := (mon_threads s)(i := PopWoken)\<rparr>)"
| spurious_push: "mon_threads s i = PushSleep c \<Longrightarrow>
     mon_step s (s\<lparr>mon_threads := (mon_threads s)(i := PushWoken c)\<rparr>)"
| begin_shutdown: "mon_step s (s\<lparr>mon_queue := (mon_queue s)\<lparr>wq_shutting_down := True\<rparr>,
        mon_threads := wake_poppers (mon_threads s)\<rparr>)"

definition mon_init :: "'a work_queue_t \<Rightarrow> 'a monitor" where
  "mon_init q = \<lparr>mon_queue = q, mon_threads = (\<lambda>_. Ready), mon_pushed = [], mon_popped = []\<rparr>"

text \<open>The states reached from a freshly initialised queue of some positive capacity.\<close>

inductive mon_reachable :: "nat \<Rightarrow> 'a monitor \<Rightarrow> bool" for cap where
  reach_init: "queue_init True cap junk = (0, q) \<Longrightarrow> mon_reachable cap (mon_init q)"
| reach_step: "mon_reachable cap s \<Longrightarrow> mon_step s t \<Longrightarrow> mon_reachable cap t"

subsection \<open>The invariant\<close>

text \<open>
  Besides the queue's own invariant and the record of its traffic: while somebody sleeps for an
  element, there are at least as many woken poppers as stored elements, and while somebody sleeps
  for space, at least as many woken pushers as free slots.  Nobody sleeps for an element of a
  queue that is shutting down.
\<close>

definition mon_inv :: "nat \<Rightarrow> 'a monitor \<Rightarrow> bool" where
  "mon_inv cap s \<longleftrightarrow>
     wq_inv (mon_queue s) \<and> wq_capacity (mon_queue s) = cap
     \<and> mon_pushed s = mon_popped s @ wq_list (mon_queue s)
     \<and> finite {i. mon_threads s i \<noteq> Ready}
     \<and> (pop_sleepers (mon_threads s) \<noteq> {} \<longrightarrow>
          wq_count (mon_queue s) \<le> card (pop_woken (mon_threads s))
          \<and> \<not> wq_shutting_down (mon_queue s))
     \<and> (push_sleepers (mon_threads s) \<noteq> {} \<longrightarrow>
          cap - wq_count (mon_queue s) \<le> card (push_woken (mon_threads s)))"

text \<open>How the sets of threads change when one thread changes state.\<close>

definition pop_ok :: "(nat \<Rightarrow> 'a tstate) \<Rightarrow> nat \<Rightarrow> bool" where
  "pop_ok ts n \<longleftrightarrow> (pop_sleepers ts \<noteq> {} \<longrightarrow> n \<le> card (pop_woken ts))"

definition push_ok :: "(nat \<Rightarrow> 'a tstate) \<Rightarrow> nat \<Rightarrow> bool" where
  "push_ok ts n \<longleftrightarrow> (push_sleepers ts \<noteq> {} \<longrightarrow> n \<le> card (push_woken ts))"

lemma mon_inv_iff:
  "mon_inv cap s \<longleftrightarrow>
     wq_inv (mon_queue s) \<and> wq_capacity (mon_queue s) = cap
     \<and> mon_pushed s = mon_popped s @ wq_list (mon_queue s)
     \<and> finite {i. mon_threads s i \<noteq> Ready}
     \<and> pop_ok (mon_threads s) (wq_count (mon_queue s))
     \<and> (pop_sleepers (mon_threads s) \<noteq> {} \<longrightarrow> \<not> wq_shutting_down (mon_queue s))
     \<and> push_ok (mon_threads s) (cap - wq_count (mon_queue s))"
  by (auto simp: mon_inv_def pop_ok_def push_ok_def)

lemma finite_tsets:
  assumes "finite {i. ts i \<noteq> Ready}"
  shows "finite (pop_woken ts)" "finite (push_woken ts)"
  using assms by (auto simp: tset_defs elim!: rev_finite_subset)

lemma finite_upd: "finite {i. ts i \<noteq> Ready} \<Longrightarrow> finite {j. (ts(i := v)) j \<noteq> Ready}"
  by (rule finite_subset [of _ "insert i {i. ts i \<noteq> Ready}"]) auto

lemma card_minus_one: "finite A \<Longrightarrow> card A \<le> Suc (card (A - {i}))"
  by (cases "i \<in> A") (auto simp: card_Suc_Diff1)

text \<open>A pusher (new or woken) leaves: the poppers are untouched, one woken pusher less.\<close>

lemma pusher_done:
  assumes "ts i = Ready \<or> ts i = PushWoken c" "finite {i. ts i \<noteq> Ready}"
  shows "pop_sleepers (ts(i := Ready)) = pop_sleepers ts" "pop_woken (ts(i := Ready)) = pop_woken ts"
    "push_sleepers (ts(i := Ready)) = push_sleepers ts"
    "card (push_woken ts) \<le> Suc (card (push_woken (ts(i := Ready))))"
proof -
  show "pop_sleepers (ts(i := Ready)) = pop_sleepers ts" "pop_woken (ts(i := Ready)) = pop_woken ts"
    "push_sleepers (ts(i := Ready)) = push_sleepers ts"
    using assms(1) by (auto simp: tset_defs)
  have "push_woken (ts(i := Ready)) = push_woken ts - {i}" by (auto simp: tset_defs)
  then show "card (push_woken ts) \<le> Suc (card (push_woken (ts(i := Ready))))"
    using card_minus_one [OF finite_tsets(2) [OF assms(2)]] by simp
qed

lemma popper_done:
  assumes "ts i = Ready \<or> ts i = PopWoken" "finite {i. ts i \<noteq> Ready}"
  shows "push_sleepers (ts(i := Ready)) = push_sleepers ts"
    "push_woken (ts(i := Ready)) = push_woken ts"
    "pop_sleepers (ts(i := Ready)) = pop_sleepers ts"
    "card (pop_woken ts) \<le> Suc (card (pop_woken (ts(i := Ready))))"
proof -
  show "push_sleepers (ts(i := Ready)) = push_sleepers ts"
    "push_woken (ts(i := Ready)) = push_woken ts"
    "pop_sleepers (ts(i := Ready)) = pop_sleepers ts"
    using assms(1) by (auto simp: tset_defs)
  have "pop_woken (ts(i := Ready)) = pop_woken ts - {i}" by (auto simp: tset_defs)
  then show "card (pop_woken ts) \<le> Suc (card (pop_woken (ts(i := Ready))))"
    using card_minus_one [OF finite_tsets(1) [OF assms(2)]] by simp
qed

lemma signal_not_empty_ok:
  assumes "signal_not_empty ts ts'" "pop_ok ts n" "finite {i. ts i \<noteq> Ready}"
  shows "pop_ok ts' (Suc n)" "finite {i. ts' i \<noteq> Ready}" "push_ok ts' m = push_ok ts m"
    "pop_sleepers ts' \<noteq> {} \<longrightarrow> pop_sleepers ts \<noteq> {}"
  using assms
proof (induction rule: signal_not_empty.induct)
  case (ne_wake ts i)
  have w: "pop_woken (ts(i := PopWoken)) = insert i (pop_woken ts)" "i \<notin> pop_woken ts"
    "i \<in> pop_sleepers ts"
    using ne_wake by (auto simp: tset_defs)
  {
    case 1
    then show ?case
      using w finite_tsets(1) [OF 1(2)] by (auto simp: pop_ok_def simp del: fun_upd_apply)
  next
    case 2
    then show ?case by (intro finite_upd)
  next
    case 3
    have "push_sleepers (ts(i := PopWoken)) = push_sleepers ts"
      "push_woken (ts(i := PopWoken)) = push_woken ts"
      using ne_wake by (auto simp: tset_defs)
    then show ?case by (simp add: push_ok_def del: fun_upd_apply)
  next
    case 4
    then show ?case using w by (auto simp del: fun_upd_apply)
  }
qed (auto simp: pop_ok_def)

lemma signal_not_full_ok:
  assumes "signal_not_full ts ts'" "push_ok ts n" "finite {i. ts i \<noteq> Ready}"
  shows "push_ok ts' (Suc n)" "finite {i. ts' i \<noteq> Ready}" "pop_ok ts' m = pop_ok ts m"
    "pop_sleepers ts' = pop_sleepers ts"
  using assms
proof (induction rule: signal_not_full.induct)
  case (nf_wake ts i c)
  have w: "push_woken (ts(i := PushWoken c)) = insert i (push_woken ts)" "i \<notin> push_woken ts"
    "i \<in> push_sleepers ts"
    using nf_wake by (auto simp: tset_defs)
  have s: "pop_sleepers (ts(i := PushWoken c)) = pop_sleepers ts"
    "pop_woken (ts(i := PushWoken c)) = pop_woken ts"
    using nf_wake by (auto simp: tset_defs)
  {
    case 1
    then show ?case
      using w finite_tsets(2) [OF 1(2)] by (auto simp: push_ok_def simp del: fun_upd_apply)
  next
    case 2
    then show ?case by (intro finite_upd)
  next
    case 3
    then show ?case using s by (simp add: pop_ok_def del: fun_upd_apply)
  next
    case 4
    then show ?case using s by (simp del: fun_upd_apply)
  }
qed (auto simp: push_ok_def)

subsection \<open>Every step keeps the invariant\<close>

lemma push_result:
  assumes "wq_inv q" "queue_push q c = Inr (Returns u q')"
  shows "wq_inv q'" "wq_list q' = wq_list q @ [c]" "wq_capacity q' = wq_capacity q"
    "wq_shutting_down q' = wq_shutting_down q" "wq_count q' = Suc (wq_count q)"
    "wq_count q < wq_capacity q"
proof -
  show room: "wq_count q < wq_capacity q"
    using assms wq_invD(5) [OF assms(1)] by (cases "wq_count q = wq_capacity q") (auto simp: queue_push_def)
  obtain q1 where "queue_push q c = Inr (Returns () q1)" "wq_inv q1" "wq_list q1 = wq_list q @ [c]"
      "wq_capacity q1 = wq_capacity q" "wq_shutting_down q1 = wq_shutting_down q"
      "wq_count q1 = wq_count q + 1"
    using queue_push_room [OF assms(1) room] by metis
  with assms(2) show "wq_inv q'" "wq_list q' = wq_list q @ [c]" "wq_capacity q' = wq_capacity q"
    "wq_shutting_down q' = wq_shutting_down q" "wq_count q' = Suc (wq_count q)"
    by auto
qed

lemma take_result:
  assumes "wq_inv q" "take_head q = Inr (x, q')" "wq_count q \<noteq> 0"
  shows "wq_inv q'" "wq_list q = x # wq_list q'" "wq_capacity q' = wq_capacity q"
    "wq_shutting_down q' = wq_shutting_down q" "wq_count q = Suc (wq_count q')"
proof -
  have ne: "0 < wq_count q" using assms(3) by simp
  obtain y q1 where "take_head q = Inr (y, q1)" "wq_inv q1" "wq_list q = y # wq_list q1"
    "wq_capacity q1 = wq_capacity q" "wq_shutting_down q1 = wq_shutting_down q"
    "wq_count q1 = wq_count q - 1"
    using take_head_item [OF assms(1) ne] by metis
  with assms show "wq_inv q'" "wq_list q = x # wq_list q'" "wq_capacity q' = wq_capacity q"
    "wq_shutting_down q' = wq_shutting_down q" "wq_count q = Suc (wq_count q')"
    by auto
qed

lemma pop_result:
  assumes "queue_pop q = Inr (Returns (0, Some x) q')"
  shows "take_head q = Inr (x, q')" "wq_count q \<noteq> 0"
  using assms by (auto simp: queue_pop_def bindR_Inr_iff split: if_splits)

lemma trypop_result:
  assumes "queue_trypop q = Inr ((0, Some x), q')"
  shows "take_head q = Inr (x, q')" "wq_count q \<noteq> 0"
  using assms by (auto simp: queue_trypop_def bindR_Inr_iff split: if_splits)

lemma push_wait_result: "queue_push q c = Inr Blocks \<Longrightarrow> wq_count q = wq_capacity q"
  by (auto simp: queue_push_def bindR_Inr_iff split: if_splits)

lemma pop_wait_result: "queue_pop q = Inr Blocks \<Longrightarrow> wq_count q = 0 \<and> \<not> wq_shutting_down q"
  by (auto simp: queue_pop_def bindR_Inr_iff split: if_splits)

lemma pop_exit_result:
  "queue_pop q = Inr (Returns (-1, None) q') \<Longrightarrow> q' = q \<and> wq_count q = 0 \<and> wq_shutting_down q"
  by (auto simp: queue_pop_def bindR_Inr_iff split: if_splits)

text \<open>The take of an element, common to the two pops.\<close>

lemma take_keeps_inv:
  assumes inv: "mon_inv cap s" and t: "mon_threads s i = Ready \<or> mon_threads s i = PopWoken"
    and take: "take_head (mon_queue s) = Inr (x, q)" "wq_count (mon_queue s) \<noteq> 0"
    and sig: "signal_not_full ((mon_threads s)(i := Ready)) ts"
  shows "mon_inv cap (s\<lparr>mon_queue := q, mon_threads := ts, mon_popped := mon_popped s @ [x]\<rparr>)"
proof -
  let ?ts = "mon_threads s" and ?q = "mon_queue s"
  from inv have I: "wq_inv ?q" "wq_capacity ?q = cap" "mon_pushed s = mon_popped s @ wq_list ?q"
    and fin: "finite {i. ?ts i \<noteq> Ready}" and pk: "pop_ok ?ts (wq_count ?q)"
    and sd: "pop_sleepers ?ts \<noteq> {} \<longrightarrow> \<not> wq_shutting_down ?q"
    and uk: "push_ok ?ts (cap - wq_count ?q)"
    by (auto simp: mon_inv_iff)
  note r = take_result [OF I(1) take] and p = popper_done [OF t fin]
  have uk': "push_ok (?ts(i := Ready)) (cap - wq_count ?q)"
    using uk p by (auto simp: push_ok_def simp del: fun_upd_apply)
  have pk': "pop_ok (?ts(i := Ready)) (wq_count q)"
    using pk p r(5) by (auto simp: pop_ok_def simp del: fun_upd_apply)
  note g = signal_not_full_ok [OF sig uk' finite_upd [OF fin]]
  have le: "wq_count ?q \<le> cap" using wq_invD(5) [OF I(1)] I(2) by simp
  then have "cap - wq_count q = Suc (cap - wq_count ?q)" using r(5) by simp
  with g I r pk' sd p show ?thesis
    by (simp add: mon_inv_iff del: fun_upd_apply)
qed

lemma mon_step_inv: "mon_step s t \<Longrightarrow> mon_inv cap s \<Longrightarrow> mon_inv cap t"
proof (induction rule: mon_step.induct)
  case (push_store s i c q ts)
  let ?ts = "mon_threads s" and ?q = "mon_queue s"
  from push_store.prems have I: "wq_inv ?q" "wq_capacity ?q = cap"
      "mon_pushed s = mon_popped s @ wq_list ?q"
    and fin: "finite {i. ?ts i \<noteq> Ready}" and pk: "pop_ok ?ts (wq_count ?q)"
    and sd: "pop_sleepers ?ts \<noteq> {} \<longrightarrow> \<not> wq_shutting_down ?q"
    and uk: "push_ok ?ts (cap - wq_count ?q)"
    by (auto simp: mon_inv_iff)
  note r = push_result [OF I(1) push_store.hyps(2)] and p = pusher_done [OF push_store.hyps(1) fin]
  have pk': "pop_ok (?ts(i := Ready)) (wq_count ?q)"
    using pk p by (auto simp: pop_ok_def simp del: fun_upd_apply)
  have uk': "push_ok (?ts(i := Ready)) (cap - wq_count q)"
    using uk p r(5) by (auto simp: push_ok_def simp del: fun_upd_apply)
  note g = signal_not_empty_ok [OF push_store.hyps(3) pk' finite_upd [OF fin]]
  from g r I uk' sd p show ?case
    by (auto simp: mon_inv_iff simp del: fun_upd_apply)
next
  case (push_wait s i c)
  have "pop_sleepers ((mon_threads s)(i := PushSleep c)) = pop_sleepers (mon_threads s)"
    "pop_woken ((mon_threads s)(i := PushSleep c)) = pop_woken (mon_threads s)"
    using push_wait.hyps(1) by (auto simp: tset_defs)
  moreover have "finite {i. mon_threads s i \<noteq> Ready}" using push_wait.prems by (simp add: mon_inv_iff)
  ultimately show ?case
    using push_wait.prems push_wait_result [OF push_wait.hyps(2)] finite_upd [of "mon_threads s" i "PushSleep c"]
    by (auto simp: mon_inv_iff pop_ok_def push_ok_def simp del: fun_upd_apply)
next
  case (pop_take s i x q ts)
  show ?case
    using take_keeps_inv [OF pop_take.prems pop_take.hyps(1) pop_result [OF pop_take.hyps(2)]
        pop_take.hyps(3)] .
next
  case (pop_exit s i q)
  note e = pop_exit_result [OF pop_exit.hyps(2)]
  have "finite {i. mon_threads s i \<noteq> Ready}" using pop_exit.prems by (simp add: mon_inv_iff)
  note p = popper_done [OF pop_exit.hyps(1) this]
  from p e pop_exit.prems finite_upd [of "mon_threads s" i Ready] show ?case
    by (auto simp: mon_inv_iff pop_ok_def push_ok_def simp del: fun_upd_apply)
next
  case (pop_wait s i)
  have "push_sleepers ((mon_threads s)(i := PopSleep)) = push_sleepers (mon_threads s)"
    "push_woken ((mon_threads s)(i := PopSleep)) = push_woken (mon_threads s)"
    using pop_wait.hyps(1) by (auto simp: tset_defs)
  moreover have "finite {i. mon_threads s i \<noteq> Ready}" using pop_wait.prems by (simp add: mon_inv_iff)
  ultimately show ?case
    using pop_wait.prems pop_wait_result [OF pop_wait.hyps(2)] finite_upd [of "mon_threads s" i "PopSleep"]
    by (auto simp: mon_inv_iff pop_ok_def push_ok_def simp del: fun_upd_apply)
next
  case (trypop_take s i x q ts)
  from trypop_take.hyps(1) have id: "(mon_threads s)(i := Ready) = mon_threads s" by auto
  show ?case
    using take_keeps_inv [of cap s i x q ts] trypop_take.prems trypop_take.hyps(1,3)
      trypop_result [OF trypop_take.hyps(2)] by (simp add: id)
next
  case (spurious_pop s i)
  then have fin: "finite {i. mon_threads s i \<noteq> Ready}"
    and pk: "pop_ok (mon_threads s) (wq_count (mon_queue s))" by (auto simp: mon_inv_iff)
  note g = signal_not_empty_ok [OF ne_wake [of "mon_threads s", OF spurious_pop.hyps] pk fin]
  have "pop_ok ((mon_threads s)(i := PopWoken)) (wq_count (mon_queue s))"
    using g(1) by (auto simp: pop_ok_def simp del: fun_upd_apply)
  with g spurious_pop.prems show ?case
    by (auto simp: mon_inv_iff simp del: fun_upd_apply)
next
  case (spurious_push s i c)
  then have fin: "finite {i. mon_threads s i \<noteq> Ready}"
    and uk: "push_ok (mon_threads s) (cap - wq_count (mon_queue s))" by (auto simp: mon_inv_iff)
  note g = signal_not_full_ok [OF nf_wake [of "mon_threads s", OF spurious_push.hyps] uk fin]
  have "push_ok ((mon_threads s)(i := PushWoken c)) (cap - wq_count (mon_queue s))"
    using g(1) by (auto simp: push_ok_def simp del: fun_upd_apply)
  with g spurious_push.prems show ?case
    by (auto simp: mon_inv_iff simp del: fun_upd_apply)
next
  case (begin_shutdown s)
  have "pop_sleepers (wake_poppers (mon_threads s)) = {}"
    "push_sleepers (wake_poppers (mon_threads s)) = push_sleepers (mon_threads s)"
    "push_woken (wake_poppers (mon_threads s)) = push_woken (mon_threads s)"
    "{i. wake_poppers (mon_threads s) i \<noteq> Ready} = {i. mon_threads s i \<noteq> Ready}"
    by (auto simp: tset_defs wake_poppers_def split: if_splits)
  with begin_shutdown.prems show ?case
    by (simp add: mon_inv_iff pop_ok_def push_ok_def wq_inv_def wq_list_def wq_cells_def)
qed

lemma mon_reachable_inv:
  assumes "mon_reachable cap s" "0 < cap"
  shows "mon_inv cap s"
  using assms
proof (induction rule: mon_reachable.induct)
  case (reach_init junk q)
  then have "wq_inv q" "wq_list q = []" "wq_capacity q = cap"
    using queue_init_inv [of cap junk 0 q] by (auto simp: queue_init_def)
  then show ?case
    by (simp add: mon_inv_def mon_init_def tset_defs)
next
  case (reach_step s t)
  then show ?case by (blast intro: mon_step_inv)
qed

subsection \<open>Properties\<close>

text \<open>
  C8. However any number of threads interleave on a connection queue, with
  sleeps, signals, spurious wake-ups and a shutdown: the elements taken, followed by those still
  stored, are exactly the elements pushed, in order; and the capacity is never exceeded.
\<close>

theorem queue_threads_fifo:
  assumes "mon_reachable cap s" "0 < cap"
  shows "mon_pushed s = mon_popped s @ wq_list (mon_queue s)
     \<and> length (wq_list (mon_queue s)) \<le> cap"
  using mon_reachable_inv [OF assms] wq_invD(5) [of "mon_queue s"] by (auto simp: mon_inv_def)

text \<open>
  C14. No wake-up is lost: while a thread sleeps waiting for an element, every stored
  element is matched by a woken popper, and while one sleeps waiting for space, every free slot is
  matched by a woken pusher.  So poppers and pushers are never all asleep at the same time.
\<close>

theorem no_lost_wakeup:
  assumes "mon_reachable cap s" "0 < cap"
  shows "(mon_threads s i = PopSleep \<longrightarrow>
            length (wq_list (mon_queue s)) \<le> card {j. mon_threads s j = PopWoken})
     \<and> (mon_threads s i = PushSleep c \<longrightarrow>
            cap - length (wq_list (mon_queue s)) \<le> card {j. \<exists>d. mon_threads s j = PushWoken d})
     \<and> (mon_threads s i = PopSleep \<and> mon_threads s k = PushSleep c \<longrightarrow>
            (\<exists>j. mon_threads s j = PopWoken \<or> (\<exists>d. mon_threads s j = PushWoken d)))"
proof -
  note inv = mon_reachable_inv [OF assms]
  have pop: "length (wq_list (mon_queue s)) \<le> card {j. mon_threads s j = PopWoken}"
    if "mon_threads s m = PopSleep" for m
    using inv that by (auto simp: mon_inv_def tset_defs)
  have push: "cap - length (wq_list (mon_queue s)) \<le> card {j. \<exists>d. mon_threads s j = PushWoken d}"
    if "mon_threads s m = PushSleep c" for m
    using inv that by (auto simp: mon_inv_def tset_defs)
  have "\<exists>j. mon_threads s j = PopWoken \<or> (\<exists>d. mon_threads s j = PushWoken d)"
    if "mon_threads s i = PopSleep" "mon_threads s k = PushSleep c"
  proof (rule ccontr)
    assume "\<not> ?thesis"
    then have e: "{j. mon_threads s j = PopWoken} = {}" "{j. \<exists>d. mon_threads s j = PushWoken d} = {}"
      by auto
    from pop [OF that(1)] push [OF that(2)] assms(2) show False
      by (simp add: e)
  qed
  with pop push show ?thesis by blast
qed

text \<open>
  A run for the witnesses: threads 0 and 2 sleep in a pop, thread 1 pushes and wakes thread 0, so
  thread 2 still sleeps.
\<close>

definition example_queue :: "nat work_queue_t" where
  "example_queue = \<lparr>wq_buf = [None], wq_capacity = 1, wq_head = 0, wq_tail = 0, wq_count = 0,
     wq_shutting_down = False\<rparr>"

definition example_full :: "nat work_queue_t" where
  "example_full = example_queue\<lparr>wq_buf := [Some 7], wq_count := 1\<rparr>"

definition example_state :: "nat monitor" where
  "example_state = \<lparr>mon_queue = example_full,
     mon_threads = (\<lambda>_. Ready)(0 := PopWoken, 2 := PopSleep), mon_pushed = [7], mon_popped = []\<rparr>"

lemma example_reachable: "mon_reachable 1 example_state"
proof -
  let ?s0 = "mon_init example_queue"
  let ?s1 = "?s0\<lparr>mon_threads := (mon_threads ?s0)(0 := PopSleep)\<rparr>"
  let ?s2 = "?s1\<lparr>mon_threads := (mon_threads ?s1)(2 := PopSleep)\<rparr>"
  let ?ts = "((mon_threads ?s2)(1 := Ready))(0 := PopWoken)"
  let ?s3 = "?s2\<lparr>mon_queue := example_full, mon_threads := ?ts, mon_pushed := mon_pushed ?s2 @ [7]\<rparr>"
  have r0: "mon_reachable 1 ?s0"
    by (rule reach_init [of 1 example_queue]) (simp add: queue_init_def example_queue_def)
  have "mon_step ?s0 ?s1"
    by (rule pop_wait) (simp_all add: mon_init_def queue_pop_def example_queue_def)
  with r0 have r1: "mon_reachable 1 ?s1" by (rule reach_step)
  have "mon_step ?s1 ?s2"
    by (rule pop_wait) (simp_all add: mon_init_def queue_pop_def example_queue_def)
  with r1 have r2: "mon_reachable 1 ?s2" by (rule reach_step)
  have "mon_step ?s2 ?s3"
  proof (rule push_store)
    show "mon_threads ?s2 1 = Ready \<or> mon_threads ?s2 1 = PushWoken 7" by (simp add: mon_init_def)
    show "queue_push (mon_queue ?s2) 7 = Inr (Returns () example_full)"
      by (simp add: mon_init_def queue_push_def example_queue_def example_full_def write_cell_def
          next_index_def)
    show "signal_not_empty ((mon_threads ?s2)(1 := Ready)) ?ts"
      by (rule ne_wake) simp
  qed
  with r2 have r3: "mon_reachable 1 ?s3" by (rule reach_step)
  have ts: "?ts = (\<lambda>_. Ready)(0 := PopWoken, 2 := PopSleep)"
    by (auto simp: mon_init_def)
  have "?s3 = example_state"
    unfolding example_state_def ts by (simp add: mon_init_def)
  with r3 show ?thesis by simp
qed

theorem queue_threads_fifo_witness:
  "mon_pushed example_state = [] @ wq_list (mon_queue example_state)
     \<and> length (wq_list (mon_queue example_state)) \<le> 1"
  using queue_threads_fifo [OF example_reachable] by (simp add: example_state_def)

theorem no_lost_wakeup_witness:
  "mon_threads example_state 2 = PopSleep \<and> 1 \<le> card {j. mon_threads example_state j = PopWoken}"
proof -
  have "length (wq_list (mon_queue example_state)) = 1" "mon_threads example_state 2 = PopSleep"
    by (simp_all add: example_state_def example_full_def example_queue_def)
  then show ?thesis
    using no_lost_wakeup [OF example_reachable, of 2 0 0] by simp
qed

end
