(* ===== verification/CLib.thy ===== *)
theory CLib
  imports Prelude
begin

text \<open>
  The part of the C library the server's own logic rests on, as functions on byte lists: C
  strings (the text before the first NUL), \<open>strcmp\<close> and \<open>strcasecmp\<close> as equality tests,
  \<open>strstr\<close>, \<open>strchr\<close>, \<open>strrchr\<close>, bounded copies and bounded printing, \<open>isspace\<close>,
  \<open>strtol\<close> in base 10 and the decimal printing of \<open>%d\<close>.  Everything is executable.
\<close>

named_theorems cstrings "rewrite rules for C strings"

subsection \<open>NUL-terminated strings\<close>

abbreviation NUL :: char where "NUL \<equiv> CHR 0x00"
abbreviation CR :: char where "CR \<equiv> CHR 0x0D"
abbreviation LF :: char where "LF \<equiv> CHR 0x0A"
abbreviation CRLF :: string where "CRLF \<equiv> [CR, LF]"

text \<open>The C string held by a buffer: its bytes up to the first NUL.\<close>

definition cstr :: "string \<Rightarrow> string" where
  "cstr b = takeWhile (\<lambda>c. c \<noteq> NUL) b"

lemma cstr_id [cstrings]: "NUL \<notin> set s \<Longrightarrow> cstr s = s"
  unfolding cstr_def by (rule takeWhile_eq_all_conv [THEN iffD2]) auto

lemma NUL_notin_cstr [cstrings, simp]: "NUL \<notin> set (cstr s)"
  unfolding cstr_def by (auto dest: set_takeWhileD)

lemma length_cstr_le: "length (cstr s) \<le> length s"
  unfolding cstr_def by (rule length_takeWhile_le)

lemma set_cstr_subset: "set (cstr s) \<subseteq> set s"
  unfolding cstr_def by (auto dest: set_takeWhileD)

lemma cstr_append_NUL [cstrings]: "NUL \<notin> set s \<Longrightarrow> cstr (s @ NUL # t) = s"
  unfolding cstr_def by (subst takeWhile_append2) auto

subsection \<open>Case folding and comparison\<close>

text \<open>\<open>tolower\<close> in the C locale.\<close>

definition c_tolower :: "char \<Rightarrow> char" where
  "c_tolower c =
     (let n = of_char c :: nat in if 65 \<le> n \<and> n \<le> 90 then char_of (n + 32) else c)"

definition lower :: "string \<Rightarrow> string" where
  "lower s = map c_tolower s"

definition strcasecmp_eq :: "string \<Rightarrow> string \<Rightarrow> bool" where
  "strcasecmp_eq a b \<longleftrightarrow> lower (cstr a) = lower (cstr b)"

definition strcmp_eq :: "string \<Rightarrow> string \<Rightarrow> bool" where
  "strcmp_eq a b \<longleftrightarrow> cstr a = cstr b"

lemma length_lower [cstrings, simp]: "length (lower s) = length s"
  by (simp add: lower_def)

lemma lower_Nil [cstrings, simp]: "lower [] = []"
  by (simp add: lower_def)

lemma strcasecmp_eq_refl [simp]: "strcasecmp_eq a a"
  by (simp add: strcasecmp_eq_def)

lemma strcasecmp_eq_sym: "strcasecmp_eq a b \<Longrightarrow> strcasecmp_eq b a"
  by (simp add: strcasecmp_eq_def)

lemma strcasecmp_eq_trans: "strcasecmp_eq a b \<Longrightarrow> strcasecmp_eq b c \<Longrightarrow> strcasecmp_eq a c"
  by (simp add: strcasecmp_eq_def)

lemma strcmp_imp_strcasecmp: "strcmp_eq a b \<Longrightarrow> strcasecmp_eq a b"
  by (simp add: strcasecmp_eq_def strcmp_eq_def)

subsection \<open>Searching\<close>

fun is_prefix :: "'a list \<Rightarrow> 'a list \<Rightarrow> bool" where
  "is_prefix [] ys = True"
| "is_prefix (x # xs) [] = False"
| "is_prefix (x # xs) (y # ys) = (x = y \<and> is_prefix xs ys)"

text \<open>
  The index of the first occurrence of a needle, as \<open>strstr\<close> finds it: \<open>None\<close> is the null
  pointer.  The haystack is taken as a C string by the callers.
\<close>

fun find_sub :: "'a list \<Rightarrow> 'a list \<Rightarrow> nat option" where
  "find_sub needle [] = (if needle = [] then Some 0 else None)"
| "find_sub needle (y # ys) =
     (if is_prefix needle (y # ys) then Some 0 else map_option Suc (find_sub needle ys))"

definition strstr :: "string \<Rightarrow> string \<Rightarrow> nat option" where
  "strstr hay needle = find_sub (cstr needle) (cstr hay)"

text \<open>\<open>strchr\<close> and \<open>strrchr\<close> for a non-NUL character, as the suffix the pointer denotes.\<close>

definition strchr :: "string \<Rightarrow> char \<Rightarrow> string option" where
  "strchr s c = (case dropWhile (\<lambda>x. x \<noteq> c) (cstr s) of [] \<Rightarrow> None | t \<Rightarrow> Some t)"

definition strrchr :: "string \<Rightarrow> char \<Rightarrow> string option" where
  "strrchr s c =
     (if c \<in> set (cstr s)
      then Some (c # rev (takeWhile (\<lambda>x. x \<noteq> c) (rev (cstr s)))) else None)"

lemma is_prefix_iff: "is_prefix xs ys \<longleftrightarrow> (\<exists>zs. ys = xs @ zs)"
  by (induction xs ys rule: is_prefix.induct) auto

lemma find_sub_Some_iff:
  "find_sub nd hay = Some i \<longleftrightarrow>
     i \<le> length hay \<and> is_prefix nd (drop i hay) \<and> (\<forall>j < i. \<not> is_prefix nd (drop j hay))"
proof (induction hay arbitrary: i)
  case Nil
  then show ?case by (cases nd) auto
next
  case (Cons y ys)
  show ?case
  proof (cases "is_prefix nd (y # ys)")
    case True
    then show ?thesis by (cases i) fastforce+
  next
    case False
    then show ?thesis
      using Cons by (cases i) (auto simp: less_Suc_eq_0_disj)
  qed
qed

lemma find_sub_None_iff: "find_sub nd hay = None \<longleftrightarrow> (\<forall>i \<le> length hay. \<not> is_prefix nd (drop i hay))"
proof (induction hay)
  case Nil
  then show ?case by (cases nd) auto
next
  case (Cons y ys)
  have "(\<forall>i \<le> Suc (length ys). \<not> is_prefix nd (drop i (y # ys))) \<longleftrightarrow>
        \<not> is_prefix nd (y # ys) \<and> (\<forall>i \<le> length ys. \<not> is_prefix nd (drop i ys))"
    by (metis (no_types, lifting) Suc_le_mono drop0 drop_Suc_Cons le_SucE le_zero_eq
        not_less_eq_eq old.nat.exhaust zero_le)
  with Cons show ?case by simp
qed

lemma find_sub_None_append: "find_sub nd hay = None \<longleftrightarrow> (\<nexists>a b. hay = a @ nd @ b)"
proof
  assume none: "find_sub nd hay = None"
  show "\<nexists>a b. hay = a @ nd @ b"
  proof
    assume "\<exists>a b. hay = a @ nd @ b"
    then obtain a b where h: "hay = a @ nd @ b" by blast
    then have "is_prefix nd (drop (length a) hay)" by (simp add: is_prefix_iff)
    moreover have "length a \<le> length hay" by (simp add: h)
    ultimately show False using none by (auto simp: find_sub_None_iff)
  qed
next
  assume "\<nexists>a b. hay = a @ nd @ b"
  then show "find_sub nd hay = None"
    unfolding find_sub_None_iff is_prefix_iff by (metis append_take_drop_id)
qed

subsection \<open>Character classes and trimming\<close>

definition isspace :: "char \<Rightarrow> bool" where
  "isspace c \<longleftrightarrow> c \<in> {CHR '' '', CHR 0x09, CHR 0x0A, CHR 0x0B, CHR 0x0C, CHR 0x0D}"

definition is_digit :: "char \<Rightarrow> bool" where
  "is_digit c \<longleftrightarrow> (48 :: nat) \<le> of_char c \<and> of_char c \<le> (57 :: nat)"

definition digit_val :: "char \<Rightarrow> nat" where
  "digit_val c = of_char c - 48"

subsection \<open>Bounded copies\<close>

text \<open>
  \<open>strncpy dst src n\<close> fills exactly \<open>n\<close> cells: at most \<open>n\<close> bytes of the source string, then
  NULs.  The string the destination holds is \<open>cstr\<close> of this; when the source has \<open>n\<close> bytes or
  more, no NUL is written.
\<close>

definition strncpy :: "string \<Rightarrow> nat \<Rightarrow> string" where
  "strncpy src n = take n (cstr src) @ replicate (n - length (cstr src)) NUL"

lemma length_strncpy [simp]: "length (strncpy src n) = n"
  by (auto simp: strncpy_def)

lemma cstr_strncpy [cstrings]:
  assumes "length (cstr src) < n"
  shows "cstr (strncpy src n) = cstr src"
proof -
  obtain k where "n - length (cstr src) = Suc k"
    using assms by (metis Suc_diff_Suc)
  then show ?thesis
    using assms by (simp add: strncpy_def cstr_append_NUL)
qed

text \<open>
  \<open>snprintf buf n fmt\<close>: the buffer receives the first \<open>n - 1\<close> bytes of the formatted text and a
  NUL (nothing when \<open>n = 0\<close>); the value returned is the length of the whole formatted text.
\<close>

definition snprintf_buf :: "nat \<Rightarrow> string \<Rightarrow> string" where
  "snprintf_buf n txt = take (n - 1) txt"

definition snprintf_ret :: "string \<Rightarrow> nat" where
  "snprintf_ret txt = length txt"

subsection \<open>Decimal numbers\<close>

definition digit_char :: "nat \<Rightarrow> char" where
  "digit_char d = char_of (48 + d)"

fun show_nat :: "nat \<Rightarrow> string" where
  "show_nat n = (if n < 10 then [digit_char n] else show_nat (n div 10) @ [digit_char (n mod 10)])"

declare show_nat.simps [simp del]

definition show_int :: "int \<Rightarrow> string" where
  "show_int i = (if i < 0 then CHR ''-'' # show_nat (nat (- i)) else show_nat (nat i))"

fun read_digits :: "nat \<Rightarrow> string \<Rightarrow> nat \<times> string" where
  "read_digits acc [] = (acc, [])"
| "read_digits acc (c # cs) =
     (if is_digit c then read_digits (10 * acc + digit_val c) cs else (acc, c # cs))"

text \<open>
  \<open>strtol s &end 10\<close> on a 64-bit \<open>long\<close>: leading white space, an optional sign, digits.  The
  result is (value, range error, rest); with no digit the rest is the whole input and the value 0.
\<close>

definition strtol10 :: "string \<Rightarrow> int \<times> bool \<times> string" where
  "strtol10 s0 =
     (let s = cstr s0;
          t = dropWhile isspace s;
          neg = (case t of c # _ \<Rightarrow> c = CHR ''-'' | [] \<Rightarrow> False);
          u = (case t of c # r \<Rightarrow> if c = CHR ''-'' \<or> c = CHR ''+'' then r else t | [] \<Rightarrow> t)
      in if u = [] \<or> \<not> is_digit (hd u) then (0, False, s)
         else let (n, rest) = read_digits 0 u;
                  v = (if neg then - int n else int n)
              in if v > 2 ^ 63 - 1 then (2 ^ 63 - 1, True, rest)
                 else if v < - (2 ^ 63) then (- (2 ^ 63), True, rest)
                 else (v, False, rest))"

lemma of_digit_char: "n < 10 \<Longrightarrow> (of_char (digit_char n) :: nat) = 48 + n"
  by (simp add: digit_char_def of_char_of)

lemma is_digit_digit_char [simp]: "n < 10 \<Longrightarrow> is_digit (digit_char n)"
  by (simp add: is_digit_def of_digit_char)

lemma digit_val_digit_char [simp]: "n < 10 \<Longrightarrow> digit_val (digit_char n) = n"
  by (simp add: digit_val_def of_digit_char)

lemma show_nat_nonempty: "show_nat n \<noteq> []"
  by (subst show_nat.simps) simp

lemma show_nat_digits: "c \<in> set (show_nat n) \<Longrightarrow> is_digit c"
proof (induction n rule: show_nat.induct)
  case (1 n)
  then show ?case
    by (cases "n < 10") (auto simp: show_nat.simps [of n])
qed

lemma NUL_notin_show_nat [simp]: "NUL \<notin> set (show_nat n)"
  by (auto dest!: show_nat_digits simp: is_digit_def)

lemma read_digits_show_nat_gen:
  "read_digits a (show_nat n @ rest) = read_digits (a * 10 ^ length (show_nat n) + n) rest"
proof (induction n arbitrary: a rest rule: show_nat.induct)
  case (1 n)
  show ?case
  proof (cases "n < 10")
    case True
    then show ?thesis by (simp add: show_nat.simps [of n] algebra_simps)
  next
    case False
    have "10 * (n div 10) + n mod 10 = n" by simp
    with False show ?thesis
      using "1" [OF False, of a "digit_char (n mod 10) # rest"]
      by (simp add: show_nat.simps [of n] algebra_simps)
  qed
qed

lemma show_nat_length: "0 < k \<Longrightarrow> n < 10 ^ k \<Longrightarrow> length (show_nat n) \<le> k"
proof (induction n arbitrary: k rule: show_nat.induct)
  case (1 n)
  show ?case
  proof (cases "n < 10")
    case True
    then show ?thesis using "1.prems" by (simp add: show_nat.simps [of n])
  next
    case False
    with "1.prems" obtain j where k: "k = Suc j" "0 < j"
      by (cases k; cases "k = 1") auto
    then have "n div 10 < 10 ^ j"
      using "1.prems" by (simp add: less_mult_imp_div_less)
    with "1.IH" [OF False] k have "length (show_nat (n div 10)) \<le> j" by blast
    with False k show ?thesis by (simp add: show_nat.simps [of n])
  qed
qed

lemma strtol10_show_nat:
  assumes "n \<le> 2 ^ 63 - 1"
  shows "strtol10 (show_nat n) = (int n, False, [])"
proof -
  obtain c cs where cs: "show_nat n = c # cs"
    using show_nat_nonempty by (metis list.exhaust)
  then have d: "is_digit c" using show_nat_digits [of c n] by simp
  then have c: "\<not> isspace c" "c \<noteq> CHR ''-''" "c \<noteq> CHR ''+''"
    by (auto simp: isspace_def is_digit_def)
  have rd: "read_digits 0 (c # cs) = (n, [])"
    using read_digits_show_nat_gen [of 0 n "[]"] by (simp add: cs)
  have "cstr (show_nat n) = c # cs" by (simp add: cs [symmetric] cstr_id)
  moreover have "int n \<le> 2 ^ 63 - 1"
  proof -
    have "int n \<le> int (2 ^ 63 - 1)" using assms by (rule zle_int [THEN iffD2])
    then show ?thesis by simp
  qed
  ultimately show ?thesis
    using c d rd by (simp add: strtol10_def Let_def del: read_digits.simps)
qed

end
