(* ===== verification/Types.thy ===== *)
theory Types
  imports CLib
begin

text \<open>
  The shared data model (\<open>src/types.h\<close>): the status-code, protocol, log-level, parser-step and
  request-kind enumerations with their integer values, and the records for connections, parsed
  requests, responses and the per-request context, with the value \<open>calloc\<close> gives the context.
\<close>

subsection \<open>Enumerations\<close>

datatype (plugins only: code) http_status_code_t =
    SC_100_CONTINUE
  | SC_101_SWITCHING_PROTOCOLS
  | SC_102_PROCESSING
  | SC_103_EARLY_HINTS
  | SC_200_OK
  | SC_201_CREATED
  | SC_202_ACCEPTED
  | SC_203_NON_AUTHORITATIVE_INFORMATION
  | SC_204_NO_CONTENT
  | SC_205_RESET_CONTENT
  | SC_206_PARTIAL_CONTENT
  | SC_207_MULTI_STATUS
  | SC_208_ALREADY_REPORTED
  | SC_226_IM_USED
  | SC_300_MULTIPLE_CHOICES
  | SC_301_MOVED_PERMANENTLY
  | SC_302_FOUND
  | SC_303_SEE_OTHER
  | SC_304_NOT_MODIFIED
  | SC_305_USE_PROXY
  | SC_306_UNUSED
  | SC_307_TEMPORARY_REDIRECT
  | SC_308_PERMANENT_REDIRECT
  | SC_400_BAD_REQUEST
  | SC_401_UNAUTHORIZED
  | SC_402_PAYMENT_REQUIRED
  | SC_403_FORBIDDEN
  | SC_404_NOT_FOUND
  | SC_405_METHOD_NOT_ALLOWED
  | SC_406_NOT_ACCEPTABLE
  | SC_407_PROXY_AUTHENTICATION_REQUIRED
  | SC_408_REQUEST_TIMEOUT
  | SC_409_CONFLICT
  | SC_410_GONE
  | SC_411_LENGTH_REQUIRED
  | SC_412_PRECONDITION_FAILED
  | SC_413_CONTENT_TOO_LARGE
  | SC_414_URI_TOO_LONG
  | SC_415_UNSUPPORTED_MEDIA_TYPE
  | SC_416_RANGE_NOT_SATISFIABLE
  | SC_417_EXPECTATION_FAILED
  | SC_418_IM_A_TEAPOT
  | SC_421_MISDIRECTED_REQUEST
  | SC_422_UNPROCESSABLE_CONTENT
  | SC_423_LOCKED
  | SC_424_FAILED_DEPENDENCY
  | SC_425_TOO_EARLY
  | SC_426_UPGRADE_REQUIRED
  | SC_428_PRECONDITION_REQUIRED
  | SC_429_TOO_MANY_REQUESTS
  | SC_431_REQUEST_HEADER_FIELDS_TOO_LARGE
  | SC_451_UNAVAILABLE_FOR_LEGAL_REASONS
  | SC_500_INTERNAL_SERVER_ERROR
  | SC_501_NOT_IMPLEMENTED
  | SC_502_BAD_GATEWAY
  | SC_503_SERVICE_UNAVAILABLE
  | SC_504_GATEWAY_TIMEOUT
  | SC_505_HTTP_VERSION_NOT_SUPPORTED
  | SC_506_VARIANT_ALSO_NEGOTIATES
  | SC_507_INSUFFICIENT_STORAGE
  | SC_508_LOOP_DETECTED
  | SC_510_NOT_EXTENDED
  | SC_511_NETWORK_AUTHENTICATION_REQUIRED

primrec sc_code :: "http_status_code_t \<Rightarrow> int" where
  "sc_code SC_100_CONTINUE = 100"
| "sc_code SC_101_SWITCHING_PROTOCOLS = 101"
| "sc_code SC_102_PROCESSING = 102"
| "sc_code SC_103_EARLY_HINTS = 103"
| "sc_code SC_200_OK = 200"
| "sc_code SC_201_CREATED = 201"
| "sc_code SC_202_ACCEPTED = 202"
| "sc_code SC_203_NON_AUTHORITATIVE_INFORMATION = 203"
| "sc_code SC_204_NO_CONTENT = 204"
| "sc_code SC_205_RESET_CONTENT = 205"
| "sc_code SC_206_PARTIAL_CONTENT = 206"
| "sc_code SC_207_MULTI_STATUS = 207"
| "sc_code SC_208_ALREADY_REPORTED = 208"
| "sc_code SC_226_IM_USED = 226"
| "sc_code SC_300_MULTIPLE_CHOICES = 300"
| "sc_code SC_301_MOVED_PERMANENTLY = 301"
| "sc_code SC_302_FOUND = 302"
| "sc_code SC_303_SEE_OTHER = 303"
| "sc_code SC_304_NOT_MODIFIED = 304"
| "sc_code SC_305_USE_PROXY = 305"
| "sc_code SC_306_UNUSED = 306"
| "sc_code SC_307_TEMPORARY_REDIRECT = 307"
| "sc_code SC_308_PERMANENT_REDIRECT = 308"
| "sc_code SC_400_BAD_REQUEST = 400"
| "sc_code SC_401_UNAUTHORIZED = 401"
| "sc_code SC_402_PAYMENT_REQUIRED = 402"
| "sc_code SC_403_FORBIDDEN = 403"
| "sc_code SC_404_NOT_FOUND = 404"
| "sc_code SC_405_METHOD_NOT_ALLOWED = 405"
| "sc_code SC_406_NOT_ACCEPTABLE = 406"
| "sc_code SC_407_PROXY_AUTHENTICATION_REQUIRED = 407"
| "sc_code SC_408_REQUEST_TIMEOUT = 408"
| "sc_code SC_409_CONFLICT = 409"
| "sc_code SC_410_GONE = 410"
| "sc_code SC_411_LENGTH_REQUIRED = 411"
| "sc_code SC_412_PRECONDITION_FAILED = 412"
| "sc_code SC_413_CONTENT_TOO_LARGE = 413"
| "sc_code SC_414_URI_TOO_LONG = 414"
| "sc_code SC_415_UNSUPPORTED_MEDIA_TYPE = 415"
| "sc_code SC_416_RANGE_NOT_SATISFIABLE = 416"
| "sc_code SC_417_EXPECTATION_FAILED = 417"
| "sc_code SC_418_IM_A_TEAPOT = 418"
| "sc_code SC_421_MISDIRECTED_REQUEST = 421"
| "sc_code SC_422_UNPROCESSABLE_CONTENT = 422"
| "sc_code SC_423_LOCKED = 423"
| "sc_code SC_424_FAILED_DEPENDENCY = 424"
| "sc_code SC_425_TOO_EARLY = 425"
| "sc_code SC_426_UPGRADE_REQUIRED = 426"
| "sc_code SC_428_PRECONDITION_REQUIRED = 428"
| "sc_code SC_429_TOO_MANY_REQUESTS = 429"
| "sc_code SC_431_REQUEST_HEADER_FIELDS_TOO_LARGE = 431"
| "sc_code SC_451_UNAVAILABLE_FOR_LEGAL_REASONS = 451"
| "sc_code SC_500_INTERNAL_SERVER_ERROR = 500"
| "sc_code SC_501_NOT_IMPLEMENTED = 501"
| "sc_code SC_502_BAD_GATEWAY = 502"
| "sc_code SC_503_SERVICE_UNAVAILABLE = 503"
| "sc_code SC_504_GATEWAY_TIMEOUT = 504"
| "sc_code SC_505_HTTP_VERSION_NOT_SUPPORTED = 505"
| "sc_code SC_506_VARIANT_ALSO_NEGOTIATES = 506"
| "sc_code SC_507_INSUFFICIENT_STORAGE = 507"
| "sc_code SC_508_LOOP_DETECTED = 508"
| "sc_code SC_510_NOT_EXTENDED = 510"
| "sc_code SC_511_NETWORK_AUTHENTICATION_REQUIRED = 511"

datatype protocol_t = PROTO_UNKNOWN | PROTO_HTTP10 | PROTO_HTTP11 | PROTO_HTTP2

datatype log_level_t = L_DEBUG | L_INFO | L_WARN | L_ERROR | L_ACCESS

datatype log_target_t = LOG_TARGET_ACCESS | LOG_TARGET_EVENT

datatype parse_step_t =
    P_STATE_METHOD
  | P_STATE_URI
  | P_STATE_VERSION
  | P_STATE_HEADER_KEY
  | P_STATE_HEADER_VALUE
  | P_STATE_BODY
  | P_STATE_DONE

primrec parse_step_code :: "parse_step_t \<Rightarrow> nat" where
  "parse_step_code P_STATE_METHOD = 0"
| "parse_step_code P_STATE_URI = 1"
| "parse_step_code P_STATE_VERSION = 2"
| "parse_step_code P_STATE_HEADER_KEY = 3"
| "parse_step_code P_STATE_HEADER_VALUE = 4"
| "parse_step_code P_STATE_BODY = 5"
| "parse_step_code P_STATE_DONE = 6"

lemma parse_step_code_inj: "parse_step_code a = parse_step_code b \<Longrightarrow> a = b"
  by (cases a; cases b) simp_all

text \<open>A C enumeration is ordered by its integer values.\<close>

instantiation parse_step_t :: linorder
begin

definition less_eq_parse_step_t :: "parse_step_t \<Rightarrow> parse_step_t \<Rightarrow> bool" where
  "less_eq_parse_step_t a b \<longleftrightarrow> parse_step_code a \<le> parse_step_code b"

definition less_parse_step_t :: "parse_step_t \<Rightarrow> parse_step_t \<Rightarrow> bool" where
  "less_parse_step_t a b \<longleftrightarrow> parse_step_code a < parse_step_code b"

instance
  by standard
    (auto simp: less_eq_parse_step_t_def less_parse_step_t_def dest: parse_step_code_inj)

end

text \<open>Request kinds are bit flags; \<open>None\<close> in the context is the zero that \<open>calloc\<close> leaves.\<close>

datatype http_method_t =
    M_GET | M_HEAD | M_POST | M_PUT | M_DELETE | M_CONNECT | M_OPTIONS | M_TRACE | M_INVALID

primrec method_bits :: "http_method_t \<Rightarrow> u32" where
  "method_bits M_GET = push_bit 0 1"
| "method_bits M_HEAD = push_bit 1 1"
| "method_bits M_POST = push_bit 2 1"
| "method_bits M_PUT = push_bit 3 1"
| "method_bits M_DELETE = push_bit 4 1"
| "method_bits M_CONNECT = push_bit 5 1"
| "method_bits M_OPTIONS = push_bit 6 1"
| "method_bits M_TRACE = push_bit 7 1"
| "method_bits M_INVALID = push_bit 8 1"

subsection \<open>Connections\<close>

text \<open>\<open>SSL *\<close> belongs to OpenSSL: a handle number, \<open>None\<close> for the null pointer.\<close>

record conn_t =
  conn_fd :: int
  conn_is_tls :: bool
  conn_remote_ip :: string
  conn_remote_port :: u16
  conn_ssl :: "nat option"
  conn_protocol :: protocol_t
  conn_keepalive_deadline :: int

definition zero_conn :: conn_t where
  "zero_conn = \<lparr>conn_fd = 0, conn_is_tls = False, conn_remote_ip = [], conn_remote_port = 0,
     conn_ssl = None, conn_protocol = PROTO_UNKNOWN, conn_keepalive_deadline = 0\<rparr>"

subsection \<open>Effects on the outside\<close>

text \<open>The calls an operation makes on descriptors and TLS handles, in order.\<close>

datatype sys_effect =
    Sys_socket int
  | Sys_reuseaddr int
  | Sys_v6only_off int
  | Sys_bind int
  | Sys_listen int
  | Sys_close int
  | Sys_rcvtimeo int int
  | Sys_ssl_shutdown nat
  | Sys_ssl_free nat
  | Sys_epoll_del int

subsection \<open>Requests\<close>

text \<open>\<open>char key[128]; char value[4096];\<close> zero-padded byte buffers.\<close>

record kv_t =
  kv_key :: string
  kv_value :: string

definition zero_kv :: kv_t where
  "zero_kv = \<lparr>kv_key = [], kv_value = []\<rparr>"

definition KEY_SIZE :: nat where "KEY_SIZE = 128"
definition VALUE_SIZE :: nat where "VALUE_SIZE = 4096"
definition METHOD_SIZE :: nat where "METHOD_SIZE = 16"
definition URI_SIZE :: nat where "URI_SIZE = 4096"
definition VERSION_SIZE :: nat where "VERSION_SIZE = 16"
definition MAX_REQ_HEADERS :: nat where "MAX_REQ_HEADERS = 128"
definition MAX_RESP_HEADERS :: nat where "MAX_RESP_HEADERS = 64"
definition HEADER_BUFFER_SIZE :: nat where "HEADER_BUFFER_SIZE = 8192"
definition LOG_LINE_MAX :: nat where "LOG_LINE_MAX = 2048"

lemmas size_defs = KEY_SIZE_def VALUE_SIZE_def METHOD_SIZE_def URI_SIZE_def VERSION_SIZE_def
  MAX_REQ_HEADERS_def MAX_RESP_HEADERS_def HEADER_BUFFER_SIZE_def LOG_LINE_MAX_def

record http1_req_t =
  h1_method :: string
  h1_uri :: string
  h1_version :: string
  h1_headers :: "kv_t list"
  h1_header_count :: nat

definition zero_h1 :: http1_req_t where
  "zero_h1 = \<lparr>h1_method = [], h1_uri = [], h1_version = [], h1_headers = [], h1_header_count = 0\<rparr>"

subsection \<open>Responses\<close>

text \<open>The memory a response body points to: from \<open>malloc\<close> or from \<open>mmap\<close>.\<close>

datatype mem = Malloced string | Mapped string

fun mem_bytes :: "mem \<Rightarrow> string" where
  "mem_bytes (Malloced b) = b"
| "mem_bytes (Mapped b) = b"

record response_t =
  resp_headers :: "kv_t list"
  resp_header_count :: nat
  resp_header_buffer :: string
  resp_body_len :: nat
  resp_body_data :: "mem option"
  resp_is_mmap :: bool

definition zero_response :: response_t where
  "zero_response = \<lparr>resp_headers = [], resp_header_count = 0, resp_header_buffer = [],
     resp_body_len = 0, resp_body_data = None, resp_is_mmap = False\<rparr>"

subsection \<open>The request context\<close>

text \<open>The function pointer \<open>ctx->handler\<close>.\<close>

datatype handler_t = handle_error_ptr | handle_static_ptr

text \<open>
  \<open>ctx->conn\<close> points to the worker's connection variable, which is kept inside the context;
  \<open>ctx->log\<close> is the list of event-log messages emitted so far.
\<close>

record request_ctx_t =
  ctx_conn :: conn_t
  ctx_log :: "(log_level_t \<times> string) list"
  ctx_header_buffer :: string
  ctx_header_bytes_read :: nat
  ctx_body_overshoot_bytes :: nat
  ctx_body_overshoot_start :: "nat option"
  ctx_status_code :: int
  ctx_method :: "http_method_t option"
  ctx_start_time :: u64
  ctx_h1 :: http1_req_t
  ctx_response :: response_t
  ctx_handler :: "handler_t option"

definition zero_ctx :: "conn_t \<Rightarrow> u64 \<Rightarrow> request_ctx_t" where
  "zero_ctx c t = \<lparr>ctx_conn = c, ctx_log = [], ctx_header_buffer = [], ctx_header_bytes_read = 0,
     ctx_body_overshoot_bytes = 0, ctx_body_overshoot_start = None, ctx_status_code = 0,
     ctx_method = None, ctx_start_time = t, ctx_h1 = zero_h1, ctx_response = zero_response,
     ctx_handler = None\<rparr>"

lemmas zero_defs = zero_conn_def zero_kv_def zero_h1_def zero_response_def zero_ctx_def

definition emit :: "log_level_t \<Rightarrow> string \<Rightarrow> request_ctx_t \<Rightarrow> request_ctx_t" where
  "emit l m ctx = ctx\<lparr>ctx_log := ctx_log ctx @ [(l, m)]\<rparr>"

lemma emit_simps [simp]:
  "ctx_conn (emit l m ctx) = ctx_conn ctx"
  "ctx_status_code (emit l m ctx) = ctx_status_code ctx"
  "ctx_method (emit l m ctx) = ctx_method ctx"
  "ctx_h1 (emit l m ctx) = ctx_h1 ctx"
  "ctx_response (emit l m ctx) = ctx_response ctx"
  "ctx_handler (emit l m ctx) = ctx_handler ctx"
  "ctx_log (emit l m ctx) = ctx_log ctx @ [(l, m)]"
  by (simp_all add: emit_def)

end
