(* ===== verification/Socket.thy ===== *)
theory Socket
  imports Types
begin

text \<open>
  \<open>src/socket.c\<close>: the TLS handshake loop, the listener set-up, accepting a connection, sniffing the
  protocol and closing.  What the kernel and OpenSSL answer is an argument of each operation; the
  calls an operation makes are listed in order.
\<close>

subsection \<open>The TLS handshake\<close>

datatype poll_result = Poll_ready | Poll_timeout | Poll_eintr | Poll_error

text \<open>One answer of \<open>SSL_accept\<close>, with the answer of the \<open>poll\<close> that follows a want.\<close>

datatype tls_answer = TLS_done | TLS_want_read poll_result | TLS_want_write poll_result | TLS_fatal

datatype poll_events = POLLIN | POLLOUT

text \<open>
  \<open>perform_tls_handshake\<close> against a sequence of answers: its return value, or \<open>None\<close> when it is
  still in its loop after them; and the events it polled for.
\<close>

fun perform_tls_handshake :: "tls_answer list \<Rightarrow> int option \<times> poll_events list" where
  "perform_tls_handshake [] = (None, [])"
| "perform_tls_handshake (TLS_done # _) = (Some 0, [])"
| "perform_tls_handshake (TLS_fatal # _) = (Some (-1), [])"
| "perform_tls_handshake (TLS_want_read p # as) =
     (case p of
        Poll_timeout \<Rightarrow> (Some (-1), [POLLIN])
      | Poll_error \<Rightarrow> (Some (-1), [POLLIN])
      | _ \<Rightarrow> (let (r, es) = perform_tls_handshake as in (r, POLLIN # es)))"
| "perform_tls_handshake (TLS_want_write p # as) =
     (case p of
        Poll_timeout \<Rightarrow> (Some (-1), [POLLOUT])
      | Poll_error \<Rightarrow> (Some (-1), [POLLOUT])
      | _ \<Rightarrow> (let (r, es) = perform_tls_handshake as in (r, POLLOUT # es)))"

text \<open>An answer after which the loop goes round again.\<close>

fun tls_retry :: "tls_answer \<Rightarrow> bool" where
  "tls_retry (TLS_want_read p) = (p = Poll_ready \<or> p = Poll_eintr)"
| "tls_retry (TLS_want_write p) = (p = Poll_ready \<or> p = Poll_eintr)"
| "tls_retry _ = False"

lemma perform_tls_handshake_retry:
  "tls_retry a \<Longrightarrow> fst (perform_tls_handshake (a # as)) = fst (perform_tls_handshake as)"
  by (cases a) (auto split: poll_result.splits prod.splits)

lemma perform_tls_handshake_stop:
  "\<not> tls_retry a \<Longrightarrow> fst (perform_tls_handshake (a # as)) = Some (if a = TLS_done then 0 else -1)"
  by (cases a) (auto split: poll_result.splits)

subsection \<open>The listener\<close>

text \<open>One address \<open>getaddrinfo\<close> returned, with what \<open>socket\<close> and \<open>bind\<close> answer for it.\<close>

record addr_answer =
  aa_inet6 :: bool
  aa_socket :: int
  aa_bind_ok :: bool

text \<open>The loop over the addresses: the descriptor left in \<open>listen_fd\<close>.\<close>

fun bind_loop :: "int \<Rightarrow> addr_answer list \<Rightarrow> int \<times> sys_effect list" where
  "bind_loop listen_fd [] = (listen_fd, [])"
| "bind_loop listen_fd (a # as) =
     (let fd = aa_socket a in
      if fd < 0 then bind_loop fd as
      else let es = [Sys_socket fd, Sys_reuseaddr fd]
                    @ (if aa_inet6 a then [Sys_v6only_off fd] else []) @ [Sys_bind fd]
           in if aa_bind_ok a then (fd, es)
              else let (r, es') = bind_loop (-1) as in (r, es @ Sys_close fd # es'))"

definition create_listener ::
  "bool \<Rightarrow> addr_answer list \<Rightarrow> bool \<Rightarrow> int \<times> sys_effect list" where
  "create_listener getaddrinfo_ok addrs listen_ok =
     (if \<not> getaddrinfo_ok then (-1, [])
      else let (fd, es) = bind_loop (-1) addrs in
           if fd < 0 then (-1, es)
           else if \<not> listen_ok then (-1, es @ [Sys_listen fd, Sys_close fd])
           else (fd, es @ [Sys_listen fd]))"

text \<open>The descriptors a list of calls opens and closes.\<close>

definition opened :: "sys_effect list \<Rightarrow> int multiset" where
  "opened es = mset (List.map_filter (\<lambda>e. case e of Sys_socket fd \<Rightarrow> Some fd | _ \<Rightarrow> None) es)"

definition closed :: "sys_effect list \<Rightarrow> int multiset" where
  "closed es = mset (List.map_filter (\<lambda>e. case e of Sys_close fd \<Rightarrow> Some fd | _ \<Rightarrow> None) es)"

lemma opened_simps [simp]:
  "opened [] = {#}" "opened (es @ es') = opened es + opened es'"
  "opened (e # es) = (case e of Sys_socket fd \<Rightarrow> {#fd#} | _ \<Rightarrow> {#}) + opened es"
  by (auto simp: opened_def List.map_filter_def split: sys_effect.split)

lemma closed_simps [simp]:
  "closed [] = {#}" "closed (es @ es') = closed es + closed es'"
  "closed (e # es) = (case e of Sys_close fd \<Rightarrow> {#fd#} | _ \<Rightarrow> {#}) + closed es"
  by (auto simp: closed_def List.map_filter_def split: sys_effect.split)

lemma bind_loop_fds:
  "bind_loop lfd addrs = (r, es) \<Longrightarrow> lfd < 0 \<Longrightarrow>
     opened es = closed es + (if 0 \<le> r then {#r#} else {#})"
proof (induction addrs arbitrary: lfd r es)
  case Nil
  then show ?case by simp
next
  case (Cons a as)
  show ?case
  proof (cases "aa_socket a < 0 \<or> aa_bind_ok a")
    case True
    then show ?thesis using Cons by (auto simp: Let_def split: if_splits)
  next
    case False
    obtain r' es' where r: "bind_loop (-1) as = (r', es')" by (cases "bind_loop (-1) as")
    have "opened es' = closed es' + (if 0 \<le> r' then {#r'#} else {#})"
      using Cons.IH [OF r] by simp
    then show ?thesis using Cons.prems False r by (auto simp: Let_def)
  qed
qed

subsection \<open>Accepting a connection\<close>

text \<open>The peer address: IPv4 or IPv6 with its printed form and port, or another family.\<close>

datatype peer = Inet string u16 | Inet6 string u16 | Other_family

text \<open>
  \<open>accept_connection\<close>: the arguments are the shutdown flag, what \<open>accept\<close> returned, the peer,
  the listener's TLS flag, and what \<open>SSL_new\<close> and \<open>SSL_set_fd\<close> answer.  The result is the return
  value, the connection record and the messages logged.
\<close>

definition accept_connection ::
  "bool \<Rightarrow> int \<Rightarrow> peer \<Rightarrow> bool \<Rightarrow> nat option \<Rightarrow> bool \<Rightarrow> conn_t \<Rightarrow> int \<times> conn_t \<times> string list" where
  "accept_connection shutting_down fd peer is_tls ssl_new set_fd_ok conn =
     (if fd < 0 then
        (if shutting_down then (0, conn, []) else (fd, conn, [''accept() failed'']))
      else
        let c1 = conn\<lparr>conn_fd := fd, conn_is_tls := is_tls\<rparr>;
            c2 = (case peer of
                    Inet ip port \<Rightarrow> c1\<lparr>conn_remote_ip := ip, conn_remote_port := port\<rparr>
                  | Inet6 ip port \<Rightarrow> c1\<lparr>conn_remote_ip := ip, conn_remote_port := port\<rparr>
                  | Other_family \<Rightarrow> c1)
        in if is_tls then
             (let c3 = c2\<lparr>conn_ssl := ssl_new\<rparr> in
              if ssl_new = None then (-1, c3, [''SSL_new() failed''])
              else if \<not> set_fd_ok then (-1, c3, [''SSL_set_fd() failed''])
              else (0, c3\<lparr>conn_protocol := PROTO_UNKNOWN\<rparr>, []))
           else (0, c2\<lparr>conn_ssl := None, conn_protocol := PROTO_UNKNOWN\<rparr>, []))"

subsection \<open>Sniffing the protocol\<close>

definition http2_preface :: string where
  "http2_preface = ''PRI * HTTP/2.0'' @ CRLF @ CRLF @ ''SM'' @ CRLF @ CRLF"

text \<open>
  \<open>demux_protocol\<close>: \<open>n\<close> and \<open>rcvd\<close> are what \<open>recv(\<dots>, 24, MSG_PEEK)\<close> returned and stored;
  \<open>junk\<close> is what the uninitialised stack buffer held before, which the comparison of 24 bytes reads
  when fewer were received.
\<close>

definition demux_protocol :: "int \<Rightarrow> string \<Rightarrow> string \<Rightarrow> conn_t \<Rightarrow> conn_t" where
  "demux_protocol n rcvd junk conn =
     (if n = 0 then conn\<lparr>conn_protocol := PROTO_HTTP11\<rparr>
      else if n < 0 then conn\<lparr>conn_protocol := PROTO_UNKNOWN\<rparr>
      else if take 24 (take (nat n) rcvd @ drop (nat n) junk) = http2_preface
      then conn\<lparr>conn_protocol := PROTO_HTTP2\<rparr>
      else conn\<lparr>conn_protocol := PROTO_HTTP11\<rparr>)"

subsection \<open>Timeouts and closing\<close>

definition set_socket_timeout :: "int \<Rightarrow> int \<Rightarrow> sys_effect list" where
  "set_socket_timeout fd seconds = [Sys_rcvtimeo fd seconds]"

text \<open>The descriptor is closed first, the TLS session is shut down on it afterwards.\<close>

definition close_connection :: "conn_t \<Rightarrow> sys_effect list" where
  "close_connection conn =
     Sys_close (conn_fd conn)
     # (case conn_ssl conn of None \<Rightarrow> [] | Some h \<Rightarrow> [Sys_ssl_shutdown h, Sys_ssl_free h])"

lemma close_connection_closed [simp]: "closed (close_connection c) = {#conn_fd c#}"
  by (simp add: close_connection_def split: option.split)

subsection \<open>Properties\<close>

text \<open>
  Whatever the resolver, \<open>socket\<close>, \<open>bind\<close> and \<open>listen\<close> answer, every
  descriptor \<open>create_listener\<close> opens is either closed again or the one it returns; and it returns
  either -1 or a descriptor that \<open>socket\<close> gave it.
\<close>

theorem create_listener_no_leak:
  "case create_listener gai_ok addrs listen_ok of (r, es) \<Rightarrow>
     opened es = closed es + (if r = -1 then {#} else {#r#})
     \<and> (r = -1 \<or> (0 \<le> r \<and> r \<in># opened es))"
proof (cases gai_ok)
  case False
  then show ?thesis by (simp add: create_listener_def)
next
  case True
  obtain r es where b: "bind_loop (-1) addrs = (r, es)" by (cases "bind_loop (-1) addrs")
  have "opened es = closed es + (if 0 \<le> r then {#r#} else {#})"
    using bind_loop_fds [OF b] by simp
  then show ?thesis using True b by (auto simp: create_listener_def)
qed

text \<open>
  A first read of at least 24 bytes is classified by its bytes alone: HTTP/2
  exactly when they start with the connection preface.  After a shorter read that is a beginning of
  the preface, the outcome depends on what the uninitialised buffer held.
\<close>

theorem demux_protocol_cases:
  "(24 \<le> length rcvd \<longrightarrow>
      conn_protocol (demux_protocol 24 rcvd junk conn)
        = (if take 24 rcvd = http2_preface then PROTO_HTTP2 else PROTO_HTTP11))
   \<and> (0 < k \<and> k < 24 \<longrightarrow> (\<exists>junk1 junk2.
      conn_protocol (demux_protocol (int k) (take k http2_preface) junk1 conn) = PROTO_HTTP2
      \<and> conn_protocol (demux_protocol (int k) (take k http2_preface) junk2 conn) = PROTO_HTTP11))"
proof -
  have len: "length http2_preface = 24" by (simp add: http2_preface_def)
  have "\<exists>junk1 junk2.
      conn_protocol (demux_protocol (int k) (take k http2_preface) junk1 conn) = PROTO_HTTP2
      \<and> conn_protocol (demux_protocol (int k) (take k http2_preface) junk2 conn) = PROTO_HTTP11"
    if k: "0 < k" "k < 24"
  proof (intro exI conjI)
    show "conn_protocol (demux_protocol (int k) (take k http2_preface) http2_preface conn) = PROTO_HTTP2"
      using k by (simp add: demux_protocol_def len)
    have "take 24 (take k http2_preface) \<noteq> http2_preface"
      using k len by (metis length_take min_less_iff_conj nat_neq_iff)
    then show "conn_protocol (demux_protocol (int k) (take k http2_preface) [] conn) = PROTO_HTTP11"
      using k by (simp add: demux_protocol_def)
  qed
  then show ?thesis by (simp add: demux_protocol_def)
qed

theorem demux_protocol_cases_witness:
  "conn_protocol (demux_protocol 24 http2_preface [] zero_conn) = PROTO_HTTP2
   \<and> (\<exists>j. conn_protocol (demux_protocol 1 ''P'' j zero_conn) = PROTO_HTTP2)"
proof -
  have "length http2_preface = 24" "take 24 http2_preface = http2_preface" "take 1 http2_preface = ''P''"
    by (simp_all add: http2_preface_def)
  then show ?thesis
    using demux_protocol_cases [of http2_preface "[]" zero_conn 1] by auto
qed

text \<open>
  The handshake loop returns as soon as an answer is not a retry: 0 when
  that answer is completion and -1 when it is a protocol error, a poll timeout or a poll failure;
  it keeps looping only while every answer is a want followed by readiness or an interrupted poll.
\<close>

theorem tls_handshake_result:
  "fst (perform_tls_handshake as) =
     (case dropWhile tls_retry as of [] \<Rightarrow> None | a # _ \<Rightarrow> Some (if a = TLS_done then 0 else -1))"
proof (induction as)
  case Nil
  then show ?case by simp
next
  case (Cons a as)
  then show ?case
    by (cases "tls_retry a") (simp_all add: perform_tls_handshake_retry perform_tls_handshake_stop)
qed

end
