(* ===== verification/ConnStore.thy ===== *)
theory ConnStore
  imports Types
begin

text \<open>
  The interface the wait room needs from its table of parked connections: a bounded collection with
  insertion, removal by descriptor and removal of everything past its deadline.  The abstraction is
  the multiset of stored connections.  The client lemma follows the connections through any run.
\<close>

datatype store_op = Add conn_t | Remove int | Sweep int

datatype store_event = Added conn_t | Rejected conn_t | Removed conn_t | Missing int
  | Swept "conn_t list"

text \<open>Connections that entered and connections that left, over a run.\<close>

fun entered :: "store_event list \<Rightarrow> conn_t multiset" where
  "entered [] = {#}"
| "entered (Added c # es) = add_mset c (entered es)"
| "entered (_ # es) = entered es"

fun left :: "store_event list \<Rightarrow> conn_t multiset" where
  "left [] = {#}"
| "left (Removed c # es) = add_mset c (left es)"
| "left (Swept cs # es) = mset cs + left es"
| "left (_ # es) = left es"

text \<open>What one event may say about the collection before it.\<close>

definition event_ok :: "nat \<Rightarrow> conn_t multiset \<Rightarrow> store_op \<Rightarrow> store_event \<Rightarrow> bool" where
  "event_ok cap M p e =
     (case p of
        Add c \<Rightarrow> e = (if size M < cap then Added c else Rejected c)
      | Remove fd \<Rightarrow> (if \<exists>c \<in># M. conn_fd c = fd
                      then \<exists>c. e = Removed c \<and> c \<in># M \<and> conn_fd c = fd else e = Missing fd)
      | Sweep now \<Rightarrow> \<exists>cs. e = Swept cs \<and> mset cs = {#c \<in># M. conn_keepalive_deadline c \<le> now#})"

definition event_effect :: "conn_t multiset \<Rightarrow> store_event \<Rightarrow> conn_t multiset" where
  "event_effect M e = M + entered [e] - left [e]"

fun store_run :: "(store_op \<Rightarrow> 's \<Rightarrow> (store_event \<times> 's) result) \<Rightarrow> store_op list \<Rightarrow> 's
    \<Rightarrow> (store_event list \<times> 's) result" where
  "store_run step [] s = Inr ([], s)"
| "store_run step (p # ps) s =
     bindR (step p s) (\<lambda>(e, s'). bindR (store_run step ps s') (\<lambda>(es, s''). Inr (e # es, s'')))"

lemma entered_Cons: "entered (e # es) = entered [e] + entered es"
  by (cases e) auto

lemma left_Cons: "left (e # es) = left [e] + left es"
  by (cases e) auto

lemma event_ok_left: "event_ok cap M p e \<Longrightarrow> left [e] \<subseteq># M"
  by (auto simp: event_ok_def split: store_op.splits if_splits)

locale conn_store =
  fixes invar :: "'s \<Rightarrow> bool"
    and items :: "'s \<Rightarrow> conn_t multiset"
    and cap :: "'s \<Rightarrow> nat"
    and step :: "store_op \<Rightarrow> 's \<Rightarrow> (store_event \<times> 's) result"
  assumes step_ok: "invar s \<Longrightarrow> \<exists>e s'. step p s = Inr (e, s') \<and> invar s' \<and> cap s' = cap s
      \<and> event_ok (cap s) (items s) p e \<and> items s' = event_effect (items s) e"
    and items_cap: "invar s \<Longrightarrow> size (items s) \<le> cap s"
begin

text \<open>A run never faults; what entered is what left plus what is still there.\<close>

lemma run_conserves:
  assumes "invar s"
  shows "\<exists>es s'. store_run step ps s = Inr (es, s') \<and> invar s' \<and> cap s' = cap s
           \<and> items s + entered es = left es + items s' \<and> size (items s') \<le> cap s"
  using assms
proof (induction ps arbitrary: s)
  case Nil
  then show ?case by (simp add: items_cap)
next
  case (Cons p ps)
  obtain e s1 where s1: "step p s = Inr (e, s1)" "invar s1" "cap s1 = cap s"
      "event_ok (cap s) (items s) p e" "items s1 = event_effect (items s) e"
    using step_ok [OF Cons.prems] by blast
  obtain es s2 where s2: "store_run step ps s1 = Inr (es, s2)" "invar s2" "cap s2 = cap s1"
      "items s1 + entered es = left es + items s2" "size (items s2) \<le> cap s1"
    using Cons.IH [OF s1(2)] by blast
  have "left [e] \<subseteq># items s + entered [e]"
    using event_ok_left [OF s1(4)] by (simp add: subset_mset.add_increasing2)
  then have "items s + entered [e] = left [e] + items s1"
    by (simp add: s1(5) event_effect_def subset_mset.add_diff_inverse)
  then have "items s + entered [e] + entered es = left [e] + (left es + items s2)"
    using s2(4) by (simp add: add.assoc)
  then have "items s + entered (e # es) = left (e # es) + items s2"
    by (simp add: entered_Cons [of e es] left_Cons [of e es] add.assoc)
  with s1 s2 show ?case by simp
qed

end

end
