(* ===== verification/IoWatcher.thy ===== *)
theory IoWatcher
  imports Socket ConnStore
begin

text \<open>
  \<open>src/io_watcher.c\<close>: the table of keep-alive connections the wait-room thread watches
  (\<open>conn_pool_t\<close>), and the registration of descriptors with the kernel's poller (\<open>epoll\<close>
  branch).  The current time and the kernel's answers are arguments.
\<close>

subsection \<open>The connection pool\<close>

text \<open>\<open>malloc\<close> leaves the cells unwritten (\<open>None\<close>).\<close>

record conn_pool_t =
  pool_items :: "conn_t option list"
  pool_count :: nat
  pool_capacity :: nat

definition pool_init :: "bool \<Rightarrow> nat \<Rightarrow> conn_pool_t \<Rightarrow> int \<times> conn_pool_t" where
  "pool_init malloc_ok max_conns pool =
     (if \<not> malloc_ok then (-1, pool\<lparr>pool_items := []\<rparr>)
      else (0, \<lparr>pool_items = replicate max_conns None, pool_count = 0, pool_capacity = max_conns\<rparr>))"

definition pool_cell :: "conn_pool_t \<Rightarrow> nat \<Rightarrow> conn_t result" where
  "pool_cell pool i =
     (if i < length (pool_items pool)
      then (case pool_items pool ! i of None \<Rightarrow> Inl Uninitialised | Some c \<Rightarrow> Inr c)
      else Inl OutOfBounds)"

definition pool_add :: "conn_pool_t \<Rightarrow> conn_t \<Rightarrow> (int \<times> conn_pool_t) result" where
  "pool_add pool c =
     (if pool_capacity pool \<le> pool_count pool then Inr (-1, pool)
      else if pool_count pool < length (pool_items pool)
      then Inr (0, pool\<lparr>pool_items := (pool_items pool)[pool_count pool := Some c],
                        pool_count := pool_count pool + 1\<rparr>)
      else Inl OutOfBounds)"

text \<open>Overwrite cell \<open>i\<close> with the last used cell and shrink: three functions end this way.\<close>

definition overwrite_with_last :: "conn_pool_t \<Rightarrow> nat \<Rightarrow> conn_pool_t result" where
  "overwrite_with_last pool i =
     (if pool_count pool = 0 \<or> length (pool_items pool) < pool_count pool
         \<or> length (pool_items pool) \<le> i then Inl OutOfBounds
      else Inr (pool\<lparr>pool_items := (pool_items pool)[i := pool_items pool ! (pool_count pool - 1)],
                     pool_count := pool_count pool - 1\<rparr>))"

definition pool_remove_at :: "conn_pool_t \<Rightarrow> nat \<Rightarrow> conn_pool_t result" where
  "pool_remove_at pool i =
     (if pool_count pool \<le> i then Inr pool else overwrite_with_last pool i)"

text \<open>\<open>pool_remove_by_fd\<close>: the loop from index \<open>i\<close>; the last component is \<open>*out_conn\<close>.\<close>

function remove_by_fd_from ::
  "conn_pool_t \<Rightarrow> int \<Rightarrow> nat \<Rightarrow> (int \<times> conn_t option \<times> conn_pool_t) result" where
  "remove_by_fd_from pool fd i =
     (if i < pool_count pool then
        bindR (pool_cell pool i) (\<lambda>c.
          if conn_fd c = fd
          then bindR (overwrite_with_last pool i) (\<lambda>pool'. Inr (1, Some c, pool'))
          else remove_by_fd_from pool fd (Suc i))
      else Inr (0, None, pool))"
  by pat_completeness auto
termination
  by (relation "measure (\<lambda>(pool, fd, i). pool_count pool - i)") auto

declare remove_by_fd_from.simps [simp del]

definition pool_remove_by_fd ::
  "conn_pool_t \<Rightarrow> int \<Rightarrow> (int \<times> conn_t option \<times> conn_pool_t) result" where
  "pool_remove_by_fd pool fd = remove_by_fd_from pool fd 0"

text \<open>\<open>pool_nearest_timeout_ms\<close>: the minimum over the used cells, then the \<open>int\<close> arithmetic.\<close>

function min_expiry_from :: "conn_pool_t \<Rightarrow> int \<Rightarrow> nat \<Rightarrow> int result" where
  "min_expiry_from pool m i =
     (if i < pool_count pool then
        bindR (pool_cell pool i) (\<lambda>c.
          min_expiry_from pool (if conn_keepalive_deadline c < m then conn_keepalive_deadline c else m)
            (Suc i))
      else Inr m)"
  by pat_completeness auto
termination
  by (relation "measure (\<lambda>(pool, m, i). pool_count pool - i)") auto

declare min_expiry_from.simps [simp del]

definition pool_nearest_timeout_ms :: "conn_pool_t \<Rightarrow> int \<Rightarrow> int result" where
  "pool_nearest_timeout_ms pool now =
     (if pool_count pool = 0 then Inr (-1)
      else bindR (pool_cell pool 0) (\<lambda>c0.
           bindR (min_expiry_from pool (conn_keepalive_deadline c0) 1) (\<lambda>m.
           let diff = to_int32 (m - now) in
           if diff \<le> 0 then Inr 0 else int_mul diff 1000)))"

text \<open>
  \<open>pool_sweep_expired\<close>: the loop from index \<open>i\<close>, which does not advance after a removal; the list
  is the connections closed, in order, each after its removal from the poller.
\<close>

function sweep_from ::
  "int \<Rightarrow> conn_pool_t \<Rightarrow> nat \<Rightarrow> (conn_t list \<times> conn_pool_t) result" where
  "sweep_from now pool i =
     (if i < pool_count pool then
        bindR (pool_cell pool i) (\<lambda>c.
          if conn_keepalive_deadline c \<le> now
          then bindR (overwrite_with_last pool i) (\<lambda>pool'.
               bindR (sweep_from now pool' i) (\<lambda>(cs, pool''). Inr (c # cs, pool'')))
          else sweep_from now pool (Suc i))
      else Inr ([], pool))"
  by pat_completeness auto
termination
  by (relation "measure (\<lambda>(now, pool, i). pool_count pool - i)")
    (auto simp: overwrite_with_last_def split: if_splits)

declare sweep_from.simps [simp del]

definition pool_sweep_expired :: "conn_pool_t \<Rightarrow> int \<Rightarrow> (conn_t list \<times> conn_pool_t) result" where
  "pool_sweep_expired pool now = sweep_from now pool 0"

text \<open>The calls the sweep makes for the connections it drops.\<close>

definition sweep_effects :: "conn_t list \<Rightarrow> sys_effect list" where
  "sweep_effects cs = concat (map (\<lambda>c. Sys_epoll_del (conn_fd c) # close_connection c) cs)"

subsection \<open>Registration with the poller\<close>

text \<open>
  The interest list of an \<open>epoll\<close> instance: for each registered descriptor its user data and
  whether it is armed (\<open>EPOLLONESHOT\<close> disarms it when it fires).
\<close>

type_synonym interest = "int \<Rightarrow> (int \<times> bool) option"

datatype epoll_errno = EEXIST | Other_errno

text \<open>\<open>EPOLL_CTL_ADD\<close> fails with \<open>EEXIST\<close> on a registered descriptor; \<open>kernel_ok\<close> stands for the
  other reasons to fail (a bad descriptor, no memory).\<close>

definition epoll_ctl_add :: "bool \<Rightarrow> interest \<Rightarrow> int \<Rightarrow> int \<Rightarrow> epoll_errno + interest" where
  "epoll_ctl_add kernel_ok w fd ud =
     (if \<not> kernel_ok then Inl Other_errno
      else if w fd \<noteq> None then Inl EEXIST else Inr (w(fd \<mapsto> (ud, True))))"

definition epoll_ctl_mod :: "bool \<Rightarrow> interest \<Rightarrow> int \<Rightarrow> int \<Rightarrow> epoll_errno + interest" where
  "epoll_ctl_mod kernel_ok w fd ud =
     (if \<not> kernel_ok \<or> w fd = None then Inl Other_errno else Inr (w(fd \<mapsto> (ud, True))))"

definition io_watcher_add ::
  "bool \<Rightarrow> bool \<Rightarrow> interest \<Rightarrow> int \<Rightarrow> int \<Rightarrow> int \<times> interest" where
  "io_watcher_add add_ok mod_ok w fd ud =
     (case epoll_ctl_add add_ok w fd ud of
        Inr w' \<Rightarrow> (0, w')
      | Inl EEXIST \<Rightarrow> (case epoll_ctl_mod mod_ok w fd ud of Inr w' \<Rightarrow> (0, w') | Inl _ \<Rightarrow> (-1, w))
      | Inl Other_errno \<Rightarrow> (-1, w))"

definition io_watcher_remove :: "interest \<Rightarrow> int \<Rightarrow> int \<times> interest" where
  "io_watcher_remove w fd = (if w fd = None then (-1, w) else (0, w(fd := None)))"

text \<open>\<open>io_watcher_wait\<close> copies the kernel's events: user data, and whether an error bit is set.\<close>

record io_event_t =
  ev_userdata :: int
  ev_is_error :: bool

definition EPOLLERR :: u32 where "EPOLLERR = 0x008"
definition EPOLLHUP :: u32 where "EPOLLHUP = 0x010"

definition io_watcher_wait :: "(int \<times> u32) list option \<Rightarrow> int \<times> io_event_t list" where
  "io_watcher_wait answer =
     (case answer of
        None \<Rightarrow> (-1, [])
      | Some eps \<Rightarrow> (int (length eps),
          map (\<lambda>(ud, evs). \<lparr>ev_userdata = ud, ev_is_error = (evs AND (EPOLLERR OR EPOLLHUP) \<noteq> 0)\<rparr>) eps))"

subsection \<open>Invariant and abstraction of the pool\<close>

definition pool_list :: "conn_pool_t \<Rightarrow> conn_t list" where
  "pool_list pool = map the (take (pool_count pool) (pool_items pool))"

definition pool_inv :: "conn_pool_t \<Rightarrow> bool" where
  "pool_inv pool \<longleftrightarrow>
     length (pool_items pool) = pool_capacity pool \<and> pool_count pool \<le> pool_capacity pool
     \<and> (\<forall>i < pool_count pool. pool_items pool ! i \<noteq> None)"

lemma pool_init_inv:
  "pool_init True n pool = (r, pool') \<Longrightarrow> r = 0 \<and> pool_inv pool' \<and> pool_list pool' = []
     \<and> pool_capacity pool' = n"
  by (auto simp: pool_init_def pool_inv_def pool_list_def)

lemma length_pool_list [simp]: "pool_inv pool \<Longrightarrow> length (pool_list pool) = pool_count pool"
  by (simp add: pool_inv_def pool_list_def)

lemma pool_cell_list: "pool_inv pool \<Longrightarrow> i < pool_count pool \<Longrightarrow> pool_cell pool i = Inr (pool_list pool ! i)"
  by (auto simp: pool_inv_def pool_cell_def pool_list_def split: option.split)

lemma pool_add_list:
  assumes "pool_inv pool"
  shows "if pool_count pool < pool_capacity pool
         then \<exists>pool'. pool_add pool c = Inr (0, pool') \<and> pool_inv pool'
                \<and> pool_list pool' = pool_list pool @ [c] \<and> pool_capacity pool' = pool_capacity pool
         else pool_add pool c = Inr (-1, pool)"
proof (cases "pool_count pool < pool_capacity pool")
  case True
  let ?p = "pool\<lparr>pool_items := (pool_items pool)[pool_count pool := Some c],
                 pool_count := pool_count pool + 1\<rparr>"
  have "pool_list ?p = pool_list pool @ [c]"
    using assms True by (simp add: pool_list_def pool_inv_def take_Suc_conv_app_nth)
  moreover have "pool_inv ?p"
    using assms True by (auto simp: pool_inv_def nth_list_update less_Suc_eq)
  ultimately show ?thesis
    using assms True by (simp add: pool_add_def pool_inv_def)
qed (simp add: pool_add_def)

lemma overwrite_with_last_list:
  assumes inv: "pool_inv pool" and i: "i < pool_count pool"
  shows "\<exists>pool'. overwrite_with_last pool i = Inr pool' \<and> pool_inv pool'
     \<and> pool_list pool' = swap_remove i (pool_list pool) \<and> pool_capacity pool' = pool_capacity pool
     \<and> pool_count pool = Suc (pool_count pool')"
proof -
  obtain n where n: "pool_count pool = Suc n" using i by (cases "pool_count pool") auto
  let ?xs = "pool_items pool"
  let ?p = "pool\<lparr>pool_items := ?xs[i := ?xs ! n], pool_count := n\<rparr>"
  have len: "Suc n \<le> length ?xs" using inv n by (simp add: pool_inv_def)
  have pl: "pool_list pool = map the (take n ?xs) @ [the (?xs ! n)]"
    using len by (simp add: pool_list_def n take_Suc_conv_app_nth)
  have "pool_list ?p = swap_remove i (pool_list pool)"
  proof (cases "i = n")
    case True
    then show ?thesis
      using len by (simp add: pl swap_remove_def list_update_append) (simp add: pool_list_def)
  next
    case False
    then show ?thesis
      using i n len
      by (simp add: pl swap_remove_def list_update_append)
        (simp add: pool_list_def take_update_swap map_update)
  qed
  moreover have "pool_inv ?p"
    using inv i n by (auto simp: pool_inv_def nth_list_update)
  moreover have "overwrite_with_last pool i = Inr ?p"
    using inv i n by (auto simp: overwrite_with_last_def pool_inv_def)
  ultimately show ?thesis using n by auto
qed

lemma nth_swap_remove: "j < i \<Longrightarrow> i < length xs \<Longrightarrow> swap_remove i xs ! j = xs ! j"
  by (simp add: swap_remove_def nth_butlast)

lemma remove_by_fd_from_list:
  assumes "pool_inv pool"
  shows "if \<exists>c \<in> set (drop i (pool_list pool)). conn_fd c = fd
     then \<exists>c pool'. remove_by_fd_from pool fd i = Inr (1, Some c, pool') \<and> conn_fd c = fd
            \<and> pool_inv pool' \<and> pool_capacity pool' = pool_capacity pool
            \<and> add_mset c (mset (pool_list pool')) = mset (pool_list pool)
     else remove_by_fd_from pool fd i = Inr (0, None, pool)"
  using assms
proof (induction pool fd i rule: remove_by_fd_from.induct)
  case (1 pool fd i)
  let ?xs = "pool_list pool"
  show ?case
  proof (cases "i < pool_count pool")
    case False
    then have "drop i ?xs = []" using "1.prems" by simp
    with False show ?thesis by (simp add: remove_by_fd_from.simps [of pool fd i])
  next
    case True
    note cell = pool_cell_list [OF "1.prems" True]
    have d: "drop i ?xs = ?xs ! i # drop (Suc i) ?xs"
      using True "1.prems" by (simp add: Cons_nth_drop_Suc)
    show ?thesis
    proof (cases "conn_fd (?xs ! i) = fd")
      case True': True
      obtain pool' where o: "overwrite_with_last pool i = Inr pool'" "pool_inv pool'"
          "pool_list pool' = swap_remove i ?xs" "pool_capacity pool' = pool_capacity pool"
        using overwrite_with_last_list [OF "1.prems" True] by blast
      have "add_mset (?xs ! i) (mset (pool_list pool')) = mset ?xs"
        using mset_swap_remove [of i ?xs] True "1.prems" o(3) by simp
      with o True True' cell d show ?thesis
        by (simp add: remove_by_fd_from.simps [of pool fd i])
    next
      case False
      from "1.IH" [OF True cell False "1.prems"] show ?thesis
        using True False cell by (simp add: remove_by_fd_from.simps [of pool fd i] d)
    qed
  qed
qed

lemma sweep_from_list:
  assumes "pool_inv pool" "\<forall>j < i. j < pool_count pool \<longrightarrow> now < conn_keepalive_deadline (pool_list pool ! j)"
  shows "\<exists>cs pool'. sweep_from now pool i = Inr (cs, pool') \<and> pool_inv pool'
     \<and> pool_capacity pool' = pool_capacity pool
     \<and> mset cs + mset (pool_list pool') = mset (pool_list pool)
     \<and> (\<forall>c \<in> set cs. conn_keepalive_deadline c \<le> now)
     \<and> (\<forall>c \<in> set (pool_list pool'). now < conn_keepalive_deadline c)"
  using assms
proof (induction now pool i rule: sweep_from.induct)
  case (1 now pool i)
  let ?xs = "pool_list pool"
  show ?case
  proof (cases "i < pool_count pool")
    case False
    then have "\<forall>c \<in> set ?xs. now < conn_keepalive_deadline c"
      using "1.prems" by (auto simp: in_set_conv_nth)
    with False "1.prems"(1) show ?thesis by (simp add: sweep_from.simps [of now pool i])
  next
    case True
    note cell = pool_cell_list [OF "1.prems"(1) True]
    show ?thesis
    proof (cases "conn_keepalive_deadline (?xs ! i) \<le> now")
      case True': True
      obtain p1 where o: "overwrite_with_last pool i = Inr p1" "pool_inv p1"
          "pool_list p1 = swap_remove i ?xs" "pool_capacity p1 = pool_capacity pool"
          "pool_count pool = Suc (pool_count p1)"
        using overwrite_with_last_list [OF "1.prems"(1) True] by blast
      have "\<forall>j < i. j < pool_count p1 \<longrightarrow> now < conn_keepalive_deadline (pool_list p1 ! j)"
        using "1.prems" True o(3,5) by (auto simp: nth_swap_remove)
      from "1.IH"(1) [OF True cell True' o(1,2) this] obtain cs p2 where
        r: "sweep_from now p1 i = Inr (cs, p2)" "pool_inv p2" "pool_capacity p2 = pool_capacity p1"
          "mset cs + mset (pool_list p2) = mset (pool_list p1)"
          "\<forall>c \<in> set cs. conn_keepalive_deadline c \<le> now"
          "\<forall>c \<in> set (pool_list p2). now < conn_keepalive_deadline c"
        by blast
      have "add_mset (?xs ! i) (mset (pool_list p1)) = mset ?xs"
        using mset_swap_remove [of i ?xs] True "1.prems"(1) o(3) by simp
      with r o True True' cell show ?thesis
        by (simp add: sweep_from.simps [of now pool i])
    next
      case False
      have "\<forall>j < Suc i. j < pool_count pool \<longrightarrow> now < conn_keepalive_deadline (?xs ! j)"
        using "1.prems"(2) False by (simp add: less_Suc_eq)
      from "1.IH"(2) [OF True cell False "1.prems"(1) this] show ?thesis
        using True False cell by (simp add: sweep_from.simps [of now pool i])
    qed
  qed
qed

lemma Min_insert_smaller:
  fixes d m :: int
  assumes "finite S"
  shows "Min (insert (if d < m then d else m) S) = Min (insert m (insert d S))"
proof (cases "S = {}")
  case False
  note ins = Min_insert [OF assms False]
  have "Min (insert m (insert d S)) = min m (min d (Min S))"
    using Min_insert [of "insert d S" m] assms ins by simp
  moreover have "min (if d < m then d else m) (Min S) = min m (min d (Min S))"
    by (simp add: min_def)
  ultimately show ?thesis by (simp only: ins)
qed (simp add: min_def)

lemma min_expiry_from_list:
  assumes "pool_inv pool"
  shows "min_expiry_from pool m i
     = Inr (Min (insert m (conn_keepalive_deadline ` set (drop i (pool_list pool)))))"
  using assms
proof (induction pool m i rule: min_expiry_from.induct)
  case (1 pool m i)
  let ?xs = "pool_list pool"
  show ?case
  proof (cases "i < pool_count pool")
    case False
    then show ?thesis using "1.prems" by (simp add: min_expiry_from.simps [of pool m i])
  next
    case True
    note cell = pool_cell_list [OF "1.prems" True]
    let ?d = "conn_keepalive_deadline (?xs ! i)"
    let ?S = "conn_keepalive_deadline ` set (drop (Suc i) ?xs)"
    have d: "drop i ?xs = ?xs ! i # drop (Suc i) ?xs"
      using True "1.prems" by (simp add: Cons_nth_drop_Suc)
    have "Min (insert (if ?d < m then ?d else m) ?S) = Min (insert m (insert ?d ?S))"
      by (rule Min_insert_smaller) simp
    with "1.IH" [OF True cell "1.prems"] True cell show ?thesis
      by (simp add: min_expiry_from.simps [of pool m i] d)
  qed
qed

subsection \<open>The pool is a connection store\<close>

definition pool_step :: "store_op \<Rightarrow> conn_pool_t \<Rightarrow> (store_event \<times> conn_pool_t) result" where
  "pool_step p pool =
     (case p of
        Add c \<Rightarrow> bindR (pool_add pool c) (\<lambda>(r, pool').
                   Inr (if r = 0 then Added c else Rejected c, pool'))
      | Remove fd \<Rightarrow> bindR (pool_remove_by_fd pool fd) (\<lambda>(r, oc, pool').
                   Inr (case oc of Some c \<Rightarrow> Removed c | None \<Rightarrow> Missing fd, pool'))
      | Sweep now \<Rightarrow> bindR (pool_sweep_expired pool now) (\<lambda>(cs, pool'). Inr (Swept cs, pool')))"

definition pool_mset :: "conn_pool_t \<Rightarrow> conn_t multiset" where
  "pool_mset pool = mset (pool_list pool)"

lemma pool_step_add:
  assumes "pool_inv pool"
  shows "\<exists>e pool'. pool_step (Add c) pool = Inr (e, pool') \<and> pool_inv pool'
     \<and> pool_capacity pool' = pool_capacity pool
     \<and> event_ok (pool_capacity pool) (pool_mset pool) (Add c) e
     \<and> pool_mset pool' = event_effect (pool_mset pool) e"
  using pool_add_list [OF assms, of c] assms
  by (auto simp: pool_step_def event_ok_def event_effect_def pool_mset_def split: if_splits)

lemma pool_step_remove:
  assumes "pool_inv pool"
  shows "\<exists>e pool'. pool_step (Remove fd) pool = Inr (e, pool') \<and> pool_inv pool'
     \<and> pool_capacity pool' = pool_capacity pool
     \<and> event_ok (pool_capacity pool) (pool_mset pool) (Remove fd) e
     \<and> pool_mset pool' = event_effect (pool_mset pool) e"
proof (cases "\<exists>c \<in> set (pool_list pool). conn_fd c = fd")
  case False
  then have "pool_remove_by_fd pool fd = Inr (0, None, pool)"
    using remove_by_fd_from_list [OF assms, of 0 fd] by (simp add: pool_remove_by_fd_def)
  with False assms show ?thesis
    by (auto simp: pool_step_def event_ok_def event_effect_def pool_mset_def)
next
  case True
  then obtain c pool' where r: "pool_remove_by_fd pool fd = Inr (1, Some c, pool')" "conn_fd c = fd"
      "pool_inv pool'" "pool_capacity pool' = pool_capacity pool"
      "add_mset c (mset (pool_list pool')) = mset (pool_list pool)"
    using remove_by_fd_from_list [OF assms, of 0 fd] by (auto simp: pool_remove_by_fd_def)
  have "c \<in># pool_mset pool"
    unfolding pool_mset_def r(5) [symmetric] by simp
  moreover have "pool_mset pool' = pool_mset pool - {#c#}"
    unfolding pool_mset_def r(5) [symmetric] by simp
  ultimately show ?thesis
    using r by (auto simp: pool_step_def event_ok_def event_effect_def)
qed

lemma pool_step_sweep:
  assumes "pool_inv pool"
  shows "\<exists>e pool'. pool_step (Sweep now) pool = Inr (e, pool') \<and> pool_inv pool'
     \<and> pool_capacity pool' = pool_capacity pool
     \<and> event_ok (pool_capacity pool) (pool_mset pool) (Sweep now) e
     \<and> pool_mset pool' = event_effect (pool_mset pool) e"
proof -
  obtain cs pool' where r: "pool_sweep_expired pool now = Inr (cs, pool')" "pool_inv pool'"
      "pool_capacity pool' = pool_capacity pool"
      "mset cs + mset (pool_list pool') = mset (pool_list pool)"
      "\<forall>c \<in> set cs. conn_keepalive_deadline c \<le> now"
      "\<forall>c \<in> set (pool_list pool'). now < conn_keepalive_deadline c"
    using sweep_from_list [OF assms, of 0 now] by (auto simp: pool_sweep_expired_def)
  have "{#c \<in># mset cs. conn_keepalive_deadline c \<le> now#} = mset cs"
    "{#c \<in># mset (pool_list pool'). conn_keepalive_deadline c \<le> now#} = {#}"
    using r(5,6) by (force simp: filter_mset_eq_conv)+
  then have "mset cs = {#c \<in># pool_mset pool. conn_keepalive_deadline c \<le> now#}"
    unfolding pool_mset_def r(4) [symmetric] by simp
  moreover have "pool_mset pool' = pool_mset pool - mset cs"
    unfolding pool_mset_def r(4) [symmetric] by simp
  ultimately show ?thesis
    using r by (auto simp: pool_step_def event_ok_def event_effect_def)
qed

interpretation pool: conn_store pool_inv pool_mset pool_capacity pool_step
proof unfold_locales
  fix s p
  assume inv: "pool_inv s"
  show "\<exists>e s'. pool_step p s = Inr (e, s') \<and> pool_inv s' \<and> pool_capacity s' = pool_capacity s
      \<and> event_ok (pool_capacity s) (pool_mset s) p e \<and> pool_mset s' = event_effect (pool_mset s) e"
    using pool_step_add [OF inv] pool_step_remove [OF inv] pool_step_sweep [OF inv]
    by (cases p) blast+
  show "size (pool_mset s) \<le> pool_capacity s"
    using inv by (simp add: pool_mset_def pool_inv_def)
qed

subsection \<open>Properties\<close>

text \<open>
  Over any sequence of insertions, removals by descriptor and sweeps
  the pool neither loses nor duplicates a connection: those it held and took in are exactly those it
  gave back or expired and those it still holds; it never exceeds its capacity and never reads or
  writes outside its array or a cell not yet written.
\<close>

theorem pool_conserves_connections:
  assumes "pool_inv pool"
  shows "\<exists>es pool'. store_run pool_step ps pool = Inr (es, pool') \<and> pool_inv pool'
     \<and> pool_mset pool + entered es = left es + pool_mset pool'
     \<and> size (pool_mset pool') \<le> pool_capacity pool"
  using pool.run_conserves [OF assms, of ps] by auto

text \<open>
  Removal by descriptor returns 1 with a connection of that descriptor and
  takes exactly it out of the pool, or returns 0 and leaves the pool as it was when there is none.
\<close>

theorem pool_remove_by_fd_spec:
  assumes "pool_inv pool"
  shows "if fd \<in> conn_fd ` set (pool_list pool)
     then \<exists>c pool'. pool_remove_by_fd pool fd = Inr (1, Some c, pool') \<and> conn_fd c = fd
            \<and> pool_inv pool' \<and> mset (pool_list pool) = add_mset c (mset (pool_list pool'))
     else pool_remove_by_fd pool fd = Inr (0, None, pool)"
  using remove_by_fd_from_list [OF assms, of 0 fd]
  by (fastforce simp: pool_remove_by_fd_def image_iff split: if_splits)

text \<open>
  A sweep at time \<open>now\<close> closes exactly the connections whose deadline is not
  after \<open>now\<close> and keeps exactly the others, although it overwrites each removed cell with the last
  one while it scans.
\<close>

theorem pool_sweep_spec:
  assumes "pool_inv pool"
  shows "\<exists>cs pool'. pool_sweep_expired pool now = Inr (cs, pool') \<and> pool_inv pool'
     \<and> mset cs = mset (filter (\<lambda>c. conn_keepalive_deadline c \<le> now) (pool_list pool))
     \<and> mset (pool_list pool') = mset (filter (\<lambda>c. now < conn_keepalive_deadline c) (pool_list pool))"
proof -
  obtain cs pool' where r: "pool_sweep_expired pool now = Inr (cs, pool')" "pool_inv pool'"
      "mset cs + mset (pool_list pool') = mset (pool_list pool)"
      "\<forall>c \<in> set cs. conn_keepalive_deadline c \<le> now"
      "\<forall>c \<in> set (pool_list pool'). now < conn_keepalive_deadline c"
    using sweep_from_list [OF assms, of 0 now] by (auto simp: pool_sweep_expired_def)
  have split: "mset (filter P (pool_list pool)) = mset (filter P cs @ filter P (pool_list pool'))"
    for P by (simp add: r(3) [symmetric])
  have "filter (\<lambda>c. conn_keepalive_deadline c \<le> now) cs = cs"
      "filter (\<lambda>c. conn_keepalive_deadline c \<le> now) (pool_list pool') = []"
      "filter (\<lambda>c. now < conn_keepalive_deadline c) cs = []"
      "filter (\<lambda>c. now < conn_keepalive_deadline c) (pool_list pool') = pool_list pool'"
    using r(4,5) by (force simp: filter_id_conv filter_empty_conv)+
  note parts = this
  have "mset (filter (\<lambda>c. conn_keepalive_deadline c \<le> now) (pool_list pool)) = mset cs"
    "mset (filter (\<lambda>c. now < conn_keepalive_deadline c) (pool_list pool)) = mset (pool_list pool')"
    unfolding split parts by simp_all
  with r(1,2) show ?thesis by metis
qed

lemma pool_nearest_timeout_value:
  assumes "pool_inv pool"
    and "\<forall>c \<in> set (pool_list pool). now - 2 ^ 31 \<le> conn_keepalive_deadline c
           \<and> conn_keepalive_deadline c \<le> now + 65535"
  shows "pool_nearest_timeout_ms pool now
     = Inr (if pool_list pool = [] then -1
            else max 0 ((Min (conn_keepalive_deadline ` set (pool_list pool)) - now) * 1000))"
proof (cases "pool_list pool")
  case Nil
  then have "pool_count pool = 0" using length_pool_list [OF assms(1)] by simp
  with Nil show ?thesis by (simp add: pool_nearest_timeout_ms_def)
next
  case (Cons c cs)
  then have pos: "0 < pool_count pool" using length_pool_list [OF assms(1)] by simp
  let ?S = "conn_keepalive_deadline ` set (pool_list pool)"
  define m where "m = Min ?S"
  have c0: "pool_cell pool 0 = Inr c"
    using pool_cell_list [OF assms(1) pos] Cons by simp
  have "min_expiry_from pool (conn_keepalive_deadline c) 1 = Inr (Min ?S)"
    by (simp add: min_expiry_from_list [OF assms(1)] Cons)
  then have me: "min_expiry_from pool (conn_keepalive_deadline c) 1 = Inr m"
    by (simp only: m_def)
  have "m \<in> ?S" unfolding m_def using Cons by (intro Min_in) auto
  then have "now - 2 ^ 31 \<le> m" "m \<le> now + 65535" using assms(2) by auto
  then have "to_int32 (m - now) = m - now"
    "\<not> m - now \<le> 0 \<Longrightarrow> int_mul (m - now) 1000 = Inr ((m - now) * 1000)"
    by (simp_all add: to_int32_id int_mul_def)
  then have "pool_nearest_timeout_ms pool now = Inr (max 0 ((m - now) * 1000))"
    using pos c0 me by (auto simp: pool_nearest_timeout_ms_def Let_def max_def)
  then show ?thesis using Cons by (simp add: m_def)
qed

text \<open>
  The poll timeout: -1 for an empty pool, otherwise the milliseconds to
  the earliest deadline, and 0 when one has passed.  The \<open>int\<close> product does not overflow for
  deadlines at most 65535 seconds ahead, the most a \<open>uint16_t\<close> keep-alive time can set.
\<close>

theorem pool_nearest_timeout_spec:
  assumes "pool_inv pool"
    and "\<forall>c \<in> set (pool_list pool). now - 2 ^ 31 \<le> conn_keepalive_deadline c
           \<and> conn_keepalive_deadline c \<le> now + 65535"
  shows "pool_nearest_timeout_ms pool now
     = Inr (if pool_list pool = [] then -1
            else max 0 ((Min (conn_keepalive_deadline ` set (pool_list pool)) - now) * 1000))"
  by (rule pool_nearest_timeout_value [OF assms])

subsection \<open>Witnesses\<close>

definition example_conn :: "int \<Rightarrow> int \<Rightarrow> conn_t" where
  "example_conn fd deadline = zero_conn\<lparr>conn_fd := fd, conn_keepalive_deadline := deadline\<rparr>"

definition example_pool :: conn_pool_t where
  "example_pool = \<lparr>pool_items = [Some (example_conn 5 100), Some (example_conn 6 90),
     Some (example_conn 7 120), None], pool_count = 3, pool_capacity = 4\<rparr>"

lemma example_pool_inv: "pool_inv example_pool"
  by (auto simp: example_pool_def pool_inv_def less_Suc_eq numeral_3_eq_3)

lemma example_pool_list:
  "pool_list example_pool = [example_conn 5 100, example_conn 6 90, example_conn 7 120]"
  by (simp add: example_pool_def pool_list_def)

theorem pool_conserves_connections_witness:
  "\<exists>es pool'. store_run pool_step [Add (example_conn 8 95), Remove 5, Sweep 100] example_pool
      = Inr (es, pool') \<and> pool_mset example_pool + entered es = left es + pool_mset pool'"
  using pool_conserves_connections [OF example_pool_inv] by blast

theorem pool_remove_by_fd_spec_witness:
  "\<exists>c pool'. pool_remove_by_fd example_pool 6 = Inr (1, Some c, pool') \<and> conn_fd c = 6"
  using pool_remove_by_fd_spec [OF example_pool_inv, of 6]
  by (auto simp: example_pool_list example_conn_def)

theorem pool_sweep_spec_witness:
  "\<exists>cs pool'. pool_sweep_expired example_pool 100 = Inr (cs, pool')
      \<and> mset cs = {#example_conn 5 100, example_conn 6 90#}
      \<and> mset (pool_list pool') = {#example_conn 7 120#}"
  using pool_sweep_spec [OF example_pool_inv, of 100]
  by (auto simp: example_pool_list example_conn_def)

theorem pool_nearest_timeout_spec_witness: "pool_nearest_timeout_ms example_pool 88 = Inr 2000"
  using pool_nearest_timeout_spec [OF example_pool_inv, of 88]
  by (simp add: example_pool_list example_conn_def)

end
