(* ===== verification/Poller.thy ===== *)
theory Poller
  imports IoWatcher "HOL-Library.Signed_Division"
begin

text \<open>
  The two back ends of \<open>src/io_watcher.c\<close>: \<open>epoll\<close> on Linux (its calls are in \<open>IoWatcher\<close>) and \<open>kqueue\<close>
  elsewhere, with the interface the wait room relies on as a locale that both interpret.  The kernel's
  side of a poller is its documented behaviour; the results of its calls are arguments.
\<close>

subsection \<open>Creation and destruction\<close>

text \<open>
  \<open>None\<close> is a call of \<open>server_shutdown\<close>, which does not return; otherwise the descriptor of the new
  watcher.
\<close>

definition io_watcher_create :: "bool \<Rightarrow> int \<Rightarrow> int option" where
  "io_watcher_create malloc_ok fd = (if \<not> malloc_ok \<or> fd < 0 then None else Some fd)"

definition io_watcher_destroy :: "int \<Rightarrow> sys_effect list" where
  "io_watcher_destroy w = [Sys_close w]"

subsection \<open>The kqueue calls\<close>

text \<open>
  The filters of a \<open>kqueue\<close>: the user data of each descriptor with an \<open>EVFILT_READ\<close> filter.  \<open>EV_ADD\<close>
  of a filter that exists replaces it.
\<close>

type_synonym kqueue = "int \<Rightarrow> int option"

definition kq_watcher_add :: "bool \<Rightarrow> kqueue \<Rightarrow> int \<Rightarrow> int \<Rightarrow> int \<times> kqueue" where
  "kq_watcher_add kernel_ok w fd ud = (if kernel_ok then (0, w(fd \<mapsto> ud)) else (-1, w))"

definition kq_watcher_remove :: "kqueue \<Rightarrow> int \<Rightarrow> int \<times> kqueue" where
  "kq_watcher_remove w fd = (if w fd = None then (-1, w) else (0, w(fd := None)))"

definition EV_ERROR :: u32 where "EV_ERROR = 0x4000"

definition kq_watcher_wait :: "(int \<times> u32) list option \<Rightarrow> int \<times> io_event_t list" where
  "kq_watcher_wait answer =
     (case answer of
        None \<Rightarrow> (-1, [])
      | Some evs \<Rightarrow> (int (length evs),
          map (\<lambda>(ud, flags). if flags AND EV_ERROR \<noteq> 0 then \<lparr>ev_userdata = ud, ev_is_error = True\<rparr>
                             else \<lparr>ev_userdata = ud, ev_is_error = False\<rparr>) evs))"

text \<open>The \<open>timespec\<close> of a timeout in milliseconds; C's division rounds towards zero.\<close>

definition kq_timeout :: "int \<Rightarrow> int \<times> int" where
  "kq_timeout timeout_ms = (timeout_ms sdiv 1000, (timeout_ms smod 1000) * 1000000)"

lemma kq_timeout_exact:
  "0 \<le> ms \<Longrightarrow> case kq_timeout ms of (s, ns) \<Rightarrow> s * 1000000000 + ns = ms * 1000000 \<and> 0 \<le> ns \<and> ns < 1000000000"
  by (simp add: kq_timeout_def signed_divide_int_def signed_modulo_int_def sgn_if) presburger

subsection \<open>The kernel delivers an event\<close>

text \<open>
  What happens when a descriptor becomes readable: the user data delivered, if any, and the poller
  afterwards.  \<open>EPOLLONESHOT\<close> disarms the entry and keeps it; \<open>EV_ONESHOT\<close> deletes the filter.
\<close>

definition epoll_fire :: "interest \<Rightarrow> int \<Rightarrow> int option \<times> interest" where
  "epoll_fire w fd =
     (case w fd of
        Some (ud, True) \<Rightarrow> (Some ud, w(fd \<mapsto> (ud, False)))
      | _ \<Rightarrow> (None, w))"

definition kq_fire :: "kqueue \<Rightarrow> int \<Rightarrow> int option \<times> kqueue" where
  "kq_fire w fd = (w fd, w(fd := None))"

text \<open>The descriptors that can still fire, with their user data.\<close>

definition epoll_armed :: "interest \<Rightarrow> int \<Rightarrow> int option" where
  "epoll_armed w fd = (case w fd of Some (ud, True) \<Rightarrow> Some ud | _ \<Rightarrow> None)"

subsection \<open>Histories of a poller\<close>

datatype poll_op =
    P_add bool int int   \<comment> \<open>whether the kernel accepts; descriptor and user data\<close>
  | P_remove int
  | P_fire int

text \<open>The user data delivered by a history, with their descriptors, and the poller left.\<close>

fun run_poller ::
  "(bool \<Rightarrow> 'w \<Rightarrow> int \<Rightarrow> int \<Rightarrow> int \<times> 'w) \<Rightarrow> ('w \<Rightarrow> int \<Rightarrow> int \<times> 'w) \<Rightarrow> ('w \<Rightarrow> int \<Rightarrow> int option \<times> 'w)
     \<Rightarrow> 'w \<Rightarrow> poll_op list \<Rightarrow> (int \<times> int) list \<times> 'w" where
  "run_poller add rem fire w [] = ([], w)"
| "run_poller add rem fire w (P_add ok fd ud # ops) = run_poller add rem fire (snd (add ok w fd ud)) ops"
| "run_poller add rem fire w (P_remove fd # ops) = run_poller add rem fire (snd (rem w fd)) ops"
| "run_poller add rem fire w (P_fire fd # ops) =
     (let (u, w1) = fire w fd; (ds, w2) = run_poller add rem fire w1 ops
      in ((case u of None \<Rightarrow> ds | Some ud \<Rightarrow> (fd, ud) # ds), w2))"

text \<open>The reference: a map from descriptors to user data, cleared by every delivery.\<close>

fun deliveries :: "(int \<Rightarrow> int option) \<Rightarrow> poll_op list \<Rightarrow> (int \<times> int) list" where
  "deliveries a [] = []"
| "deliveries a (P_add ok fd ud # ops) = deliveries (if ok then a(fd \<mapsto> ud) else a) ops"
| "deliveries a (P_remove fd # ops) = deliveries (a(fd := None)) ops"
| "deliveries a (P_fire fd # ops) =
     (case a fd of None \<Rightarrow> deliveries (a(fd := None)) ops | Some ud \<Rightarrow> (fd, ud) # deliveries (a(fd := None)) ops)"

text \<open>A descriptor is delivered at most once for every time it was added.\<close>

lemma deliveries_one_shot:
  "length (filter (\<lambda>(f, ud). f = fd) (deliveries a ops))
     \<le> length (filter (\<lambda>p. \<exists>ud. p = P_add True fd ud) ops) + (if a fd = None then 0 else 1)"
proof (induction ops arbitrary: a)
  case (Cons p ops)
  show ?case
  proof (cases p)
    case (P_add ok f ud)
    then show ?thesis using Cons.IH [of "if ok then a(f \<mapsto> ud) else a"]
      by (cases ok; cases "f = fd") (simp_all add: fun_upd_def split: if_splits)
  next
    case (P_remove f)
    then show ?thesis using Cons.IH [of "a(f := None)"] by (cases "f = fd") (simp_all add: fun_upd_def split: if_splits)
  next
    case (P_fire f)
    then show ?thesis using Cons.IH [of "a(f := None)"]
      by (cases "a f"; cases "f = fd") (simp_all add: fun_upd_def split: if_splits)
  qed
qed simp

subsection \<open>The interface\<close>

locale poller =
  fixes add :: "bool \<Rightarrow> 'w \<Rightarrow> int \<Rightarrow> int \<Rightarrow> int \<times> 'w"
    and rem :: "'w \<Rightarrow> int \<Rightarrow> int \<times> 'w"
    and fire :: "'w \<Rightarrow> int \<Rightarrow> int option \<times> 'w"
    and armed :: "'w \<Rightarrow> int \<Rightarrow> int option"
  assumes add_result: "fst (add ok w fd ud) = (if ok then 0 else -1)"
    and add_armed: "armed (snd (add ok w fd ud)) = (if ok then (armed w)(fd \<mapsto> ud) else armed w)"
    and rem_armed: "armed (snd (rem w fd)) = (armed w)(fd := None)"
    and fire_data: "fst (fire w fd) = armed w fd"
    and fire_armed: "armed (snd (fire w fd)) = (armed w)(fd := None)"
begin

lemma run_deliveries: "fst (run_poller add rem fire w ops) = deliveries (armed w) ops"
proof (induction ops arbitrary: w)
  case (Cons p ops)
  show ?case
  proof (cases p)
    case (P_fire fd)
    then show ?thesis using Cons.IH [of "snd (fire w fd)"] fire_data [of w fd] fire_armed [of w fd]
      by (simp add: case_prod_beta fun_upd_def split: option.split)
  qed (simp_all add: Cons.IH add_armed rem_armed fun_upd_def)
qed simp

lemma one_shot:
  "armed w fd = None \<Longrightarrow> length (filter (\<lambda>(f, ud). f = fd) (fst (run_poller add rem fire w ops)))
     \<le> length (filter (\<lambda>p. \<exists>ud. p = P_add True fd ud) ops)"
  using deliveries_one_shot [of fd "armed w" ops] by (simp add: run_deliveries)

end

interpretation epoll: poller "\<lambda>ok. io_watcher_add ok ok" io_watcher_remove epoll_fire epoll_armed
  by unfold_locales
    (auto simp: io_watcher_add_def epoll_ctl_add_def epoll_ctl_mod_def io_watcher_remove_def epoll_fire_def
      epoll_armed_def fun_eq_iff split: option.splits bool.splits if_splits)

interpretation kq: poller kq_watcher_add kq_watcher_remove kq_fire "\<lambda>w. w"
  by unfold_locales (auto simp: kq_watcher_add_def kq_watcher_remove_def kq_fire_def)


end
