(* ===== verification/Lookup.thy ===== *)
theory Lookup
  imports CLib
begin

text \<open>
  The interface of a table searched from the front for the first entry with an equivalent key.
  Request headers (\<open>src/util.c\<close>), the MIME table (\<open>src/mime.c\<close>) and the configuration map
  (\<open>src/config.c\<close>) are all used this way, the first two up to letter case.
\<close>

locale keyed_table =
  fixes same :: "'k \<Rightarrow> 'k \<Rightarrow> bool"
    and key_of :: "'e \<Rightarrow> 'k"
  assumes same_refl: "same a a"
    and same_sym: "same a b \<Longrightarrow> same b a"
    and same_trans: "same a b \<Longrightarrow> same b c \<Longrightarrow> same a c"
begin

lemma same_cong: "same k k' \<Longrightarrow> same a k = same a k'"
  by (blast intro: same_sym same_trans)

lemma lookup_cong: "same k k' \<Longrightarrow> find (\<lambda>e. same (key_of e) k) es = find (\<lambda>e. same (key_of e) k') es"
  by (rule find_cong) (simp_all add: same_cong)

lemma lookup_Some:
  "find (\<lambda>e. same (key_of e) k) es = Some e \<Longrightarrow> e \<in> set es \<and> same (key_of e) k"
  by (auto simp: find_Some_iff)

lemma lookup_None: "find (\<lambda>e. same (key_of e) k) es = None \<longleftrightarrow> (\<forall>e \<in> set es. \<not> same (key_of e) k)"
  by (auto simp: find_None_iff)

text \<open>When no two entries have equivalent keys, every entry is found under its own key.\<close>

lemma lookup_own_key:
  assumes "e \<in> set es" "\<forall>e1 \<in> set es. \<forall>e2 \<in> set es. same (key_of e1) (key_of e2) \<longrightarrow> e1 = e2"
  shows "find (\<lambda>x. same (key_of x) (key_of e)) es = Some e"
proof -
  have "find (\<lambda>x. same (key_of x) (key_of e)) es \<noteq> None"
    using assms(1) same_refl by (auto simp: lookup_None)
  then obtain e' where e': "find (\<lambda>x. same (key_of x) (key_of e)) es = Some e'" by auto
  from lookup_Some [OF this] assms have "e' = e" by blast
  with e' show ?thesis by simp
qed

end

end
