(* ===== verification/Util.thy ===== *)
theory Util
  imports Types Lookup
begin

text \<open>
  \<open>src/util.c\<close>: rounding up to a power of two by bit smearing, clock arithmetic, the IMF-fixdate
  of HTTP, decimal printing and the case-insensitive search of request headers.
\<close>

subsection \<open>Powers of two\<close>

definition next_power_of_2 :: "u32 \<Rightarrow> u32" where
  "next_power_of_2 v0 =
     (let v1 = v0 - 1;
          v2 = v1 OR drop_bit 1 v1;
          v3 = v2 OR drop_bit 2 v2;
          v4 = v3 OR drop_bit 4 v3;
          v5 = v4 OR drop_bit 8 v4;
          v6 = v5 OR drop_bit 16 v5;
          v7 = v6 + 1
      in if v7 = 0 then 1 else v7)"

text \<open>One smearing step doubles the distance over which a set bit has been copied down.\<close>

lemma smear_step:
  fixes x w :: "'a::len word"
  assumes "\<And>n. bit x n \<longleftrightarrow> (\<exists>j < s. bit w (n + j))"
  shows "bit (x OR drop_bit s x) n \<longleftrightarrow> (\<exists>j < 2 * s. bit w (n + j))"
proof -
  have "(\<exists>j < 2 * s. bit w (n + j)) \<longleftrightarrow> (\<exists>j < s. bit w (n + j)) \<or> (\<exists>j < s. bit w (s + n + j))"
  proof
    assume "\<exists>j < 2 * s. bit w (n + j)"
    then obtain j where j: "j < 2 * s" "bit w (n + j)" by blast
    show "(\<exists>j < s. bit w (n + j)) \<or> (\<exists>j < s. bit w (s + n + j))"
    proof (cases "j < s")
      case False
      then have "j - s < s" "s + n + (j - s) = n + j" using j(1) by simp_all
      with j(2) show ?thesis by metis
    qed (use j in blast)
  next
    assume "(\<exists>j < s. bit w (n + j)) \<or> (\<exists>j < s. bit w (s + n + j))"
    then show "\<exists>j < 2 * s. bit w (n + j)"
    proof
      assume "\<exists>j < s. bit w (s + n + j)"
      then obtain j where "j < s" "bit w (n + (s + j))" by (auto simp: ac_simps)
      then show ?thesis by (intro exI [of _ "s + j"]) simp
    next
      assume "\<exists>j < s. bit w (n + j)"
      then obtain j where "j < s" "bit w (n + j)" by blast
      then show ?thesis by (intro exI [of _ j]) simp
    qed
  qed
  then show ?thesis by (simp add: bit_or_iff bit_drop_bit_eq assms)
qed

lemma word_bit_iff: "bit (w :: u32) m \<longleftrightarrow> odd (unat w div 2 ^ m)"
proof -
  have "bit (unat w) m \<longleftrightarrow> bit w m"
    by (simp add: bit_unsigned_iff)
  then show ?thesis by (simp add: bit_iff_odd)
qed

lemma msb_exists: "\<exists>L. n < (2 :: nat) ^ L \<and> (L = 0 \<or> 2 ^ (L - 1) \<le> n)"
proof -
  let ?L = "LEAST L. n < (2 :: nat) ^ L"
  have "n < 2 ^ ?L" by (rule LeastI [of _ n]) (rule less_exp)
  moreover have "?L = 0 \<or> 2 ^ (?L - 1) \<le> n"
    using not_less_Least [of "?L - 1" "\<lambda>L. n < 2 ^ L"] by (cases "?L = 0") (auto simp: not_less)
  ultimately show ?thesis by blast
qed

text \<open>Smearing over the whole width leaves the mask below the highest set bit.\<close>

lemma smear_is_mask:
  fixes w y :: u32
  assumes y: "\<And>n. bit y n \<longleftrightarrow> (\<exists>j < 32. bit w (n + j))"
    and L: "unat w < 2 ^ L" "L = 0 \<or> 2 ^ (L - 1) \<le> unat w"
  shows "y = mask L" and "L \<le> 32"
proof -
  show L32: "L \<le> 32"
  proof (rule ccontr)
    assume "\<not> L \<le> 32"
    then have "(2 :: nat) ^ 32 \<le> 2 ^ (L - 1)" by (intro power_increasing) auto
    with L(2) \<open>\<not> L \<le> 32\<close> have "2 ^ 32 \<le> unat w" by (auto intro: order_trans)
    with unsigned_less [of w, where ?'a = nat] show False by simp
  qed
  have high: "\<not> bit w m" if "L \<le> m" for m
  proof -
    have "unat w < 2 ^ m" using L(1) that by (meson less_le_trans one_le_numeral power_increasing)
    then show ?thesis by (simp add: word_bit_iff)
  qed
  have top: "bit w (L - 1)" if "0 < L"
  proof -
    have "unat w div 2 ^ (L - 1) = 1"
    proof (rule div_nat_eqI)
      show "2 ^ (L - 1) * 1 \<le> unat w" using L(2) that by simp
      have "(2 :: nat) ^ L = 2 ^ (L - 1) * 2" using that by (cases L) simp_all
      then show "unat w < 2 ^ (L - 1) * Suc 1" using L(1) by simp
    qed
    then show ?thesis by (simp add: word_bit_iff)
  qed
  have "bit y n \<longleftrightarrow> n < L" for n
  proof
    assume "n < L"
    then have "L - 1 - n < 32" "n + (L - 1 - n) = L - 1" "0 < L" using L32 by simp_all
    with top y show "bit y n" by metis
  next
    assume "bit y n"
    then obtain j where "bit w (n + j)" using y by blast
    with high [of "n + j"] show "n < L" by (cases "L \<le> n + j") (auto simp: y high)
  qed
  then show "y = mask L"
    using L32 by (intro bit_eqI) (simp add: bit_mask_iff)
qed

lemma next_power_of_2_msb:
  assumes "unat (v - 1) < 2 ^ L" "L = 0 \<or> 2 ^ (L - 1) \<le> unat (v - 1)"
  shows "next_power_of_2 v = (if L = 32 then 1 else 2 ^ L)" and "L \<le> 32"
proof -
  define v1 where "v1 = v - 1"
  define v2 where "v2 = v1 OR drop_bit 1 v1"
  define v3 where "v3 = v2 OR drop_bit 2 v2"
  define v4 where "v4 = v3 OR drop_bit 4 v3"
  define v5 where "v5 = v4 OR drop_bit 8 v4"
  define v6 where "v6 = v5 OR drop_bit 16 v5"
  have s1: "bit v1 n \<longleftrightarrow> (\<exists>j < 1. bit v1 (n + j))" for n by simp
  have s2: "bit v2 n \<longleftrightarrow> (\<exists>j < 2. bit v1 (n + j))" for n
    unfolding v2_def using smear_step [of v1 1 v1 n, OF s1] by simp
  have s3: "bit v3 n \<longleftrightarrow> (\<exists>j < 4. bit v1 (n + j))" for n
    unfolding v3_def using smear_step [of v2 2 v1 n, OF s2] by simp
  have s4: "bit v4 n \<longleftrightarrow> (\<exists>j < 8. bit v1 (n + j))" for n
    unfolding v4_def using smear_step [of v3 4 v1 n, OF s3] by simp
  have s5: "bit v5 n \<longleftrightarrow> (\<exists>j < 16. bit v1 (n + j))" for n
    unfolding v5_def using smear_step [of v4 8 v1 n, OF s4] by simp
  have s6: "bit v6 n \<longleftrightarrow> (\<exists>j < 32. bit v1 (n + j))" for n
    unfolding v6_def using smear_step [of v5 16 v1 n, OF s5] by simp
  have m: "v6 = mask L" and L: "L \<le> 32"
    using smear_is_mask [OF s6, of L] assms by (simp_all add: v1_def)
  show "L \<le> 32" by (rule L)
  have np: "next_power_of_2 v = (if v6 + 1 = 0 then 1 else v6 + 1)"
    by (simp add: next_power_of_2_def Let_def v1_def v2_def v3_def v4_def v5_def v6_def)
  have p: "v6 + 1 = 2 ^ L" by (simp add: m mask_eq_exp_minus_1)
  have "(2 ^ L :: u32) = 0 \<longleftrightarrow> L = 32"
    using L by (simp only: exp_eq_zero_iff) simp
  with np p show "next_power_of_2 v = (if L = 32 then 1 else 2 ^ L)" by simp
qed

lemma next_power_of_2_cases:
  "if 1 \<le> unat v \<and> unat v \<le> 2 ^ 31
   then \<exists>k \<le> 31. unat (next_power_of_2 v) = 2 ^ k \<and> unat v \<le> 2 ^ k
          \<and> (\<forall>j. unat v \<le> 2 ^ j \<longrightarrow> k \<le> j)
   else next_power_of_2 v = 1"
proof (cases "v = 0")
  case True
  then show ?thesis by (simp add: next_power_of_2_def)
next
  case False
  then have pos: "1 \<le> unat v" by (simp add: Suc_le_eq unat_gt_0)
  have m1: "unat (v - 1) = unat v - 1"
    using False by (simp add: unat_minus_one)
  obtain L where L: "unat (v - 1) < 2 ^ L" "L = 0 \<or> 2 ^ (L - 1) \<le> unat (v - 1)"
    using msb_exists by blast
  note r = next_power_of_2_msb [OF L]
  show ?thesis
  proof (cases "unat v \<le> 2 ^ 31")
    case True
    have L31: "L \<le> 31"
    proof (rule ccontr)
      assume "\<not> L \<le> 31"
      then have "(2 :: nat) ^ 31 \<le> 2 ^ (L - 1)" by (intro power_increasing) auto
      with L(2) \<open>\<not> L \<le> 31\<close> have "2 ^ 31 \<le> unat v - 1" by (auto simp: m1)
      with True pos show False by simp
    qed
    have "(2 :: nat) ^ L < 2 ^ 32" using L31 by (intro power_strict_increasing) auto
    then have "unat (of_nat (2 ^ L) :: u32) = 2 ^ L"
      using L31 by (simp add: unsigned_of_nat take_bit_nat_eq_self del: of_nat_power of_nat_numeral)
    then have "unat (2 ^ L :: u32) = 2 ^ L" by simp
    moreover have "unat v \<le> 2 ^ L" using L(1) pos by (simp add: m1)
    moreover have "L \<le> j" if "unat v \<le> 2 ^ j" for j
    proof (rule ccontr)
      assume "\<not> L \<le> j"
      then have "(2 :: nat) ^ j \<le> 2 ^ (L - 1)" by (intro power_increasing) auto
      moreover have "2 ^ (L - 1) \<le> unat v - 1" using L(2) \<open>\<not> L \<le> j\<close> by (auto simp: m1)
      ultimately show False using that pos by linarith
    qed
    ultimately show ?thesis using True pos L31 r by auto
  next
    case False
    have "L = 32"
    proof -
      have "2 ^ 31 < (2 :: nat) ^ L" using L(1) False by (simp add: m1)
      then have "31 < L" by (simp only: power_strict_increasing_iff)
      with r(2) show ?thesis by simp
    qed
    with r False show ?thesis by simp
  qed
qed

lemma next_power_of_2_least:
  "1 \<le> unat v \<Longrightarrow> unat v \<le> 2 ^ 31 \<Longrightarrow>
   \<exists>k \<le> 31. unat (next_power_of_2 v) = 2 ^ k \<and> unat v \<le> 2 ^ k \<and> (\<forall>j. unat v \<le> 2 ^ j \<longrightarrow> k \<le> j)"
  using next_power_of_2_cases [of v] by (simp only: if_True simp_thms)

text \<open>
  For \<open>1 \<le> v \<le> 2^31\<close> the result is the least power of two that is not below
  \<open>v\<close>; for 0 and for every greater \<open>v\<close> it is 1.
\<close>

theorem next_power_of_2_spec:
  "if 1 \<le> unat v \<and> unat v \<le> 2 ^ 31
   then \<exists>k \<le> 31. unat (next_power_of_2 v) = 2 ^ k \<and> unat v \<le> 2 ^ k
          \<and> (\<forall>j. unat v \<le> 2 ^ j \<longrightarrow> k \<le> j)
   else next_power_of_2 v = 1"
  by (rule next_power_of_2_cases)

theorem next_power_of_2_spec_witness:
  "\<exists>k. unat (next_power_of_2 300) = 2 ^ k \<and> 300 \<le> (2 :: nat) ^ k"
  using next_power_of_2_spec [of 300] by auto

subsection \<open>Clocks and processors\<close>

text \<open>\<open>sysconf\<close> answers -1 on failure; the server then assumes four processors.\<close>

definition get_ncpu :: "int \<Rightarrow> int" where
  "get_ncpu sysconf_answer = (if sysconf_answer = -1 then 4 else sysconf_answer)"

definition get_now_ms :: "int \<Rightarrow> int \<Rightarrow> u64" where
  "get_now_ms tv_sec tv_nsec = word_of_int tv_sec * 1000 + word_of_int tv_nsec div 1000000"

definition get_now_us :: "int \<Rightarrow> int \<Rightarrow> u64" where
  "get_now_us tv_sec tv_nsec = word_of_int tv_sec * 1000000 + word_of_int tv_nsec div 1000"

subsection \<open>Decimal printing\<close>

text \<open>\<open>int_to_string\<close>: \<open>snprintf\<close> of an \<open>int\<close> into a buffer of 32 bytes, which always suffices.\<close>

definition int_to_string :: "int \<Rightarrow> string" where
  "int_to_string i = snprintf_buf 32 (show_int i)"

lemma int_to_string_eq:
  assumes "- (2 ^ 31) \<le> i" "i < 2 ^ 31"
  shows "int_to_string i = show_int i"
proof -
  have small: "n < 10 ^ 10 \<Longrightarrow> length (show_nat n) \<le> 10" for n by (rule show_nat_length) simp
  have "nat i < 10 ^ 10" "nat (- i) < 10 ^ 10" using assms by simp_all
  from small [OF this(1)] small [OF this(2)] have "length (show_int i) \<le> 31"
    by (simp add: show_int_def)
  then show ?thesis by (simp add: int_to_string_def snprintf_buf_def)
qed

subsection \<open>HTTP dates\<close>

text \<open>
  \<open>gmtime_r\<close>: the civil date of a day number counted from 1 January 1970, in the proleptic Gregorian
  calendar (years that start in March make the leap day the last day).
\<close>

definition civil :: "int \<Rightarrow> int \<times> int \<times> int" where
  "civil days =
     (let z = days + 719468; era = z div 146097; doe = z mod 146097;
          yoe = (doe - doe div 1460 + doe div 36524 - doe div 146096) div 365;
          doy = doe - (365 * yoe + yoe div 4 - yoe div 100);
          mp = (5 * doy + 2) div 153;
          d = doy - (153 * mp + 2) div 5 + 1;
          m = (if mp < 10 then mp + 3 else mp - 9)
      in (yoe + era * 400 + (if m \<le> 2 then 1 else 0), m, d))"

definition two_digits :: "int \<Rightarrow> string" where
  "two_digits n = [digit_char (nat n div 10 mod 10), digit_char (nat n mod 10)]"

definition day_name :: "int \<Rightarrow> string" where
  "day_name d = [''Sun'', ''Mon'', ''Tue'', ''Wed'', ''Thu'', ''Fri'', ''Sat''] ! nat (d mod 7)"

definition month_name :: "int \<Rightarrow> string" where
  "month_name m = [''Jan'', ''Feb'', ''Mar'', ''Apr'', ''May'', ''Jun'', ''Jul'', ''Aug'', ''Sep'',
     ''Oct'', ''Nov'', ''Dec''] ! nat ((m - 1) mod 12)"

text \<open>The text \<open>strftime\<close> forms for \<open>%a, %d %b %Y %H:%M:%S GMT\<close>.\<close>

definition imf_fixdate :: "int \<Rightarrow> string" where
  "imf_fixdate t =
     (let days = t div 86400; secs = t mod 86400; (y, m, d) = civil days
      in day_name (days + 4) @ '', '' @ two_digits d @ '' '' @ month_name m @ '' '' @ show_int y
         @ '' '' @ two_digits (secs div 3600) @ '':'' @ two_digits (secs div 60 mod 60) @ '':''
         @ two_digits (secs mod 60) @ '' GMT'')"

text \<open>
  \<open>strftime\<close> into a buffer of \<open>len\<close> bytes: when text and NUL do not fit, the buffer's contents are
  unspecified.
\<close>

definition get_http_date_time_t :: "nat \<Rightarrow> int \<Rightarrow> string result" where
  "get_http_date_time_t len t =
     (if length (imf_fixdate t) < len then Inr (imf_fixdate t) else Inl Uninitialised)"

definition get_http_date_now :: "nat \<Rightarrow> int \<Rightarrow> string result" where
  "get_http_date_now len now =
     (if length (imf_fixdate now) < len then Inr (imf_fixdate now) else Inl Uninitialised)"

lemma length_day_name [simp]: "length (day_name d) = 3"
proof -
  let ?names = "[''Sun'', ''Mon'', ''Tue'', ''Wed'', ''Thu'', ''Fri'', ''Sat'']"
  have "?names ! nat (d mod 7) \<in> set ?names" by (intro nth_mem) (simp add: nat_less_iff)
  moreover have "\<forall>s \<in> set ?names. length s = 3" by simp
  ultimately show ?thesis unfolding day_name_def by blast
qed

lemma length_month_name [simp]: "length (month_name m) = 3"
proof -
  let ?names = "[''Jan'', ''Feb'', ''Mar'', ''Apr'', ''May'', ''Jun'', ''Jul'', ''Aug'', ''Sep'',
     ''Oct'', ''Nov'', ''Dec'']"
  have "?names ! nat ((m - 1) mod 12) \<in> set ?names" by (intro nth_mem) (simp add: nat_less_iff)
  moreover have "\<forall>s \<in> set ?names. length s = 3" by simp
  ultimately show ?thesis unfolding month_name_def by blast
qed

text \<open>The days of a 400-year era, less the leap-day corrections.\<close>

lemma doe_corrected:
  fixes doe :: int
  assumes "0 \<le> doe" "doe < 146097"
  defines "n \<equiv> doe - doe div 1460 + doe div 36524 - doe div 146096"
  shows "0 \<le> n" "n < 146000" "145635 \<le> n \<Longrightarrow> 145731 \<le> doe"
proof -
  have "0 \<le> n \<and> n < 146000 \<and> (145635 \<le> n \<longrightarrow> 145731 \<le> doe)"
  proof (cases "doe = 146096")
    case True
    then show ?thesis by (simp add: n_def)
  next
    case False
    then have c: "doe div 146096 = 0" using assms(1,2) by simp
    define a where "a = doe div 1460"
    define b where "b = doe div 36524"
    define r where "r = doe mod 1460"
    have doe: "doe = 1460 * a + r" "0 \<le> r" "r < 1460" "0 \<le> a"
      using assms(1) by (simp_all add: a_def r_def)
    have b: "0 \<le> b" "b \<le> 3" using assms(1,2) False by (simp_all add: b_def)
    have n: "n = doe - a + b" using c by (simp add: n_def a_def b_def)
    show ?thesis
    proof (cases "a \<le> 98")
      case True
      with doe b n show ?thesis by (intro conjI impI; linarith)
    next
      case False
      with doe b n assms(2) \<open>doe \<noteq> 146096\<close> show ?thesis by (intro conjI impI; linarith)
    qed
  qed
  then show "0 \<le> n" "n < 146000" "145635 \<le> n \<Longrightarrow> 145731 \<le> doe" by simp_all
qed

lemma civil_year_bounds:
  assumes "0 \<le> days" "days \<le> 2932896" "civil days = (y, m, d)"
  shows "1000 \<le> y \<and> y \<le> 9999"
proof -
  define z where "z = days + 719468"
  define era where "era = z div 146097"
  define doe where "doe = z mod 146097"
  define yoe where "yoe = (doe - doe div 1460 + doe div 36524 - doe div 146096) div 365"
  define doy where "doy = doe - (365 * yoe + yoe div 4 - yoe div 100)"
  define mp where "mp = (5 * doy + 2) div 153"
  have y: "y = yoe + era * 400 + (if (if mp < 10 then mp + 3 else mp - 9) \<le> 2 then 1 else 0)"
  proof -
    have "y = fst (civil days)" using assms(3) by simp
    then show ?thesis
      by (simp only: civil_def Let_def fst_conv z_def era_def doe_def yoe_def doy_def mp_def)
  qed
  have zb: "719468 \<le> z" "z \<le> 3652364" using assms by (simp_all add: z_def)
  have zdm: "z = era * 146097 + doe" by (simp add: era_def doe_def)
  have db: "0 \<le> doe" "doe < 146097" by (simp_all add: doe_def)
  have eb: "4 \<le> era" "era \<le> 24" using zdm db zb by linarith+
  note dc = doe_corrected [OF db]
  have yb: "0 \<le> yoe" "yoe \<le> 399" unfolding yoe_def using dc(1,2) by linarith+
  show ?thesis
  proof (cases "era = 24 \<and> yoe = 399")
    case False
    then show ?thesis using y eb yb by auto
  next
    case True
    then have "doe \<le> 146036" using zdm zb by simp
    then have "doy \<le> 305" using True by (simp add: doy_def)
    then have "mp < 10" by (simp add: mp_def)
    moreover have "0 \<le> mp"
    proof -
      have "145635 \<le> doe - doe div 1460 + doe div 36524 - doe div 146096"
        using True unfolding yoe_def by linarith
      then have "145731 \<le> doe" by (rule dc(3))
      then show ?thesis using True by (simp add: mp_def doy_def)
    qed
    ultimately show ?thesis using y True by simp
  qed
qed

lemma length_show_nat4:
  assumes "1000 \<le> n" "n \<le> 9999"
  shows "length (show_nat n) = 4"
proof -
  have "\<not> n < 10" "\<not> n div 10 < 10" "\<not> n div 10 div 10 < 10" "n div 10 div 10 div 10 < 10"
    using assms by linarith+
  then show ?thesis
    by (simp only: show_nat.simps [of n] show_nat.simps [of "n div 10"]
        show_nat.simps [of "n div 10 div 10"] show_nat.simps [of "n div 10 div 10 div 10"]
        if_True if_False) simp
qed

lemma length_imf_fixdate:
  assumes "0 \<le> t" "t \<le> 253402300799"
  shows "length (imf_fixdate t) = 29"
proof -
  obtain y m d where c: "civil (t div 86400) = (y, m, d)" by (cases "civil (t div 86400)")
  have "0 \<le> t div 86400" "t div 86400 \<le> 2932896" using assms by simp_all
  from civil_year_bounds [OF this c] have "\<not> y < 0" "1000 \<le> nat y" "nat y \<le> 9999" by linarith+
  then have "length (show_int y) = 4" by (simp only: show_int_def length_show_nat4 if_False)
  with c show ?thesis by (simp add: imf_fixdate_def Let_def two_digits_def)
qed

text \<open>
  For every time from 1970 to the last second of the year 9999 the date text has
  29 characters, so it fits the 30-byte buffers the response code passes.
\<close>

theorem http_date_fits:
  assumes "0 \<le> t" "t \<le> 253402300799"
  shows "get_http_date_time_t 30 t = Inr (imf_fixdate t) \<and> length (imf_fixdate t) = 29"
  using length_imf_fixdate [OF assms] by (simp add: get_http_date_time_t_def)

theorem http_date_fits_witness:
  "get_http_date_time_t 30 784111777 = Inr ''Sun, 06 Nov 1994 08:49:37 GMT''"
proof -
  have "imf_fixdate 784111777 = ''Sun, 06 Nov 1994 08:49:37 GMT''"
    by code_simp
  then show ?thesis using http_date_fits [of 784111777] by simp
qed

subsection \<open>Request headers\<close>

definition header_key :: "http1_req_t \<Rightarrow> nat \<Rightarrow> string" where
  "header_key h1 i = kv_key (zget zero_kv (h1_headers h1) i)"

definition header_value :: "http1_req_t \<Rightarrow> nat \<Rightarrow> string" where
  "header_value h1 i = kv_value (zget zero_kv (h1_headers h1) i)"

definition find_header :: "http1_req_t \<Rightarrow> string \<Rightarrow> nat option" where
  "find_header h1 name = find (\<lambda>i. strcasecmp_eq (header_key h1 i) name) [0..<h1_header_count h1]"

definition confirm_header_exists :: "request_ctx_t \<Rightarrow> string \<Rightarrow> bool" where
  "confirm_header_exists ctx name = (find_header (ctx_h1 ctx) name \<noteq> None)"

definition get_header_value :: "request_ctx_t \<Rightarrow> string \<Rightarrow> string option" where
  "get_header_value ctx name = map_option (header_value (ctx_h1 ctx)) (find_header (ctx_h1 ctx) name)"

interpretation hdr: keyed_table strcasecmp_eq "header_key h1" for h1
  by unfold_locales (auto intro: strcasecmp_eq_sym strcasecmp_eq_trans)

text \<open>
  The header search ignores letter case in the name asked for, finds the first
  header whose name matches, and \<open>confirm_header_exists\<close> is true exactly when \<open>get_header_value\<close>
  is not null.
\<close>

theorem header_lookup_spec:
  "(strcasecmp_eq name name' \<longrightarrow> get_header_value ctx name = get_header_value ctx name')
   \<and> (confirm_header_exists ctx name \<longleftrightarrow> get_header_value ctx name \<noteq> None)
   \<and> (get_header_value ctx name = Some v \<longrightarrow>
        (\<exists>i < h1_header_count (ctx_h1 ctx). strcasecmp_eq (header_key (ctx_h1 ctx) i) name
           \<and> v = header_value (ctx_h1 ctx) i
           \<and> (\<forall>j < i. \<not> strcasecmp_eq (header_key (ctx_h1 ctx) j) name)))"
proof (intro conjI impI)
  show "get_header_value ctx name = get_header_value ctx name'" if "strcasecmp_eq name name'"
    unfolding get_header_value_def find_header_def hdr.lookup_cong [OF that] ..
  show "confirm_header_exists ctx name \<longleftrightarrow> get_header_value ctx name \<noteq> None"
    by (simp add: confirm_header_exists_def get_header_value_def)
  show "\<exists>i < h1_header_count (ctx_h1 ctx). strcasecmp_eq (header_key (ctx_h1 ctx) i) name
           \<and> v = header_value (ctx_h1 ctx) i
           \<and> (\<forall>j < i. \<not> strcasecmp_eq (header_key (ctx_h1 ctx) j) name)"
    if "get_header_value ctx name = Some v"
    using that by (auto simp: get_header_value_def find_header_def find_Some_iff)
qed

theorem header_lookup_spec_witness:
  "get_header_value (zero_ctx zero_conn 0) ''Host'' = get_header_value (zero_ctx zero_conn 0) ''hOST''"
proof -
  have "strcasecmp_eq ''Host'' ''hOST''" by code_simp
  then show ?thesis using header_lookup_spec [of "''Host''" "''hOST''" "zero_ctx zero_conn 0"] by blast
qed

end
