(* ===== verification/Config.thy ===== *)
theory Config
  imports Util
begin

text \<open>
  The configuration file (\<open>src/config.c\<close>, \<open>src/config.h\<close>): the record of settings with its defaults,
  the map from keys to fields, line splitting and trimming, the three value parsers, the
  post-processing of queue sizes and of the lock path, first start and reload.
\<close>

subsection \<open>Settings\<close>

definition PATH_MAX :: nat where "PATH_MAX = 4096"
definition MAX_NAME_LEN :: nat where "MAX_NAME_LEN = 256"

record config_data =
  http_port :: u16
  https_port :: u16
  server_tok :: string
  server_user :: string
  server_group :: string
  max_url_size :: u16
  max_rx_header :: u16
  max_tx_header :: u16
  keepalive_timeout :: u16
  dir_listing :: bool
  tls_cert_path :: string
  tls_key_path :: string
  log_queue_size :: u16
  conn_queue_size :: u16
  worker_threads :: u16
  access_log :: string
  event_log :: string
  doc_root :: string
  lock_file_path :: string

text \<open>
  \<open>load_config_defaults\<close> sets every field but \<open>dir_listing\<close>, which keeps what the memory held; a
  string field receives what \<open>strncpy\<close> leaves of a short literal.
\<close>

definition load_config_defaults :: "int \<Rightarrow> config_data \<Rightarrow> config_data" where
  "load_config_defaults sysconf_answer cd = cd\<lparr>
     http_port := 80,
     https_port := 443,
     worker_threads := word_of_int (get_ncpu sysconf_answer * 2),
     conn_queue_size := 256,
     log_queue_size := 256,
     access_log := ''/var/log/celeritas/access_log'',
     event_log := ''/var/log/celeritas/event_log'',
     doc_root := ''/var/www/html'',
     lock_file_path := ''/var/run/'',
     server_tok := ''Celeritas/0.10.2'',
     tls_cert_path := ''/etc/ssl/celeritas.crt'',
     tls_key_path := ''/etc/ssl/celeritas.key'',
     server_user := ''www'',
     server_group := ''www'',
     max_rx_header := 8192,
     max_tx_header := 8192,
     max_url_size := 2048,
     keepalive_timeout := 10\<rparr>"

definition zero_config :: config_data where
  "zero_config = \<lparr>http_port = 0, https_port = 0, server_tok = [], server_user = [], server_group = [],
     max_url_size = 0, max_rx_header = 0, max_tx_header = 0, keepalive_timeout = 0, dir_listing = False,
     tls_cert_path = [], tls_key_path = [], log_queue_size = 0, conn_queue_size = 0, worker_threads = 0,
     access_log = [], event_log = [], doc_root = [], lock_file_path = []\<rparr>"

subsection \<open>The key map\<close>

datatype cfg_type_t = CFG_UINT16 | CFG_STRING | CFG_BOOL

text \<open>\<open>offsetof(config_data, f)\<close>, by name.\<close>

datatype cfg_field_t =
    F_http_port | F_https_port | F_worker_threads | F_max_url_size | F_max_rx_header | F_max_tx_header
  | F_dir_listing | F_access_log | F_event_log | F_doc_root | F_lock_file_path | F_tls_cert_path
  | F_tls_key_path | F_log_queue_size | F_conn_queue_size | F_server_user | F_server_group

record config_mapping_t =
  cm_key :: string
  cm_type :: cfg_type_t
  cm_field :: cfg_field_t
  cm_max_len :: nat

definition cfg_map :: "config_mapping_t list" where
  "cfg_map =
     [\<lparr>cm_key = ''http_port'',          cm_type = CFG_UINT16, cm_field = F_http_port,       cm_max_len = 0\<rparr>,
      \<lparr>cm_key = ''https_port'',         cm_type = CFG_UINT16, cm_field = F_https_port,      cm_max_len = 0\<rparr>,
      \<lparr>cm_key = ''worker_threads'',     cm_type = CFG_UINT16, cm_field = F_worker_threads,  cm_max_len = 0\<rparr>,
      \<lparr>cm_key = ''max_url_size'',       cm_type = CFG_UINT16, cm_field = F_max_url_size,    cm_max_len = 0\<rparr>,
      \<lparr>cm_key = ''max_rx_header_size'', cm_type = CFG_UINT16, cm_field = F_max_rx_header,   cm_max_len = 0\<rparr>,
      \<lparr>cm_key = ''max_tx_header_size'', cm_type = CFG_UINT16, cm_field = F_max_tx_header,   cm_max_len = 0\<rparr>,
      \<lparr>cm_key = ''dir_listing'',        cm_type = CFG_BOOL,   cm_field = F_dir_listing,     cm_max_len = 0\<rparr>,
      \<lparr>cm_key = ''access_log'',         cm_type = CFG_STRING, cm_field = F_access_log,      cm_max_len = PATH_MAX\<rparr>,
      \<lparr>cm_key = ''event_log'',          cm_type = CFG_STRING, cm_field = F_event_log,       cm_max_len = PATH_MAX\<rparr>,
      \<lparr>cm_key = ''doc_root'',           cm_type = CFG_STRING, cm_field = F_doc_root,        cm_max_len = PATH_MAX\<rparr>,
      \<lparr>cm_key = ''lock_file_path'',     cm_type = CFG_STRING, cm_field = F_lock_file_path,  cm_max_len = PATH_MAX\<rparr>,
      \<lparr>cm_key = ''tls_cert_path'',      cm_type = CFG_STRING, cm_field = F_tls_cert_path,   cm_max_len = PATH_MAX\<rparr>,
      \<lparr>cm_key = ''tls_key_path'',       cm_type = CFG_STRING, cm_field = F_tls_key_path,    cm_max_len = PATH_MAX\<rparr>,
      \<lparr>cm_key = ''log_queue_size'',     cm_type = CFG_UINT16, cm_field = F_log_queue_size,  cm_max_len = 0\<rparr>,
      \<lparr>cm_key = ''conn_queue_size'',    cm_type = CFG_UINT16, cm_field = F_conn_queue_size, cm_max_len = 0\<rparr>,
      \<lparr>cm_key = ''server_user'',        cm_type = CFG_STRING, cm_field = F_server_user,     cm_max_len = MAX_NAME_LEN\<rparr>,
      \<lparr>cm_key = ''server_group'',       cm_type = CFG_STRING, cm_field = F_server_group,    cm_max_len = MAX_NAME_LEN\<rparr>]"

text \<open>
  Stores through the computed address.  The map pairs each type with fields of that type
  (\<open>cfg_map_typed\<close> below); another pairing would be a stray write and stores nothing here.
\<close>

fun set_u16 :: "cfg_field_t \<Rightarrow> u16 \<Rightarrow> config_data \<Rightarrow> config_data" where
  "set_u16 F_http_port v cd = cd\<lparr>http_port := v\<rparr>"
| "set_u16 F_https_port v cd = cd\<lparr>https_port := v\<rparr>"
| "set_u16 F_worker_threads v cd = cd\<lparr>worker_threads := v\<rparr>"
| "set_u16 F_max_url_size v cd = cd\<lparr>max_url_size := v\<rparr>"
| "set_u16 F_max_rx_header v cd = cd\<lparr>max_rx_header := v\<rparr>"
| "set_u16 F_max_tx_header v cd = cd\<lparr>max_tx_header := v\<rparr>"
| "set_u16 F_log_queue_size v cd = cd\<lparr>log_queue_size := v\<rparr>"
| "set_u16 F_conn_queue_size v cd = cd\<lparr>conn_queue_size := v\<rparr>"
| "set_u16 _ v cd = cd"

fun set_string :: "cfg_field_t \<Rightarrow> string \<Rightarrow> config_data \<Rightarrow> config_data" where
  "set_string F_access_log v cd = cd\<lparr>access_log := v\<rparr>"
| "set_string F_event_log v cd = cd\<lparr>event_log := v\<rparr>"
| "set_string F_doc_root v cd = cd\<lparr>doc_root := v\<rparr>"
| "set_string F_lock_file_path v cd = cd\<lparr>lock_file_path := v\<rparr>"
| "set_string F_tls_cert_path v cd = cd\<lparr>tls_cert_path := v\<rparr>"
| "set_string F_tls_key_path v cd = cd\<lparr>tls_key_path := v\<rparr>"
| "set_string F_server_user v cd = cd\<lparr>server_user := v\<rparr>"
| "set_string F_server_group v cd = cd\<lparr>server_group := v\<rparr>"
| "set_string _ v cd = cd"

fun set_bool :: "cfg_field_t \<Rightarrow> bool \<Rightarrow> config_data \<Rightarrow> config_data" where
  "set_bool F_dir_listing v cd = cd\<lparr>dir_listing := v\<rparr>"
| "set_bool _ v cd = cd"

subsection \<open>Errors\<close>

text \<open>
  A step of the server process: it exits with a message on standard error, it runs into undefined
  behaviour, or it goes on.
\<close>

datatype 'a proc = Exits int string | Faults fault | Continues 'a

fun bindP :: "'a proc \<Rightarrow> ('a \<Rightarrow> 'b proc) \<Rightarrow> 'b proc" where
  "bindP (Exits n m) f = Exits n m"
| "bindP (Faults e) f = Faults e"
| "bindP (Continues x) f = f x"

text \<open>The configuration being filled and the event-log lines written so far.\<close>

type_synonym cfg_state = "config_data \<times> (log_level_t \<times> string) list"

definition handle_cfg_error :: "bool \<Rightarrow> string \<Rightarrow> cfg_state \<Rightarrow> cfg_state proc" where
  "handle_cfg_error is_first_run msg st =
     (let buf = snprintf_buf 512 msg
      in if is_first_run then Exits 1 (''Fatal Config Error: '' @ buf)
         else Continues (fst st, snd st @ [(L_ERROR, ''Config Error: '' @ buf @ ''. Using original value.'')]))"

definition line_msg :: "nat \<Rightarrow> string \<Rightarrow> string" where
  "line_msg n m = ''Line '' @ show_nat n @ '': '' @ m"

subsection \<open>Lines\<close>

text \<open>
  \<open>fgets\<close> with room for 1023 bytes: up to and with the next newline, or 1023 bytes without one.
\<close>

fun fgets_take :: "nat \<Rightarrow> string \<Rightarrow> string" where
  "fgets_take 0 cs = []"
| "fgets_take (Suc n) [] = []"
| "fgets_take (Suc n) (c # cs) = (if c = LF then [c] else c # fgets_take n cs)"

lemma fgets_take_pos: "0 < n \<Longrightarrow> s \<noteq> [] \<Longrightarrow> fgets_take n s \<noteq> []"
  by (cases n; cases s) auto

function file_lines :: "string \<Rightarrow> string list" where
  "file_lines s =
     (if s = [] then []
      else fgets_take 1023 s # file_lines (drop (length (fgets_take 1023 s)) s))"
  by pat_completeness auto

termination
proof (relation "measure length")
  fix s :: string
  assume "s \<noteq> []"
  then have "fgets_take 1023 s \<noteq> []" by (intro fgets_take_pos) auto
  with \<open>s \<noteq> []\<close> show "(drop (length (fgets_take 1023 s)) s, s) \<in> measure length"
    by (cases s) auto
qed simp

declare file_lines.simps [simp del]

definition trim_whitespace :: "string \<Rightarrow> string" where
  "trim_whitespace str =
     (let t = dropWhile isspace str
      in if t = [] then [] else rev (dropWhile isspace (rev t)))"

text \<open>One value stored under its map entry.\<close>

definition store_value :: "bool \<Rightarrow> nat \<Rightarrow> config_mapping_t \<Rightarrow> string \<Rightarrow> cfg_state \<Rightarrow> cfg_state proc" where
  "store_value first n e v st =
     (case cm_type e of
        CFG_STRING \<Rightarrow>
          if length v \<ge> cm_max_len e
          then handle_cfg_error first (line_msg n (''String too long for '' @ [CHR 0x27] @ cm_key e @ [CHR 0x27])) st
          else Continues (set_string (cm_field e) v (fst st), snd st)
      | CFG_UINT16 \<Rightarrow>
          (let (val, range_error, endptr) = strtol10 v
           in if range_error \<or> endptr \<noteq> [] \<or> val < 0 \<or> val > 65535
              then handle_cfg_error first (line_msg n (''Invalid uint16_t for '' @ [CHR 0x27] @ cm_key e @ [CHR 0x27])) st
              else Continues (set_u16 (cm_field e) (word_of_int val) (fst st), snd st))
      | CFG_BOOL \<Rightarrow>
          if strcasecmp_eq v ''true'' \<or> strcmp_eq v ''1'' then Continues (set_bool (cm_field e) True (fst st), snd st)
          else if strcasecmp_eq v ''false'' \<or> strcmp_eq v ''0'' then Continues (set_bool (cm_field e) False (fst st), snd st)
          else handle_cfg_error first (line_msg n (''Invalid boolean for '' @ [CHR 0x27] @ cm_key e @ [CHR 0x27])) st)"

text \<open>One pass of the line loop.\<close>

definition parse_line :: "bool \<Rightarrow> nat \<Rightarrow> string \<Rightarrow> cfg_state \<Rightarrow> cfg_state proc" where
  "parse_line first n raw st =
     (let line = takeWhile (\<lambda>c. c \<noteq> CR \<and> c \<noteq> LF) (cstr raw);
          trimmed_line = trim_whitespace line
      in if trimmed_line = [] \<or> hd trimmed_line = CHR ''#'' then Continues st
         else (case strchr trimmed_line (CHR ''='') of
             None \<Rightarrow> handle_cfg_error first (line_msg n (''Missing '' @ [CHR 0x27] @ ''='' @ [CHR 0x27] @ '' delimiter'')) st
           | Some delim \<Rightarrow>
               let k = trim_whitespace (takeWhile (\<lambda>c. c \<noteq> CHR ''='') trimmed_line);
                   value_str = trim_whitespace (tl delim)
               in (case find (\<lambda>e. strcmp_eq (cm_key e) k) cfg_map of
                     Some e \<Rightarrow> store_value first n e value_str st
                   | None \<Rightarrow> handle_cfg_error first
                       (line_msg n (''Unknown configuration key '' @ [CHR 0x27] @ k @ [CHR 0x27])) st)))"

fun parse_lines :: "bool \<Rightarrow> nat \<Rightarrow> string list \<Rightarrow> cfg_state \<Rightarrow> cfg_state proc" where
  "parse_lines first n [] st = Continues st"
| "parse_lines first n (l # ls) st =
     bindP (parse_line first (n + 1) l st) (parse_lines first (n + 1) ls)"

subsection \<open>Post-processing\<close>

text \<open>
  A queue size is rounded up as a 32-bit number and stored back in 16 bits.  The last character of
  the lock path is looked up with no test for the empty string.
\<close>

definition post_process :: "config_data \<Rightarrow> config_data proc" where
  "post_process conf =
     (let c1 = conf\<lparr>log_queue_size := ucast (next_power_of_2 (ucast (log_queue_size conf)))\<rparr>;
          c2 = c1\<lparr>conn_queue_size := ucast (next_power_of_2 (ucast (conn_queue_size c1)))\<rparr>;
          p = lock_file_path c2
      in if p = [] then Faults OutOfBounds
         else if last p \<noteq> CHR ''/'' then Continues (c2\<lparr>lock_file_path := butlast p\<rparr>)
         else Continues c2)"

text \<open>\<open>None\<close> is a file that cannot be opened; \<open>why\<close> is then the text of \<open>strerror(errno)\<close>.\<close>

definition parse_and_validate_config_file ::
  "string \<Rightarrow> string option \<Rightarrow> string \<Rightarrow> bool \<Rightarrow> cfg_state \<Rightarrow> (bool \<times> cfg_state) proc" where
  "parse_and_validate_config_file path file why first st =
     (case file of
        None \<Rightarrow> bindP (handle_cfg_error first (''Cannot open '' @ path @ '': '' @ why) st)
                 (\<lambda>st'. Continues (False, st'))
      | Some bytes \<Rightarrow>
          bindP (parse_lines first 0 (file_lines bytes) st) (\<lambda>st'.
            bindP (post_process (fst st')) (\<lambda>c. Continues (True, c, snd st'))))"

subsection \<open>First start and reload\<close>

text \<open>
  The first start: whether the attributes of the lock, the lock and the zeroed record can be had, then
  the file.  \<open>early_fatal\<close> prints its message and exits with status 1.
\<close>

definition init_config ::
  "bool \<times> bool \<times> bool \<Rightarrow> string \<Rightarrow> string option \<Rightarrow> string \<Rightarrow> int \<Rightarrow> config_data proc" where
  "init_config oks path file why sysconf_answer =
     (let (attr_ok, lock_ok, calloc_ok) = oks
      in if \<not> attr_ok then Exits 1 ''Failed to initialize rwlock attributes''
         else if \<not> lock_ok then Exits 1 ''Failed to initialize configuration rwlock''
         else if \<not> calloc_ok then Exits 1 ''Failed to allocate memory for configuration''
         else bindP (parse_and_validate_config_file path file why True
                       (load_config_defaults sysconf_answer zero_config, []))
                (\<lambda>r. Continues (fst (snd r))))"

text \<open>
  A reload: \<open>fresh\<close> is the uninitialised record \<open>malloc\<close> returns (\<open>None\<close> when it fails); the result is
  the record in force afterwards.
\<close>

definition reload_configuration ::
  "string \<Rightarrow> string option \<Rightarrow> string \<Rightarrow> int \<Rightarrow> config_data option \<Rightarrow> cfg_state \<Rightarrow> cfg_state proc" where
  "reload_configuration path file why sysconf_answer fresh st =
     (case fresh of
        None \<Rightarrow> Continues (fst st, snd st @ [(L_ERROR, ''Malloc failed parsing new config!'')])
      | Some g \<Rightarrow>
          bindP (parse_and_validate_config_file path file why False
                   (load_config_defaults sysconf_answer g, snd st))
            (\<lambda>(ok, conf, lg). Continues (if ok then conf else fst st, lg)))"

subsection \<open>The map is consistent\<close>

fun field_type :: "cfg_field_t \<Rightarrow> cfg_type_t" where
  "field_type F_dir_listing = CFG_BOOL"
| "field_type f = (if f \<in> {F_access_log, F_event_log, F_doc_root, F_lock_file_path, F_tls_cert_path,
      F_tls_key_path, F_server_user, F_server_group} then CFG_STRING else CFG_UINT16)"

lemma cfg_map_typed: "\<forall>e \<in> set cfg_map. cm_type e = field_type (cm_field e)"
  by (simp add: cfg_map_def)

lemma cfg_keys_plain:
  "\<forall>k \<in> set (map cm_key cfg_map). k \<noteq> [] \<and> hd k \<noteq> CHR ''#''
     \<and> (\<forall>c \<in> set k. \<not> isspace c \<and> c \<noteq> CHR ''='' \<and> c \<noteq> NUL)"
  by (simp add: cfg_map_def isspace_def)

lemma cfg_key_plain:
  assumes "e \<in> set cfg_map"
  shows "cm_key e \<noteq> []" "hd (cm_key e) \<noteq> CHR ''#''"
    "\<forall>c \<in> set (cm_key e). \<not> isspace c \<and> c \<noteq> CHR ''='' \<and> c \<noteq> NUL"
  using cfg_keys_plain assms by auto

lemma cfg_keys_distinct: "distinct (map cm_key cfg_map)"
  by (simp add: cfg_map_def)

lemma cfg_map_distinct:
  "\<forall>e1 \<in> set cfg_map. \<forall>e2 \<in> set cfg_map. strcmp_eq (cm_key e1) (cm_key e2) \<longrightarrow> e1 = e2"
proof (intro ballI impI)
  fix e1 e2
  assume e: "e1 \<in> set cfg_map" "e2 \<in> set cfg_map" and eq: "strcmp_eq (cm_key e1) (cm_key e2)"
  have "NUL \<notin> set (cm_key e1)" "NUL \<notin> set (cm_key e2)" using cfg_key_plain(3) e by blast+
  with eq have "cm_key e1 = cm_key e2" by (simp add: strcmp_eq_def cstr_id)
  with e cfg_keys_distinct show "e1 = e2" by (auto simp: distinct_map dest: inj_onD)
qed

interpretation cfg: keyed_table strcmp_eq cm_key
  by unfold_locales (simp_all add: strcmp_eq_def)

subsection \<open>Trimming\<close>

definition trimmed :: "string \<Rightarrow> bool" where
  "trimmed v \<longleftrightarrow> v = [] \<or> \<not> isspace (hd v) \<and> \<not> isspace (last v)"

lemma trim_padded:
  assumes "trimmed v" "\<forall>c \<in> set a. isspace c" "\<forall>c \<in> set b. isspace c"
  shows "trim_whitespace (a @ v @ b) = v"
proof (cases "v = []")
  case True
  then have "dropWhile isspace (a @ v @ b) = []" using assms by (auto simp: dropWhile_eq_Nil_conv)
  with True show ?thesis by (simp add: trim_whitespace_def)
next
  case False
  then obtain c w where v: "v = c # w" by (cases v) auto
  have "dropWhile isspace (a @ v @ b) = v @ b"
    using assms by (simp add: v trimmed_def)
  moreover have "rev v = last v # rev (butlast v)"
    using False by (metis append_butlast_last_id rev_eq_Cons_iff rev_rev_ident)
  then have "dropWhile isspace (rev v) = rev v" using assms(1) False
    by (simp add: dropWhile_eq_self_iff hd_rev trimmed_def)
  then have "dropWhile isspace (rev b @ rev v) = rev v"
    using assms(3) by (subst dropWhile_append2) auto
  ultimately show ?thesis using False by (simp add: trim_whitespace_def)
qed

lemma trimmed_key: "e \<in> set cfg_map \<Longrightarrow> trimmed (cm_key e)"
proof -
  assume "e \<in> set cfg_map"
  then have "cm_key e \<noteq> []" "\<forall>c \<in> set (cm_key e). \<not> isspace c" using cfg_key_plain by blast+
  then show ?thesis unfolding trimmed_def using hd_in_set last_in_set by blast
qed

text \<open>Blanks that may stand around a key and a value: white space other than a line end.\<close>

definition blanks :: "string \<Rightarrow> bool" where
  "blanks w \<longleftrightarrow> (\<forall>c \<in> set w. isspace c \<and> c \<noteq> CR \<and> c \<noteq> LF)"

lemma blanks_space: "blanks w \<Longrightarrow> \<forall>c \<in> set w. isspace c"
  by (simp add: blanks_def)

definition plain_value :: "string \<Rightarrow> bool" where
  "plain_value v \<longleftrightarrow> trimmed v \<and> CR \<notin> set v \<and> LF \<notin> set v \<and> NUL \<notin> set v"

lemma isspace_not_eq [simp]: "\<not> isspace (CHR ''='')" "\<not> isspace NUL" "\<not> isspace (CHR ''#'')"
  by (simp_all add: isspace_def)

lemma isspace_line: "isspace CR" "isspace LF"
  by (simp_all add: isspace_def)

lemma blanks_clean:
  assumes "blanks w"
  shows "CR \<notin> set w" "LF \<notin> set w" "NUL \<notin> set w" "CHR ''='' \<notin> set w"
  using assms by (auto simp: blanks_def dest: isspace_not_eq [THEN notE, rotated])

lemma config_line_gen:
  assumes "e \<in> set cfg_map" "blanks a" "blanks b" "blanks c" "blanks d" "plain_value v"
    and "nl \<in> {[], [LF], CRLF}"
  shows "parse_line first n (a @ cm_key e @ b @ ''='' @ c @ v @ d @ nl) st = store_value first n e v st"
proof -
  let ?body = "a @ cm_key e @ b @ ''='' @ c @ v @ d"
  have key: "cm_key e \<noteq> []" "hd (cm_key e) \<noteq> CHR ''#''" and kc: "\<forall>x \<in> set (cm_key e). \<not> isspace x \<and> x \<noteq> CHR ''='' \<and> x \<noteq> NUL"
    using cfg_key_plain [OF assms(1)] by blast+
  have clean: "CR \<notin> set ?body" "LF \<notin> set ?body" "NUL \<notin> set ?body"
    using blanks_clean [OF assms(2)] blanks_clean [OF assms(3)] blanks_clean [OF assms(4)]
      blanks_clean [OF assms(5)] assms(6) kc isspace_line
    by (auto simp: plain_value_def simp del: isspace_not_eq)
  have "NUL \<notin> set (?body @ nl)" using clean(3) assms(7) by auto
  then have "cstr (?body @ nl) = ?body @ nl" by (rule cstr_id)
  moreover have "takeWhile (\<lambda>c. c \<noteq> CR \<and> c \<noteq> LF) (?body @ nl) = ?body"
    using clean assms(7) by (subst takeWhile_append2) (auto simp: in_set_conv_decomp)
  ultimately have line: "takeWhile (\<lambda>c. c \<noteq> CR \<and> c \<noteq> LF) (cstr (?body @ nl)) = ?body" by simp
  let ?val = "if v = [] then [] else c @ v"
  let ?t = "cm_key e @ b @ ''='' @ ?val"
  have "trimmed ?t"
    using trimmed_key [OF assms(1)] key assms(6) by (auto simp: trimmed_def plain_value_def)
  moreover have "?body = a @ ?t @ (if v = [] then c @ d else d)" by simp
  moreover have "\<forall>x \<in> set (if v = [] then c @ d else d). isspace x"
    using assms(4,5) by (auto simp: blanks_def)
  ultimately have trim: "trim_whitespace ?body = ?t"
    using trim_padded [of ?t a "if v = [] then c @ d else d"] blanks_space [OF assms(2)] by metis
  have hd: "?t \<noteq> []" "hd ?t \<noteq> CHR ''#''" using key by auto
  have noeq: "CHR ''='' \<notin> set (cm_key e @ b)"
    using kc blanks_clean(4) [OF assms(3)] by auto
  have "NUL \<notin> set ?t" using clean(3) by (auto split: if_splits)
  then have "cstr ?t = ?t" by (rule cstr_id)
  moreover have dw: "dropWhile (\<lambda>x. x \<noteq> CHR ''='') (cm_key e @ b @ ''='' @ ?val) = ''='' @ ?val"
    using noeq by (subst append_assoc [symmetric], subst dropWhile_append2) auto
  ultimately have delim: "strchr ?t (CHR ''='') = Some (''='' @ ?val)"
    by (simp add: strchr_def)
  have "takeWhile (\<lambda>x. x \<noteq> CHR ''='') (cm_key e @ b @ ''='' @ ?val) = cm_key e @ b"
    using noeq by (subst append_assoc [symmetric], subst takeWhile_append2) auto
  then have k: "trim_whitespace (takeWhile (\<lambda>c. c \<noteq> CHR ''='') ?t) = cm_key e"
    using trim_padded [OF trimmed_key [OF assms(1)], of "[]" b] blanks_space [OF assms(3)] by simp
  have val: "trim_whitespace (tl (''='' @ ?val)) = v"
  proof (cases "v = []")
    case True
    then show ?thesis by (simp add: trim_whitespace_def)
  next
    case False
    have "trim_whitespace (c @ v @ []) = v"
      using assms(6) blanks_space [OF assms(4)] by (intro trim_padded) (auto simp: plain_value_def)
    with False show ?thesis by simp
  qed
  have found: "find (\<lambda>x. strcmp_eq (cm_key x) (cm_key e)) cfg_map = Some e"
    by (rule cfg.lookup_own_key [OF assms(1) cfg_map_distinct])
  have whole: "a @ cm_key e @ b @ ''='' @ c @ v @ d @ nl = ?body @ nl" by simp
  show ?thesis
    unfolding whole parse_line_def Let_def line trim delim option.case k val found
    using hd by simp
qed



subsection \<open>Numbers\<close>

text \<open>
  A numeric setting accepts the decimal text of exactly the numbers up to
  65535 and stores that number; a greater one is an error that stores nothing.
\<close>

theorem config_number_value:
  assumes "cm_type e = CFG_UINT16" "k < 2 ^ 63"
  shows "store_value first n e (show_nat k) st =
    (if k \<le> 65535 then Continues (set_u16 (cm_field e) (of_nat k) (fst st), snd st)
     else handle_cfg_error first (line_msg n (''Invalid uint16_t for '' @ [CHR 0x27] @ cm_key e @ [CHR 0x27])) st)"
  using assms strtol10_show_nat [of k] by (simp add: store_value_def)

theorem config_number_value_witness:
  "store_value False 3 (hd cfg_map) ''8080'' (zero_config, []) = Continues (zero_config\<lparr>http_port := 8080\<rparr>, [])"
proof -
  have "show_nat 8080 = ''8080''"
    by (simp add: show_nat.simps digit_char_def) code_simp
  then show ?thesis
    using config_number_value [of "hd cfg_map" 8080 False 3 "(zero_config, [])"]
    by (simp add: cfg_map_def)
qed

subsection \<open>Lines of a file\<close>

lemma fgets_take_line: "LF \<notin> set l \<Longrightarrow> length l < n \<Longrightarrow> fgets_take n (l @ LF # rest) = l @ [LF]"
proof (induction l arbitrary: n)
  case Nil
  then show ?case by (cases n) auto
next
  case (Cons c l)
  then show ?case by (cases n) auto
qed

lemma file_lines_Cons:
  assumes "LF \<notin> set l" "length l < 1023"
  shows "file_lines (l @ LF # rest) = (l @ [LF]) # file_lines rest"
  using fgets_take_line [OF assms] by (subst file_lines.simps) simp

lemma file_lines_Nil [simp]: "file_lines [] = []"
  by (subst file_lines.simps) simp

lemma file_lines_of_short_lines_gen:
  "\<forall>l \<in> set ls. LF \<notin> set l \<and> length l < 1023 \<Longrightarrow>
   file_lines (concat (map (\<lambda>l. l @ [LF]) ls)) = map (\<lambda>l. l @ [LF]) ls"
  by (induction ls) (simp_all add: file_lines_Cons)

text \<open>
  A file of lines of at most 1022 characters is read back line by line.
\<close>

theorem file_lines_of_short_lines:
  assumes "\<forall>l \<in> set ls. LF \<notin> set l \<and> length l < 1023"
  shows "file_lines (concat (map (\<lambda>l. l @ [LF]) ls)) = map (\<lambda>l. l @ [LF]) ls"
  using assms by (rule file_lines_of_short_lines_gen)

theorem file_lines_of_short_lines_witness:
  "file_lines (''a=1'' @ [LF] @ ''b'' @ [LF]) = [''a=1'' @ [LF], ''b'' @ [LF]]"
  using file_lines_of_short_lines [of "[''a=1'', ''b'']"] by simp

subsection \<open>Reloading\<close>

lemma handle_cfg_error_later:
  "\<exists>st'. handle_cfg_error False m st = Continues st' \<and> fst st' = fst st"
  by (simp add: handle_cfg_error_def Let_def)

lemma store_value_later: "\<exists>st'. store_value False n e v st = Continues st'"
  by (auto simp: store_value_def handle_cfg_error_def Let_def split: cfg_type_t.splits prod.splits)

lemma parse_line_later: "\<exists>st'. parse_line False n l st = Continues st'"
  using store_value_later
  by (auto simp: parse_line_def handle_cfg_error_def Let_def split: option.splits)

lemma parse_lines_later: "\<exists>st'. parse_lines False n ls st = Continues st'"
proof (induction ls arbitrary: n st)
  case (Cons l ls)
  obtain st1 where "parse_line False (n + 1) l st = Continues st1" using parse_line_later by blast
  with Cons [of "n + 1" st1] show ?case by simp
qed simp

text \<open>
  C39. Whatever the file holds, a reload never ends the server: when the memory or
  the file cannot be had the configuration in force stays, and otherwise it is replaced as a whole by
  the defaults overwritten with the good lines, unless the lock path ends up empty, where the
  post-processing reads before the start of the string.
\<close>

theorem reload_never_exits:
  "(case (fresh, file) of
      (Some g, Some bytes) \<Rightarrow>
        (\<exists>conf lg'. parse_lines False 0 (file_lines bytes) (load_config_defaults ncpu g, lg) = Continues (conf, lg')
           \<and> (if lock_file_path conf = []
              then reload_configuration path file why ncpu fresh (old, lg) = Faults OutOfBounds
              else (\<exists>conf'. post_process conf = Continues conf'
                  \<and> reload_configuration path file why ncpu fresh (old, lg) = Continues (conf', lg'))))
    | _ \<Rightarrow> \<exists>m. reload_configuration path file why ncpu fresh (old, lg) = Continues (old, lg @ [(L_ERROR, m)]))"
proof (cases fresh)
  case None
  then show ?thesis by (simp add: reload_configuration_def)
next
  case (Some g)
  note g = Some
  show ?thesis
  proof (cases "file")
    case None
    with g show ?thesis
      by (simp add: reload_configuration_def parse_and_validate_config_file_def handle_cfg_error_def Let_def)
  next
    case (Some bytes)
    obtain conf lg' where p: "parse_lines False 0 (file_lines bytes) (load_config_defaults ncpu g, lg) = Continues (conf, lg')"
      using parse_lines_later by (metis surj_pair)
    have "post_process conf = (if lock_file_path conf = [] then Faults OutOfBounds else post_process conf)"
      "lock_file_path conf \<noteq> [] \<Longrightarrow> \<exists>c. post_process conf = Continues c"
      by (simp_all add: post_process_def Let_def)
    with p g Some show ?thesis
      by (auto simp: reload_configuration_def parse_and_validate_config_file_def)
  qed
qed

text \<open>
  A line that a reload rejects is reported as keeping the original
  value, but the field takes the built-in default: the port in force, 8080, becomes 80.
\<close>

theorem reload_loses_original_value:
  "\<exists>conf lg. reload_configuration path (Some (''http_port = none'' @ [LF])) why ncpu (Some g)
       (zero_config\<lparr>http_port := 8080\<rparr>, []) = Continues (conf, lg)
     \<and> http_port conf = 80 \<and> lg = [(L_ERROR, ''Config Error: Line 1: Invalid uint16_t for '' @ [CHR 0x27] @ ''http_port'' @ [CHR 0x27] @ ''. Using original value.'')]"
proof -
  let ?st = "(load_config_defaults ncpu g, [])"
  have e: "hd cfg_map \<in> set cfg_map" "cm_key (hd cfg_map) = ''http_port''" "cm_type (hd cfg_map) = CFG_UINT16"
    by (simp_all add: cfg_map_def)
  have lines: "file_lines (''http_port = none'' @ [LF]) = [''http_port = none'' @ [LF]]"
    using file_lines_of_short_lines_gen [of "[''http_port = none'']"] by simp
  have "blanks []" "blanks '' ''" "plain_value ''none''"
    by (simp_all add: blanks_def plain_value_def trimmed_def isspace_def)
  from config_line_gen [OF e(1) this(1) this(2) this(2) this(1) this(3), of "[LF]" False 1 ?st]
  have "parse_line False 1 (''http_port = none'' @ [LF]) ?st = store_value False 1 (hd cfg_map) ''none'' ?st"
    by (simp add: e)
  moreover have "strtol10 ''none'' = (0, False, ''none'')" by code_simp
  moreover have "show_nat 1 = ''1''" by (simp add: show_nat.simps digit_char_def) code_simp
  ultimately show ?thesis
    by (simp add: reload_configuration_def parse_and_validate_config_file_def lines [simplified] store_value_def e
        handle_cfg_error_def line_msg_def snprintf_buf_def post_process_def load_config_defaults_def)
qed

subsection \<open>Queue sizes and the lock path\<close>

lemma ucast_pow2:
  assumes "unat x = 2 ^ k" "k \<le> 31"
  shows "unat (ucast (x :: u32) :: u16) = (if k \<le> 15 then 2 ^ k else 0)"
proof -
  have "unat (ucast x :: u16) = (2 :: nat) ^ k mod 2 ^ 16"
    using assms by (simp add: unsigned_ucast_eq take_bit_eq_mod flip: assms(1))
  moreover have "(2 :: nat) ^ k mod 2 ^ 16 = (if k \<le> 15 then 2 ^ k else 0)"
  proof (cases "k \<le> 15")
    case True
    then have "(2 :: nat) ^ k < 2 ^ 16" by (intro power_strict_increasing) auto
    with True show ?thesis by simp
  next
    case False
    then have "(2 :: nat) ^ 16 dvd 2 ^ k" by (intro le_imp_power_dvd) auto
    with False show ?thesis by simp
  qed
  ultimately show ?thesis by simp
qed

text \<open>What a 16-bit queue size becomes.\<close>

definition rounded_size :: "u16 \<Rightarrow> u16 \<Rightarrow> bool" where
  "rounded_size x y \<longleftrightarrow>
     (if x = 0 then y = 1
      else if unat x \<le> 2 ^ 15
      then \<exists>k \<le> 15. unat y = 2 ^ k \<and> unat x \<le> 2 ^ k \<and> (\<forall>j. unat x \<le> 2 ^ j \<longrightarrow> k \<le> j)
      else y = 0)"

lemma rounded_next_power: "rounded_size x (ucast (next_power_of_2 (ucast x)))"
proof (cases "x = 0")
  case True
  then show ?thesis by (simp add: rounded_size_def next_power_of_2_def)
next
  case False
  have small: "unat x < 2 ^ 16" using unsigned_less [of x] by simp
  then have ux: "unat (ucast x :: u32) = unat x"
    by (simp add: unsigned_ucast_eq take_bit_nat_eq_self)
  have pos: "1 \<le> unat x" using False by (simp add: Suc_le_eq unat_gt_0)
  obtain k where k: "k \<le> 31" "unat (next_power_of_2 (ucast x)) = 2 ^ k" "unat x \<le> 2 ^ k"
    "\<forall>j. unat x \<le> 2 ^ j \<longrightarrow> k \<le> j"
    using next_power_of_2_least [of "ucast x"] pos small by (auto simp: ux)
  note c = ucast_pow2 [OF k(2) k(1)]
  show ?thesis
  proof (cases "unat x \<le> 2 ^ 15")
    case True
    with k have "k \<le> 15" by blast
    with c k True False show ?thesis by (auto simp: rounded_size_def)
  next
    case big: False
    have "\<not> k \<le> 15"
    proof
      assume "k \<le> 15"
      then have "(2 :: nat) ^ k \<le> 2 ^ 15" by (intro power_increasing) auto
      with k(3) big show False by simp
    qed
    with c have "ucast (next_power_of_2 (ucast x)) = (0 :: u16)" by (simp add: unat_eq_zero)
    with big False show ?thesis by (simp add: rounded_size_def)
  qed
qed

text \<open>
  After post-processing both queue sizes are the least power of two not below
  the size asked for as long as that is at most 32768 (1 when it is 0), but a size from 32769 to 65535
  becomes 0; the lock path loses its last character exactly when that is not a slash; nothing else
  changes.
\<close>

theorem config_queue_sizes:
  assumes "post_process conf = Continues conf'"
  shows "rounded_size (log_queue_size conf) (log_queue_size conf')
    \<and> rounded_size (conn_queue_size conf) (conn_queue_size conf')
    \<and> lock_file_path conf' = (if last (lock_file_path conf) = CHR ''/'' then lock_file_path conf
                              else butlast (lock_file_path conf))
    \<and> conf'\<lparr>log_queue_size := log_queue_size conf, conn_queue_size := conn_queue_size conf,
            lock_file_path := lock_file_path conf\<rparr> = conf"
  using assms by (auto simp: post_process_def Let_def rounded_next_power split: if_splits)

theorem config_queue_sizes_witness:
  "\<exists>conf'. post_process (zero_config\<lparr>log_queue_size := 500, conn_queue_size := 40000, lock_file_path := ''/var/run''\<rparr>)
      = Continues conf' \<and> conn_queue_size conf' = 0 \<and> lock_file_path conf' = ''/var/ru''
      \<and> rounded_size 500 (log_queue_size conf')"
proof -
  let ?c = "zero_config\<lparr>log_queue_size := 500, conn_queue_size := 40000, lock_file_path := ''/var/run''\<rparr>"
  obtain c' where c': "post_process ?c = Continues c'" by (simp add: post_process_def Let_def)
  from config_queue_sizes [OF c'] have "rounded_size 40000 (conn_queue_size c')" "rounded_size 500 (log_queue_size c')"
    "lock_file_path c' = ''/var/ru''" by simp_all
  moreover from this(1) have "conn_queue_size c' = 0" by (simp add: rounded_size_def)
  ultimately show ?thesis using c' by blast
qed

end
