(* ===== verification/Paths.thy ===== *)
theory Paths
  imports CLib
begin

text \<open>
  Preparing the path of a file the server will write (\<open>validate_path\<close> and \<open>create_dir_recursive\<close> in
  \<open>src/util.c\<close>).  The file system's answers are functions of the path, since each call asks about a
  path at most once; a fatal error, which ends the process, is its message (the text of \<open>strerror\<close>
  left out).
\<close>

definition PATH_LIMIT :: nat where "PATH_LIMIT = 4096"

datatype stat_answer = Is_regular | Is_directory | Is_other | Stat_ENOENT | Stat_failed

datatype mkdir_answer = Mkdir_ok | Mkdir_EEXIST | Mkdir_failed

record path_env =
  pe_stat :: "string \<Rightarrow> stat_answer"
  pe_rw :: "string \<Rightarrow> bool"            \<comment> \<open>\<open>access(path, R_OK | W_OK) == 0\<close>\<close>
  pe_wx :: "string \<Rightarrow> bool"            \<comment> \<open>\<open>access(path, W_OK | X_OK) == 0\<close>\<close>
  pe_mkdir :: "string \<Rightarrow> mkdir_answer"

text \<open>The directories \<open>mkdir\<close> was called for, in order, and the fatal message if there is one.\<close>

type_synonym path_result = "string list \<times> string option"

text \<open>
  The loop of \<open>create_dir_recursive\<close>: \<open>pre @ rest\<close> is the buffer and \<open>p\<close> points at \<open>rest\<close>; at a slash
  the buffer is cut there for the call.
\<close>

fun mkdir_loop :: "path_env \<Rightarrow> string \<Rightarrow> string \<Rightarrow> path_result" where
  "mkdir_loop env pre [] =
     ([pre], if pe_mkdir env pre = Mkdir_failed then Some ''Failed to create parent directory'' else None)"
| "mkdir_loop env pre (c # rest) =
     (if c = CHR ''/'' then
        (if pe_mkdir env pre = Mkdir_failed then ([pre], Some ''Failed to create intermediate directory'')
         else (let (ms, r) = mkdir_loop env (pre @ [c]) rest in (pre # ms, r)))
      else mkdir_loop env (pre @ [c]) rest)"

definition create_dir_recursive :: "path_env \<Rightarrow> string \<Rightarrow> path_result" where
  "create_dir_recursive env dir_path =
     (if PATH_LIMIT \<le> snprintf_ret dir_path then ([], Some ''Directory path too long'')
      else (case dir_path of
              [] \<Rightarrow> mkdir_loop env [] []
            | c # rest \<Rightarrow> if c = CHR ''/'' then mkdir_loop env [c] rest else mkdir_loop env [] dir_path))"

text \<open>The parent of a path with a slash: \<open>/\<close> itself for a file in the root directory.\<close>

definition parent_dir :: "string \<Rightarrow> string option" where
  "parent_dir path =
     (case strrchr path (CHR ''/'') of
        None \<Rightarrow> None
      | Some suffix \<Rightarrow>
          let i = length path - length suffix in Some (if i = 0 then take 1 path else take i path))"

definition validate_path :: "path_env \<Rightarrow> string \<Rightarrow> path_result" where
  "validate_path env path =
     (if path = [] then ([], Some ''Invalid path: Path is NULL or empty'')
      else (case pe_stat env path of
        Is_regular \<Rightarrow>
          if pe_rw env path then ([], None) else ([], Some ''File exists but lacks read/write permissions'')
      | Is_directory \<Rightarrow> ([], Some ''Path exists but is not a regular file'')
      | Is_other \<Rightarrow> ([], Some ''Path exists but is not a regular file'')
      | Stat_failed \<Rightarrow> ([], Some ''Failed to stat path'')
      | Stat_ENOENT \<Rightarrow>
          if PATH_LIMIT \<le> snprintf_ret path then ([], Some ''File path too long'')
          else (case parent_dir path of
            Some dir_path \<Rightarrow>
              let (ms, r) =
                    (case pe_stat env dir_path of
                       Is_directory \<Rightarrow> ([], None)
                     | Stat_ENOENT \<Rightarrow> create_dir_recursive env dir_path
                     | Stat_failed \<Rightarrow> ([], Some ''Failed to stat parent directory'')
                     | _ \<Rightarrow> ([], Some ''Parent path exists but is not a directory''))
              in if r \<noteq> None then (ms, r)
                 else if pe_wx env dir_path then (ms, None)
                 else (ms, Some ''Cannot create file in parent directory (insufficient permissions)'')
          | None \<Rightarrow>
              if pe_wx env ''.'' then ([], None)
              else ([], Some ''Cannot create file in current directory (insufficient permissions)''))))"

subsection \<open>The directories created\<close>

text \<open>The path up to, and without, each slash but a leading one, and then the whole path.\<close>

definition cuts :: "nat \<Rightarrow> string \<Rightarrow> string list" where
  "cuts k path = map (\<lambda>i. take i path) (filter (\<lambda>i. path ! i = CHR ''/'') [k..<length path])"

definition ancestors :: "string \<Rightarrow> string list" where
  "ancestors path = cuts 1 path @ [path]"

lemma cuts_end [simp]: "cuts (length path) path = []"
  by (simp add: cuts_def)

lemma cuts_step:
  "k < length path \<Longrightarrow> cuts k path = (if path ! k = CHR ''/'' then [take k path] else []) @ cuts (Suc k) path"
  unfolding cuts_def by (subst upt_rec) simp

lemma mkdir_loop_all:
  assumes "\<forall>d. pe_mkdir env d \<noteq> Mkdir_failed"
  shows "mkdir_loop env pre rest = (cuts (length pre) (pre @ rest) @ [pre @ rest], None)"
proof (induction rest arbitrary: pre)
  case Nil
  then show ?case using assms by simp
next
  case (Cons c rest)
  show ?case
    using Cons.IH [of "pre @ [c]"] cuts_step [of "length pre" "pre @ c # rest"] assms
    by (cases "c = CHR ''/''") simp_all
qed

lemma create_dir_all:
  assumes "\<forall>d. pe_mkdir env d \<noteq> Mkdir_failed" "length dir < PATH_LIMIT" "dir \<noteq> []"
  shows "create_dir_recursive env dir = (ancestors dir, None)"
proof -
  obtain c rest where dir: "dir = c # rest" using assms(3) by (cases dir) auto
  show ?thesis
  proof (cases "c = CHR ''/''")
    case True
    then show ?thesis
      using mkdir_loop_all [OF assms(1), of "[c]" rest] assms(2)
      by (simp add: create_dir_recursive_def snprintf_ret_def dir ancestors_def)
  next
    case False
    then have "cuts 0 dir = cuts 1 dir" using cuts_step [of 0 dir] by (simp add: dir)
    then show ?thesis
      using False mkdir_loop_all [OF assms(1), of "[]" dir] assms(2)
      by (simp add: create_dir_recursive_def snprintf_ret_def ancestors_def del: mkdir_loop.simps) (simp add: dir)
  qed
qed

text \<open>Each directory of the list is an initial part of every later one.\<close>

lemma take_longer:
  assumes "i < j" "j \<le> length xs"
  shows "\<exists>t. t \<noteq> [] \<and> take j xs = take i xs @ t"
proof (intro exI conjI)
  show "take j xs = take i xs @ drop i (take j xs)"
    using assms(1) by (metis append_take_drop_id less_imp_le min.absorb1 take_take)
  show "drop i (take j xs) \<noteq> []" using assms by simp
qed

lemma ancestors_nested:
  assumes "i < j" "j < length (ancestors path)"
  shows "\<exists>t. t \<noteq> [] \<and> ancestors path ! j = ancestors path ! i @ t"
proof -
  define ps where "ps = filter (\<lambda>i. path ! i = CHR ''/'') [1..<length path] @ [length path]"
  have anc: "ancestors path = map (\<lambda>i. take i path) ps" by (simp add: ancestors_def cuts_def ps_def)
  have "sorted_wrt (<) ps" by (simp add: ps_def sorted_wrt_append sorted_wrt_filter)
  then have lt: "ps ! i < ps ! j" using assms by (simp add: anc sorted_wrt_nth_less)
  have "ps ! j \<in> set ps" using assms(2) by (simp add: anc)
  then have "ps ! j \<le> length path" by (auto simp: ps_def)
  with take_longer [OF lt this] assms show ?thesis by (simp add: anc)
qed

text \<open>
  When no \<open>mkdir\<close> fails for another reason than that the directory is there,
  \<open>create_dir_recursive\<close> asks for every ancestor of the directory and then for itself, each after
  those that contain it.
\<close>

theorem create_dir_parents_first:
  assumes "\<forall>d. pe_mkdir env d \<noteq> Mkdir_failed" "length dir < 4096" "dir \<noteq> []"
  shows "create_dir_recursive env dir = (ancestors dir, None)
     \<and> (\<forall>i j. i < j \<longrightarrow> j < length (ancestors dir) \<longrightarrow> (\<exists>t. t \<noteq> [] \<and> ancestors dir ! j = ancestors dir ! i @ t))"
  using create_dir_all [OF assms(1) _ assms(3)] assms(2) ancestors_nested by (simp add: PATH_LIMIT_def)

definition example_paths :: path_env where
  "example_paths = \<lparr>pe_stat = (\<lambda>p. if p = ''/var'' then Is_directory else Stat_ENOENT), pe_rw = (\<lambda>_. True),
     pe_wx = (\<lambda>_. True), pe_mkdir = (\<lambda>p. if p = ''/var'' then Mkdir_EEXIST else Mkdir_ok)\<rparr>"

theorem create_dir_parents_first_witness:
  "create_dir_recursive example_paths ''/var/log/web'' = ([''/var'', ''/var/log'', ''/var/log/web''], None)"
proof -
  have "ancestors ''/var/log/web'' = [''/var'', ''/var/log'', ''/var/log/web'']" by code_simp
  then show ?thesis
    using create_dir_parents_first [of example_paths "''/var/log/web''"] by (simp add: example_paths_def)
qed

text \<open>
  \<open>validate_path\<close> lets the server go on exactly when the path is a readable and writable
  regular file, or names nothing yet and its directory (made with its ancestors when it is missing, or
  the working directory for a path without a slash) can be written and entered.
\<close>

theorem validate_path_accepts:
  assumes "\<forall>d. pe_mkdir env d \<noteq> Mkdir_failed" "length path < 4096"
  shows "snd (validate_path env path) = None \<longleftrightarrow> path \<noteq> []
     \<and> (pe_stat env path = Is_regular \<and> pe_rw env path
        \<or> pe_stat env path = Stat_ENOENT
          \<and> (case parent_dir path of
               None \<Rightarrow> pe_wx env ''.''
             | Some d \<Rightarrow> pe_stat env d \<in> {Is_directory, Stat_ENOENT} \<and> pe_wx env d))"
proof -
  have dir: "snd (create_dir_recursive env d) = None" if "parent_dir path = Some d" "path \<noteq> []" for d
  proof -
    have "length d \<le> length path" "d \<noteq> []"
      using that by (auto simp: parent_dir_def Let_def split: option.splits if_splits)
    then show ?thesis using create_dir_all [OF assms(1), of d] assms(2) by (simp add: PATH_LIMIT_def)
  qed
  show ?thesis
    using assms(2) dir
    by (auto simp: validate_path_def PATH_LIMIT_def snprintf_ret_def Let_def split: option.splits stat_answer.splits prod.splits)
qed

theorem validate_path_accepts_witness:
  "snd (validate_path example_paths ''/var/log/web/access'') = None"
proof -
  have "parent_dir ''/var/log/web/access'' = Some ''/var/log/web''" by code_simp
  then show ?thesis
    using validate_path_accepts [of example_paths "''/var/log/web/access''"] by (simp add: example_paths_def)
qed

end
