(* ===== verification/Privileges.thy ===== *)
theory Privileges
  imports CLib
begin

text \<open>
  The process-level guards of \<open>src/server.c\<close>: giving up root (\<open>drop_privileges\<close>), the daemon's double
  fork (\<open>daemonize\<close>) and the run-time lock file (\<open>already_running\<close>, \<open>lockfile\<close>).
\<close>

subsection \<open>Credentials\<close>

text \<open>
  The credentials of a process whose real, effective and saved ids agree, and the documented effect of
  the calls on them: root may set anything, anybody else only what is already so.
\<close>

record cred =
  c_uid :: nat
  c_gid :: nat
  c_groups :: "nat set"

definition k_initgroups :: "nat set \<Rightarrow> nat \<Rightarrow> cred \<Rightarrow> cred option" where
  "k_initgroups member_of g c = (if c_uid c = 0 then Some (c\<lparr>c_groups := insert g member_of\<rparr>) else None)"

definition k_setgid :: "nat \<Rightarrow> cred \<Rightarrow> cred option" where
  "k_setgid g c = (if c_uid c = 0 \<or> g = c_gid c then Some (c\<lparr>c_gid := g\<rparr>) else None)"

definition k_setuid :: "nat \<Rightarrow> cred \<Rightarrow> cred option" where
  "k_setuid u c = (if c_uid c = 0 \<or> u = c_uid c then Some (c\<lparr>c_uid := u\<rparr>) else None)"

subsection \<open>Dropping privileges\<close>

text \<open>
  \<open>grp\<close> and \<open>pwd\<close> are what \<open>getgrnam\<close> and \<open>getpwnam\<close> find, \<open>member_of\<close> the groups the group file
  lists for the user.  The result is the return value and the credentials left.
\<close>

definition drop_privileges :: "nat option \<Rightarrow> nat option \<Rightarrow> nat set \<Rightarrow> cred \<Rightarrow> int \<times> cred" where
  "drop_privileges grp pwd member_of c0 =
     (case grp of
        None \<Rightarrow> (-1, c0)
      | Some g \<Rightarrow> (case pwd of
          None \<Rightarrow> (-1, c0)
        | Some u \<Rightarrow> (case k_initgroups member_of g c0 of
            None \<Rightarrow> (-1, c0)
          | Some c1 \<Rightarrow> (case k_setgid g c1 of
              None \<Rightarrow> (-1, c1)
            | Some c2 \<Rightarrow> (case k_setuid u c2 of
                None \<Rightarrow> (-1, c2)
              | Some c3 \<Rightarrow> (case k_setuid 0 c3 of
                  Some c4 \<Rightarrow> (-1, c4)
                | None \<Rightarrow> (0, c3)))))))"

lemma drop_privileges_cases:
  "drop_privileges grp pwd member_of c0 = (r, c) \<Longrightarrow> r = 0 \<longleftrightarrow>
     (\<exists>g u. grp = Some g \<and> pwd = Some u \<and> c_uid c0 = 0 \<and> u \<noteq> 0
        \<and> c = \<lparr>c_uid = u, c_gid = g, c_groups = insert g member_of\<rparr>)"
  by (cases c0)
    (auto simp: drop_privileges_def k_initgroups_def k_setgid_def k_setuid_def split: option.splits if_splits)



subsection \<open>Daemonizing\<close>

datatype daemon_act = Umask | Setsid | Chdir_root | Open_null | Dup2 int int | Close_fd int

datatype daemon_end = Exits_with int | Is_daemon

text \<open>
  \<open>daemonize\<close> in the process that returns from each \<open>fork\<close>: the arguments are what both forks return
  (0 in the child), whether \<open>chdir\<close> succeeds, and the descriptor of \<open>/dev/null\<close>.
\<close>

definition daemonize :: "int \<Rightarrow> int \<Rightarrow> bool \<Rightarrow> int \<Rightarrow> daemon_act list \<times> daemon_end" where
  "daemonize fork1 fork2 chdir_ok dev_null =
     (if fork1 < 0 then ([Umask], Exits_with 1)
      else if fork1 \<noteq> 0 then ([Umask], Exits_with 0)
      else if fork2 < 0 then ([Umask, Setsid], Exits_with 1)
      else if fork2 \<noteq> 0 then ([Umask, Setsid], Exits_with 0)
      else if \<not> chdir_ok then ([Umask, Setsid, Chdir_root], Exits_with 1)
      else if dev_null < 0 then ([Umask, Setsid, Chdir_root, Open_null], Exits_with 1)
      else ([Umask, Setsid, Chdir_root, Open_null, Dup2 dev_null 0, Dup2 dev_null 1, Dup2 dev_null 2]
            @ (if dev_null > 2 then [Close_fd dev_null] else []), Is_daemon))"

text \<open>
  Only the grandchild goes on, a session member that is no session leader, with \<open>/\<close> as its
  directory, its three standard descriptors on \<open>/dev/null\<close>, and no further descriptor left open on
  it; every other process exits, with 0 exactly when it is the parent of a successful \<open>fork\<close>.
\<close>

lemma daemonize_outcome:
  "(snd (daemonize f1 f2 cd dn) = Is_daemon \<longleftrightarrow> f1 = 0 \<and> f2 = 0 \<and> cd \<and> 0 \<le> dn)
   \<and> (snd (daemonize f1 f2 cd dn) = Is_daemon \<longrightarrow>
        {Setsid, Chdir_root, Dup2 dn 0, Dup2 dn 1, Dup2 dn 2} \<subseteq> set (fst (daemonize f1 f2 cd dn))
        \<and> (Close_fd dn \<in> set (fst (daemonize f1 f2 cd dn)) \<longleftrightarrow> dn \<notin> {0, 1, 2}))
   \<and> (snd (daemonize f1 f2 cd dn) = Exits_with 0 \<longleftrightarrow> 0 < f1 \<or> f1 = 0 \<and> 0 < f2)"
  by (auto simp: daemonize_def)

subsection \<open>The lock file\<close>

datatype flock_type = F_WRLCK

record flock_t =
  l_type :: flock_type
  l_start :: int
  l_whence_set :: bool
  l_len :: int

text \<open>The request of \<open>lockfile\<close>: a write lock on the whole file.\<close>

definition lockfile_request :: flock_t where
  "lockfile_request = \<lparr>l_type = F_WRLCK, l_start = 0, l_whence_set = True, l_len = 0\<rparr>"

datatype lock_answer = Lock_taken | Lock_busy | Lock_error

text \<open>
  \<open>already_running\<close>: what \<open>open\<close> returns, the answer to the lock request, whether \<open>ftruncate\<close> and
  \<open>write\<close> succeed, and the process id.  The result is the return value, the bytes written
  to the lock file, and the descriptors closed.  A failed truncation is only logged.
\<close>

definition already_running :: "int \<Rightarrow> lock_answer \<Rightarrow> bool \<Rightarrow> bool \<Rightarrow> int \<Rightarrow> int \<times> string option \<times> int list" where
  "already_running fd lock truncate_ok write_ok pid =
     (if fd < 0 then (1, None, [])
      else (case lock of
              Lock_busy \<Rightarrow> (1, None, [fd])
            | Lock_error \<Rightarrow> (1, None, [])
            | Lock_taken \<Rightarrow>
                if write_ok then (0, Some (take (snprintf_ret (show_int pid)) (snprintf_buf 16 (show_int pid) @ [NUL])), [])
                else (1, None, [])))"

lemma already_running_zero:
  "fst (already_running fd lock tr w pid) = 0 \<longleftrightarrow> 0 \<le> fd \<and> lock = Lock_taken \<and> w"
  by (auto simp: already_running_def split: lock_answer.splits)

text \<open>A second copy of the server, whose lock request is refused, never gets a 0.\<close>

lemma already_running_excludes:
  "fst (already_running fd Lock_taken tr w pid) = 0 \<Longrightarrow> fst (already_running fd' Lock_busy tr' w' pid') = 1"
  by (simp add: already_running_def)

end
