(* ===== verification/Logger.thy ===== *)
theory Logger
  imports Types Fifo
begin

text \<open>
  The logging subsystem (\<open>src/logger.c\<close>): the ring of log entries shared by all threads, the
  producer side \<open>log_write\<close> cut at its condition wait, the consumer side (the logger thread's
  batch and its vectored writes), start-up and shut-down.  The ring keeps one slot free; indices
  wrap by masking with \<open>ring_size - 1\<close>, computed in \<open>int\<close> as C's promotions do.
\<close>

definition BATCH_SIZE :: nat where "BATCH_SIZE = 32"

record log_entry_t =
  le_target :: log_target_t
  le_len :: nat
  le_line :: string

record log_ring_t =
  lr_tail :: nat
  lr_head :: nat
  lr_entries :: "log_entry_t list"

record logger_t =
  lg_access_fd :: int
  lg_event_fd :: int
  lg_server_pid :: int
  lg_ring_size :: u16
  lg_ring :: log_ring_t
  lg_shutdown :: bool

definition zero_entry :: log_entry_t where
  "zero_entry = \<lparr>le_target = LOG_TARGET_ACCESS, le_len = 0, le_line = []\<rparr>"

primrec l_priority :: "log_level_t \<Rightarrow> string" where
  "l_priority L_DEBUG = ''[debug]''"
| "l_priority L_INFO = '' [info]''"
| "l_priority L_WARN = '' [warn]''"
| "l_priority L_ERROR = ''[error]''"
| "l_priority L_ACCESS = ''''"

text \<open>\<open>(i + 1) & (log->ring_size - 1)\<close>; the \<open>uint16_t\<close> is promoted to \<open>int\<close> first.\<close>

definition mask_next :: "u16 \<Rightarrow> nat \<Rightarrow> nat" where
  "mask_next sz i = nat ((int i + 1) AND (uint sz - 1))"

subsection \<open>Producers\<close>

text \<open>
  The entry formatted before the lock is taken: \<open>vsnprintf\<close> truncates the text to the line buffer,
  but \<open>len\<close> is the value it returns, the length of the whole text.
\<close>

definition format_entry :: "log_target_t \<Rightarrow> string \<Rightarrow> log_entry_t" where
  "format_entry target txt =
     \<lparr>le_target = target, le_len = snprintf_ret txt, le_line = snprintf_buf LOG_LINE_MAX txt\<rparr>"

datatype log_outcome =
    LW_Dropped            \<comment> \<open>access entry, ring full\<close>
  | LW_Wait nat           \<comment> \<open>asleep on \<open>not_full\<close>, with its \<open>next_tail\<close>\<close>
  | LW_Bailed             \<comment> \<open>woken by a shutdown\<close>
  | LW_Stored logger_t

definition store_entry :: "logger_t \<Rightarrow> nat \<Rightarrow> log_entry_t \<Rightarrow> log_outcome result" where
  "store_entry lg next_tail e =
     (let r = lg_ring lg in
      if lr_tail r < length (lr_entries r)
      then Inr (LW_Stored (lg\<lparr>lg_ring := r\<lparr>lr_entries := (lr_entries r)[lr_tail r := e],
                                            lr_tail := next_tail\<rparr>\<rparr>))
      else Inl OutOfBounds)"

text \<open>The waiting loop and what follows it, run each time the thread holds the lock again.\<close>

definition log_resume :: "logger_t \<Rightarrow> nat \<Rightarrow> log_entry_t \<Rightarrow> log_outcome result" where
  "log_resume lg next_tail e =
     (if next_tail = lr_head (lg_ring lg) \<and> \<not> lg_shutdown lg then Inr (LW_Wait next_tail)
      else if lg_shutdown lg then Inr LW_Bailed
      else store_entry lg next_tail e)"

text \<open>\<open>log_write\<close> from the lock on: \<open>next_tail\<close> is computed here, once.\<close>

definition log_enter :: "logger_t \<Rightarrow> log_entry_t \<Rightarrow> log_outcome result" where
  "log_enter lg e =
     (let next_tail = mask_next (lg_ring_size lg) (lr_tail (lg_ring lg)) in
      if next_tail = lr_head (lg_ring lg) then
        (if le_target e = LOG_TARGET_ACCESS then Inr LW_Dropped
         else log_resume lg next_tail e)
      else store_entry lg next_tail e)"

definition log_write :: "logger_t \<Rightarrow> log_target_t \<Rightarrow> string \<Rightarrow> log_outcome result" where
  "log_write lg target txt = log_enter lg (format_entry target txt)"

subsection \<open>The consumer\<close>

text \<open>One turn of the loop that grabs entries: \<open>None\<close> when the ring is empty.\<close>

definition ring_take :: "logger_t \<Rightarrow> (log_entry_t \<times> logger_t) option result" where
  "ring_take lg =
     (let r = lg_ring lg in
      if lr_head r = lr_tail r then Inr None
      else if lr_head r < length (lr_entries r)
      then Inr (Some (lr_entries r ! lr_head r,
             lg\<lparr>lg_ring := r\<lparr>lr_head := mask_next (lg_ring_size lg) (lr_head r)\<rparr>\<rparr>))
      else Inl OutOfBounds)"

text \<open>Grab up to \<open>n\<close> entries at once.\<close>

fun grab_batch :: "nat \<Rightarrow> logger_t \<Rightarrow> (log_entry_t list \<times> logger_t) result" where
  "grab_batch 0 lg = Inr ([], lg)"
| "grab_batch (Suc n) lg =
     bindR (ring_take lg) (\<lambda>t. case t of
        None \<Rightarrow> Inr ([], lg)
      | Some (e, lg') \<Rightarrow> bindR (grab_batch n lg') (\<lambda>(es, lg''). Inr (e # es, lg'')))"

text \<open>
  The critical section of the logger thread: it waits while the ring is empty, exits (\<open>None\<close>) when
  it is empty and the logger shuts down, and takes a batch otherwise.
\<close>

definition logger_section ::
  "logger_t \<Rightarrow> (log_entry_t list option, logger_t) outcome result" where
  "logger_section lg =
     (let empty = (lr_tail (lg_ring lg) = lr_head (lg_ring lg)) in
      if empty \<and> \<not> lg_shutdown lg then Inr Blocks
      else if empty \<and> lg_shutdown lg then Inr (Returns None lg)
      else bindR (grab_batch BATCH_SIZE lg) (\<lambda>(es, lg'). Inr (Returns (Some es) lg')))"

text \<open>
  The bytes one \<open>iovec\<close> hands to \<open>writev\<close>: \<open>len\<close> bytes from the line buffer, which has
  \<open>LOG_LINE_MAX\<close> bytes (zero past the text).
\<close>

definition iov_bytes :: "log_entry_t \<Rightarrow> string result" where
  "iov_bytes e =
     (if le_len e \<le> LOG_LINE_MAX
      then Inr (take (le_len e) (le_line e @ replicate (LOG_LINE_MAX - length (le_line e)) NUL))
      else Inl OutOfBounds)"

definition is_access :: "log_entry_t \<Rightarrow> bool" where
  "is_access e \<longleftrightarrow> le_target e = LOG_TARGET_ACCESS"

text \<open>
  The writes after the critical section: the access entries in one \<open>writev\<close>, then the event
  entries in another.  A failed access write skips the event write (\<open>continue\<close>).  The result lists
  the calls made, with their descriptor and entries, and the warnings logged.
\<close>

definition flush_batch ::
  "logger_t \<Rightarrow> log_entry_t list \<Rightarrow> bool \<Rightarrow> bool \<Rightarrow> (int \<times> log_entry_t list) list \<times> string list" where
  "flush_batch lg es access_ok event_ok =
     (let acc = filter is_access es; ev = filter (\<lambda>e. \<not> is_access e) es;
          w1 = (if acc \<noteq> [] then [(lg_access_fd lg, acc)] else []);
          w2 = (if ev \<noteq> [] then [(lg_event_fd lg, ev)] else [])
      in if acc \<noteq> [] \<and> \<not> access_ok then (w1, [''access log write failed''])
         else (w1 @ w2, if ev \<noteq> [] \<and> \<not> event_ok then [''event log write failed''] else []))"

subsection \<open>Start-up and shut-down\<close>

text \<open>
  \<open>logger_init\<close>: \<open>None\<close> is a process exit.  The second allocation is checked by testing the first
  pointer again, so a failed allocation of the entries is not noticed: the ring then has no cells.
\<close>

definition logger_init :: "u16 \<Rightarrow> int \<Rightarrow> int \<Rightarrow> bool \<Rightarrow> bool \<Rightarrow> bool \<Rightarrow> logger_t option" where
  "logger_init sz access_fd event_fd ring_ok entries_ok thread_ok =
     (if \<not> ring_ok then None
      else if \<not> thread_ok then None
      else Some \<lparr>lg_access_fd = access_fd, lg_event_fd = event_fd, lg_server_pid = 0,
             lg_ring_size = sz,
             lg_ring = \<lparr>lr_tail = 0, lr_head = 0,
                        lr_entries = (if entries_ok then replicate (unat sz) zero_entry else [])\<rparr>,
             lg_shutdown = False\<rparr>)"

text \<open>\<open>logger_shutdown\<close> up to the join: the flag is set and both conditions are signalled.\<close>

definition logger_request_shutdown :: "logger_t \<Rightarrow> logger_t" where
  "logger_request_shutdown lg = lg\<lparr>lg_shutdown := True\<rparr>"

subsection \<open>The ring invariant\<close>

definition lg_size :: "logger_t \<Rightarrow> nat" where
  "lg_size lg = unat (lg_ring_size lg)"

definition lg_count :: "logger_t \<Rightarrow> nat" where
  "lg_count lg = (lr_tail (lg_ring lg) + lg_size lg - lr_head (lg_ring lg)) mod lg_size lg"

definition lg_list :: "logger_t \<Rightarrow> log_entry_t list" where
  "lg_list lg = ring_seg (lr_entries (lg_ring lg)) (lr_head (lg_ring lg)) (lg_count lg)"

definition lg_inv :: "logger_t \<Rightarrow> bool" where
  "lg_inv lg \<longleftrightarrow>
     (\<exists>k \<le> 15. lg_size lg = 2 ^ k) \<and> length (lr_entries (lg_ring lg)) = lg_size lg
     \<and> lr_head (lg_ring lg) < lg_size lg \<and> lr_tail (lg_ring lg) < lg_size lg"

lemma lg_invD:
  assumes "lg_inv lg"
  shows "0 < lg_size lg" "length (lr_entries (lg_ring lg)) = lg_size lg"
    "lr_head (lg_ring lg) < lg_size lg" "lr_tail (lg_ring lg) < lg_size lg"
  using assms by (auto simp: lg_inv_def)

lemma mask_next_pow2:
  assumes "unat sz = 2 ^ k"
  shows "mask_next sz i = (i + 1) mod unat sz"
proof -
  have "uint sz = int (2 ^ k)"
    using assms by (simp add: uint_nat)
  moreover have "int i + 1 = int (i + 1)" by simp
  ultimately show ?thesis
    using nat_and_mask [of "i + 1" k] assms unfolding mask_next_def by metis
qed

lemma mask_next_inv: "lg_inv lg \<Longrightarrow> mask_next (lg_ring_size lg) i = (i + 1) mod lg_size lg"
  by (auto simp: lg_inv_def lg_size_def mask_next_pow2)

lemma length_lg_list [simp]: "length (lg_list lg) = lg_count lg"
  by (simp add: lg_list_def)

lemma lg_count_less: "lg_inv lg \<Longrightarrow> lg_count lg < lg_size lg"
  by (simp add: lg_count_def lg_invD(1))

lemma tail_head_count:
  assumes "lg_inv lg"
  shows "lr_tail (lg_ring lg) = (lr_head (lg_ring lg) + lg_count lg) mod lg_size lg"
  using lg_invD [OF assms] by (simp add: lg_count_def mod_simps)

lemma ring_count_eq:
  fixes h t c n :: nat
  assumes "c < n" "h < n" "t = (h + c) mod n"
  shows "(t + n - h) mod n = c"
proof (cases "h + c < n")
  case True
  with assms show ?thesis by simp
next
  case False
  then have "t = h + c - n" using assms by (simp add: mod_if)
  with assms False show ?thesis by simp
qed

lemma full_iff:
  assumes "lg_inv lg"
  shows "mask_next (lg_ring_size lg) (lr_tail (lg_ring lg)) = lr_head (lg_ring lg)
           \<longleftrightarrow> lg_count lg = lg_size lg - 1"
proof -
  note d = lg_invD [OF assms] and c = lg_count_less [OF assms]
  have eq: "mask_next (lg_ring_size lg) (lr_tail (lg_ring lg))
      = (lr_head (lg_ring lg) + (lg_count lg + 1)) mod lg_size lg"
    by (simp add: mask_next_inv [OF assms] tail_head_count [OF assms] mod_simps)
  show ?thesis
  proof
    assume "lg_count lg = lg_size lg - 1"
    then have "lg_count lg + 1 = lg_size lg" using d(1) by simp
    with eq d(3) show "mask_next (lg_ring_size lg) (lr_tail (lg_ring lg)) = lr_head (lg_ring lg)"
      by (simp only: mod_add_self2 mod_less)
  next
    assume full: "mask_next (lg_ring_size lg) (lr_tail (lg_ring lg)) = lr_head (lg_ring lg)"
    show "lg_count lg = lg_size lg - 1"
    proof (rule ccontr)
      assume "lg_count lg \<noteq> lg_size lg - 1"
      with c have "lg_count lg + 1 < lg_size lg" by simp
      from ring_count_eq [OF this d(3) eq] full show False by simp
    qed
  qed
qed

lemma empty_iff:
  assumes "lg_inv lg"
  shows "lr_head (lg_ring lg) = lr_tail (lg_ring lg) \<longleftrightarrow> lg_count lg = 0"
proof -
  note d = lg_invD [OF assms]
  show ?thesis
  proof
    assume "lg_count lg = 0"
    then show "lr_head (lg_ring lg) = lr_tail (lg_ring lg)"
      using tail_head_count [OF assms] d by simp
  qed (use d in \<open>simp add: lg_count_def\<close>)
qed

text \<open>The size and the entries of an update of the ring.\<close>

lemma lg_size_ring [simp]: "lg_size (lg\<lparr>lg_ring := r\<rparr>) = lg_size lg"
  by (simp add: lg_size_def)

lemma store_entry_room:
  assumes inv: "lg_inv lg" and room: "lg_count lg < lg_size lg - 1"
  obtains lg' where
    "store_entry lg (mask_next (lg_ring_size lg) (lr_tail (lg_ring lg))) e = Inr (LW_Stored lg')"
    "lg_inv lg'" "lg_list lg' = lg_list lg @ [e]" "lg_size lg' = lg_size lg"
    "lg_shutdown lg' = lg_shutdown lg"
proof -
  note d = lg_invD [OF inv]
  let ?r = "lg_ring lg"
  let ?t = "mask_next (lg_ring_size lg) (lr_tail ?r)"
  define lg' where "lg' = lg\<lparr>lg_ring := ?r\<lparr>lr_entries := (lr_entries ?r)[lr_tail ?r := e], lr_tail := ?t\<rparr>\<rparr>"
  have t: "?t = (lr_head ?r + (lg_count lg + 1)) mod lg_size lg"
    by (simp add: mask_next_inv [OF inv] tail_head_count [OF inv] mod_simps)
  then have tl: "?t < lg_size lg" using d by simp
  have cnt: "lg_count lg' = Suc (lg_count lg)"
    using ring_count_eq [OF _ d(3) t] room by (simp add: lg'_def lg_count_def)
  have "lg_inv lg'"
    using inv tl by (auto simp: lg_inv_def lg'_def)
  moreover have "lg_list lg' = lg_list lg @ [e]"
    using ring_seg_snoc [of "lg_count lg" "lr_entries ?r" "lr_head ?r" e] cnt d room
      tail_head_count [OF inv]
    by (simp add: lg_list_def lg'_def)
  ultimately show ?thesis
    using d by (intro that [of lg']) (simp_all add: store_entry_def Let_def lg'_def)
qed

lemma ring_take_item:
  assumes inv: "lg_inv lg" and ne: "0 < lg_count lg"
  obtains e lg' where "ring_take lg = Inr (Some (e, lg'))" "lg_inv lg'"
    "lg_list lg = e # lg_list lg'" "lg_size lg' = lg_size lg" "lg_shutdown lg' = lg_shutdown lg"
    "lg_count lg = Suc (lg_count lg')"
proof -
  note d = lg_invD [OF inv]
  let ?r = "lg_ring lg"
  let ?h = "mask_next (lg_ring_size lg) (lr_head ?r)"
  define lg' where "lg' = lg\<lparr>lg_ring := ?r\<lparr>lr_head := ?h\<rparr>\<rparr>"
  obtain n where n: "lg_count lg = Suc n" using ne by (cases "lg_count lg") auto
  have h: "?h = (lr_head ?r + 1) mod lg_size lg" by (rule mask_next_inv [OF inv])
  then have hl: "?h < lg_size lg" using d by simp
  have "lr_tail ?r = (?h + n) mod lg_size lg"
    using tail_head_count [OF inv] by (simp add: h n mod_simps)
  with hl have cnt: "lg_count lg' = n"
    using ring_count_eq [of n "lg_size lg" ?h "lr_tail ?r"] n lg_count_less [OF inv]
    by (simp add: lg'_def lg_count_def)
  have "lg_inv lg'" using inv hl by (auto simp: lg_inv_def lg'_def)
  moreover have "lg_list lg = lr_entries ?r ! lr_head ?r # lg_list lg'"
    using ring_seg_Cons [of "lr_head ?r" "lr_entries ?r" n] d n cnt h
    by (simp add: lg_list_def lg'_def)
  moreover have "ring_take lg = Inr (Some (lr_entries ?r ! lr_head ?r, lg'))"
    using d ne empty_iff [OF inv] by (simp add: ring_take_def Let_def lg'_def)
  ultimately show ?thesis
    using n cnt by (intro that [of "lr_entries ?r ! lr_head ?r" lg']) (simp_all add: lg'_def)
qed

subsection \<open>The ring is a bounded FIFO of \<open>ring_size - 1\<close> entries\<close>

definition lg_bound :: "logger_t \<Rightarrow> nat" where
  "lg_bound lg = lg_size lg - 1"

definition lg_put :: "log_entry_t \<Rightarrow> logger_t \<Rightarrow> logger_t option" where
  "lg_put e lg = (case log_enter lg e of Inr (LW_Stored lg') \<Rightarrow> Some lg' | _ \<Rightarrow> None)"

definition lg_get :: "logger_t \<Rightarrow> (log_entry_t \<times> logger_t) option" where
  "lg_get lg = (case ring_take lg of Inr t \<Rightarrow> t | Inl _ \<Rightarrow> None)"

definition lg_ok :: "logger_t \<Rightarrow> bool" where
  "lg_ok lg \<longleftrightarrow> lg_inv lg \<and> \<not> lg_shutdown lg"

lemma lg_put_room:
  assumes "lg_ok lg" "lg_count lg < lg_bound lg"
  shows "\<exists>lg'. lg_put e lg = Some lg' \<and> lg_ok lg' \<and> lg_list lg' = lg_list lg @ [e]
           \<and> lg_bound lg' = lg_bound lg"
proof -
  from assms have inv: "lg_inv lg" and sd: "\<not> lg_shutdown lg" by (auto simp: lg_ok_def)
  from assms(2) have room: "lg_count lg < lg_size lg - 1" by (simp add: lg_bound_def)
  obtain lg' where "store_entry lg (mask_next (lg_ring_size lg) (lr_tail (lg_ring lg))) e
      = Inr (LW_Stored lg')" "lg_inv lg'" "lg_list lg' = lg_list lg @ [e]"
      "lg_size lg' = lg_size lg" "lg_shutdown lg' = lg_shutdown lg"
    using store_entry_room [OF inv room] by metis
  with room sd show ?thesis
    by (simp add: lg_put_def log_enter_def full_iff [OF inv] Let_def lg_ok_def lg_bound_def)
qed

lemma lg_put_full: "lg_ok lg \<Longrightarrow> lg_bound lg \<le> lg_count lg \<Longrightarrow> lg_put e lg = None"
  using lg_count_less [of lg]
  by (auto simp: lg_ok_def lg_put_def lg_bound_def log_enter_def log_resume_def full_iff Let_def)

lemma lg_get_item:
  assumes "lg_ok lg" "lg_list lg = e # es"
  shows "\<exists>lg'. lg_get lg = Some (e, lg') \<and> lg_ok lg' \<and> lg_list lg' = es \<and> lg_bound lg' = lg_bound lg"
proof -
  from assms have inv: "lg_inv lg" and sd: "\<not> lg_shutdown lg" by (auto simp: lg_ok_def)
  have ne: "0 < lg_count lg"
    using assms(2) by (metis length_lg_list length_greater_0_conv list.distinct(1))
  obtain x lg' where "ring_take lg = Inr (Some (x, lg'))" "lg_inv lg'"
    "lg_list lg = x # lg_list lg'" "lg_size lg' = lg_size lg" "lg_shutdown lg' = lg_shutdown lg"
    using ring_take_item [OF inv ne] by metis
  then show ?thesis using assms sd by (simp add: lg_get_def lg_ok_def lg_bound_def)
qed

lemma lg_list_Nil: "lg_list lg = [] \<longleftrightarrow> lg_count lg = 0"
  by (metis length_0_conv length_lg_list)

interpretation logring: bounded_fifo lg_ok lg_list lg_bound lg_put lg_get
proof unfold_locales
  fix lg x
  assume ok: "lg_ok lg"
  then have inv: "lg_inv lg" by (simp add: lg_ok_def)
  show "\<exists>q'. lg_put x lg = Some q' \<and> lg_ok q' \<and> lg_list q' = lg_list lg @ [x]
      \<and> lg_bound q' = lg_bound lg" if "length (lg_list lg) < lg_bound lg"
    using lg_put_room [OF ok] that by simp
  show "lg_put x lg = None" if "lg_bound lg \<le> length (lg_list lg)"
    using lg_put_full [OF ok] that by simp
  show "lg_get lg = None" if "lg_list lg = []"
    using that by (simp add: lg_list_Nil lg_get_def ring_take_def Let_def empty_iff [OF inv])
  show "\<exists>q'. lg_get lg = Some (x, q') \<and> lg_ok q' \<and> lg_list q' = xs \<and> lg_bound q' = lg_bound lg"
    if "lg_list lg = x # xs" for xs
    using lg_get_item [OF ok that] .
  show "length (lg_list lg) \<le> lg_bound lg"
    using lg_count_less [OF inv] by (simp add: lg_bound_def)
qed

subsection \<open>Batches\<close>

lemma grab_batch_list:
  assumes "lg_inv lg"
  shows "\<exists>lg'. grab_batch n lg = Inr (take n (lg_list lg), lg') \<and> lg_inv lg'
           \<and> lg_list lg' = drop n (lg_list lg) \<and> lg_shutdown lg' = lg_shutdown lg
           \<and> lg_size lg' = lg_size lg"
  using assms
proof (induction n arbitrary: lg)
  case 0
  then show ?case by simp
next
  case (Suc n)
  show ?case
  proof (cases "lg_count lg = 0")
    case True
    then have "ring_take lg = Inr None" "lg_list lg = []"
      using empty_iff [OF Suc.prems] by (simp_all add: ring_take_def Let_def lg_list_Nil)
    with Suc.prems show ?thesis by simp
  next
    case False
    obtain e lg1 where t: "ring_take lg = Inr (Some (e, lg1))" "lg_inv lg1"
        "lg_list lg = e # lg_list lg1" "lg_size lg1 = lg_size lg" "lg_shutdown lg1 = lg_shutdown lg"
      using ring_take_item [OF Suc.prems] False by (metis neq0_conv)
    from Suc.IH [OF t(2)] t show ?thesis by auto
  qed
qed

lemma logger_section_batch:
  assumes "lg_inv lg" "lg_list lg \<noteq> []"
  shows "\<exists>lg'. logger_section lg = Inr (Returns (Some (take BATCH_SIZE (lg_list lg))) lg')
           \<and> lg_inv lg' \<and> lg_list lg' = drop BATCH_SIZE (lg_list lg)
           \<and> lg_shutdown lg' = lg_shutdown lg \<and> lg_size lg' = lg_size lg"
proof -
  have "lr_tail (lg_ring lg) \<noteq> lr_head (lg_ring lg)"
    using assms empty_iff [OF assms(1)] by (auto simp: lg_list_Nil)
  with grab_batch_list [OF assms(1), of BATCH_SIZE] show ?thesis
    by (auto simp: logger_section_def Let_def)
qed

text \<open>
  The logger thread's loop when no producer runs any more, with fuel for its turns; the result is
  the list of batches it wrote, or \<open>None\<close> when it has not exited within the fuel (it waits, or
  the fuel ran out).
\<close>

fun logger_loop :: "nat \<Rightarrow> logger_t \<Rightarrow> (log_entry_t list list \<times> logger_t) option result" where
  "logger_loop 0 lg = Inr None"
| "logger_loop (Suc n) lg =
     bindR (logger_section lg) (\<lambda>r. case r of
        Blocks \<Rightarrow> Inr None
      | Returns None lg' \<Rightarrow> Inr (Some ([], lg'))
      | Returns (Some es) lg' \<Rightarrow>
          bindR (logger_loop n lg') (\<lambda>t. Inr (map_option (\<lambda>(bs, lg''). (es # bs, lg'')) t)))"

lemma logger_loop_shutdown:
  assumes "lg_inv lg" "lg_shutdown lg" "lg_count lg < n"
  shows "\<exists>bs lg'. logger_loop n lg = Inr (Some (bs, lg')) \<and> concat bs = lg_list lg
           \<and> lg_list lg' = [] \<and> (\<forall>b \<in> set bs. length b \<le> BATCH_SIZE)"
  using assms
proof (induction n arbitrary: lg)
  case 0
  then show ?case by simp
next
  case (Suc n)
  show ?case
  proof (cases "lg_list lg = []")
    case True
    then have "lr_tail (lg_ring lg) = lr_head (lg_ring lg)"
      using empty_iff [OF Suc.prems(1)] by (simp add: lg_list_Nil)
    with Suc.prems(2) True show ?thesis by (simp add: logger_section_def)
  next
    case False
    obtain lg1 where sec: "logger_section lg = Inr (Returns (Some (take BATCH_SIZE (lg_list lg))) lg1)"
        "lg_inv lg1" "lg_list lg1 = drop BATCH_SIZE (lg_list lg)" "lg_shutdown lg1"
      using logger_section_batch [OF Suc.prems(1) False] Suc.prems(2) by auto
    have "lg_count lg1 < n"
      using sec(3) Suc.prems(3) False length_lg_list [of lg1] length_lg_list [of lg]
      by (cases "lg_list lg") (auto simp: BATCH_SIZE_def lg_list_Nil [symmetric] simp del: length_lg_list)
    from Suc.IH [OF sec(2) sec(4) this] obtain bs lg' where
      "logger_loop n lg1 = Inr (Some (bs, lg'))" "concat bs = drop BATCH_SIZE (lg_list lg)"
      "lg_list lg' = []" "\<forall>b \<in> set bs. length b \<le> BATCH_SIZE"
      using sec(3) by auto
    with sec(1) show ?thesis by auto
  qed
qed

subsection \<open>Waiting producers\<close>

text \<open>
  A producer that wakes up alone stores its entry in the right place; its stale \<open>next_tail\<close> is
  still the successor of the tail.
\<close>

lemma log_resume_alone:
  assumes "lg_ok lg" "lg_count lg < lg_bound lg"
    and "nt = mask_next (lg_ring_size lg) (lr_tail (lg_ring lg))"
  shows "\<exists>lg'. log_resume lg nt e = Inr (LW_Stored lg') \<and> lg_ok lg' \<and> lg_list lg' = lg_list lg @ [e]"
proof -
  from assms have inv: "lg_inv lg" and sd: "\<not> lg_shutdown lg"
    and room: "lg_count lg < lg_size lg - 1" by (auto simp: lg_ok_def lg_bound_def)
  obtain lg' where "store_entry lg (mask_next (lg_ring_size lg) (lr_tail (lg_ring lg))) e
      = Inr (LW_Stored lg')" "lg_inv lg'" "lg_list lg' = lg_list lg @ [e]"
      "lg_shutdown lg' = lg_shutdown lg"
    using store_entry_room [OF inv room] by metis
  with room sd assms(3) show ?thesis
    by (simp add: log_resume_def full_iff [OF inv] lg_ok_def)
qed

text \<open>Storing at the one free slot with the tail's own value leaves the stored list unchanged.\<close>

lemma store_at_free_slot:
  assumes inv: "lg_inv lg" and full: "lg_count lg = lg_bound lg" and big: "1 < lg_size lg"
  shows "\<exists>lg'. store_entry lg (lr_tail (lg_ring lg)) e = Inr (LW_Stored lg')
           \<and> lg_inv lg' \<and> lg_list lg' = lg_list lg"
proof -
  note d = lg_invD [OF inv]
  let ?r = "lg_ring lg"
  define lg' where "lg' = lg\<lparr>lg_ring := ?r\<lparr>lr_entries := (lr_entries ?r)[lr_tail ?r := e],
     lr_tail := lr_tail ?r\<rparr>\<rparr>"
  have "lg_inv lg'" using inv by (auto simp: lg_inv_def lg'_def)
  moreover have cnt: "lg_count lg' = lg_count lg" by (simp add: lg'_def lg_count_def)
  moreover have "lg_list lg' = lg_list lg"
  proof -
    have "(lr_head ?r + i) mod lg_size lg \<noteq> lr_tail ?r" if "i < lg_count lg" for i
      using mod_add_neq [OF that lg_count_less [OF inv], of "lr_head ?r"] tail_head_count [OF inv]
      by simp
    then have "lr_tail ?r \<noteq> (lr_head ?r + i) mod lg_size lg" if "i < lg_count lg" for i
      using that by metis
    then show ?thesis
      using d cnt by (auto simp: lg_list_def ring_seg_def lg'_def nth_list_update)
  qed
  ultimately show ?thesis
    using d by (intro exI [of _ lg']) (simp add: store_entry_def Let_def lg'_def)
qed

subsection \<open>Properties\<close>


text \<open>A ring of two slots, empty and full, for the witnesses.\<close>

definition sample_logger :: logger_t where
  "sample_logger = \<lparr>lg_access_fd = 3, lg_event_fd = 4, lg_server_pid = 0, lg_ring_size = 2,
     lg_ring = \<lparr>lr_tail = 1, lr_head = 0, lr_entries = [format_entry LOG_TARGET_EVENT ''up'', zero_entry]\<rparr>,
     lg_shutdown = False\<rparr>"

lemma sample_logger_ok: "lg_ok sample_logger" "lg_inv sample_logger" "lg_count sample_logger = 1"
    "lg_list sample_logger = [format_entry LOG_TARGET_EVENT ''up'']" "lg_size sample_logger = 2"
    "lg_bound sample_logger = 1"
proof -
  show "lg_inv sample_logger"
    unfolding lg_inv_def by (auto simp: sample_logger_def lg_size_def intro: exI [of _ 1])
  then show "lg_ok sample_logger" by (simp add: lg_ok_def) (simp add: sample_logger_def)
  show "lg_count sample_logger = 1" "lg_size sample_logger = 2" "lg_bound sample_logger = 1"
    by (simp_all add: sample_logger_def lg_count_def lg_size_def lg_bound_def)
  then show "lg_list sample_logger = [format_entry LOG_TARGET_EVENT ''up'']"
    by (simp add: lg_list_def ring_seg_def) (simp add: sample_logger_def)
qed


text \<open>
  \<open>log_write\<close> on a running logger: with a free slot the message is appended to
  the ring; with a full ring an access message is dropped and an event message waits for the slot
  after the tail.  No branch writes outside the ring.
\<close>

theorem log_write_cases:
  assumes "lg_ok lg"
  shows "if lg_count lg < lg_bound lg
         then \<exists>lg'. log_write lg target txt = Inr (LW_Stored lg') \<and> lg_ok lg'
                 \<and> lg_list lg' = lg_list lg @ [format_entry target txt]
         else log_write lg target txt =
                Inr (if target = LOG_TARGET_ACCESS then LW_Dropped
                     else LW_Wait ((lr_tail (lg_ring lg) + 1) mod lg_size lg))"
proof (cases "lg_count lg < lg_bound lg")
  case True
  with lg_put_room [OF assms True, of "format_entry target txt"] show ?thesis
    by (auto simp: log_write_def lg_put_def split: sum.splits log_outcome.splits)
next
  case False
  from assms have inv: "lg_inv lg" and sd: "\<not> lg_shutdown lg" by (auto simp: lg_ok_def)
  from False have "lg_count lg = lg_size lg - 1"
    using lg_count_less [OF inv] by (simp add: lg_bound_def)
  then have "(lr_tail (lg_ring lg) + 1) mod lg_size lg = lr_head (lg_ring lg)"
    using full_iff [OF inv] by (simp only: mask_next_inv [OF inv])
  with False sd show ?thesis
    by (simp add: log_write_def log_enter_def log_resume_def Let_def format_entry_def
        mask_next_inv [OF inv])
qed

theorem log_write_cases_witness:
  "log_write sample_logger LOG_TARGET_ACCESS ''GET'' = Inr LW_Dropped
   \<and> log_write sample_logger LOG_TARGET_EVENT ''x'' = Inr (LW_Wait 0)"
proof -
  have "lr_tail (lg_ring sample_logger) = 1" by (simp add: sample_logger_def)
  then show ?thesis
    using log_write_cases [OF sample_logger_ok(1), of LOG_TARGET_ACCESS "''GET''"]
      log_write_cases [OF sample_logger_ok(1), of LOG_TARGET_EVENT "''x''"]
    by (simp add: sample_logger_ok)
qed





text \<open>
  The bytes handed to \<open>writev\<close> for a message are the message itself when it is
  shorter than the line buffer; for a message longer than the buffer the vector claims the length of
  the untruncated text, and the write reads past the end of the entry.
\<close>

lemma iov_bytes_entry:
  "iov_bytes (format_entry target txt) =
     (if length txt < LOG_LINE_MAX then Inr txt
      else if length txt = LOG_LINE_MAX then Inr (butlast txt @ [NUL])
      else Inl OutOfBounds)"
proof -
  have "length txt = LOG_LINE_MAX \<Longrightarrow> take (LOG_LINE_MAX - 1) txt = butlast txt"
    by (simp add: butlast_conv_take)
  moreover have "0 < LOG_LINE_MAX" by (simp add: LOG_LINE_MAX_def)
  ultimately show ?thesis
    by (auto simp: iov_bytes_def format_entry_def snprintf_ret_def snprintf_buf_def)
qed

text \<open>
  When the access write succeeds (or the batch has no access entry), the
  entries handed to the two files are exactly the batch, each file's in order.  When it fails, the
  batch's event entries are handed to no file.
\<close>

theorem flush_batch_writes:
  "let written = concat (map snd (fst (flush_batch lg es access_ok event_ok)))
   in if access_ok \<or> filter is_access es = []
      then mset written = mset es \<and> filter is_access written = filter is_access es
           \<and> filter (\<lambda>e. \<not> is_access e) written = filter (\<lambda>e. \<not> is_access e) es
      else filter (\<lambda>e. \<not> is_access e) written = []"
proof -
  let ?ev = "filter (\<lambda>e. \<not> is_access e) es"
  have nil: "filter is_access ?ev = []" "filter (\<lambda>e. \<not> is_access e) (filter is_access es) = []"
    by (auto simp: filter_empty_conv)
  have "concat (map snd (fst (flush_batch lg es access_ok event_ok)))
      = filter is_access es @ (if access_ok \<or> filter is_access es = [] then ?ev else [])"
    by (auto simp: flush_batch_def Let_def)
  moreover have "mset (filter is_access es @ ?ev) = mset es"
    using multiset_partition [of "mset es" is_access] by simp
  ultimately show ?thesis
    using nil by (simp add: Let_def)
qed

theorem flush_batch_writes_witness:
  "filter (\<lambda>e. \<not> is_access e) (concat (map snd (fst (flush_batch sample_logger
       [zero_entry, format_entry LOG_TARGET_EVENT ''up''] False True)))) = []"
  using flush_batch_writes [of sample_logger "[zero_entry, format_entry LOG_TARGET_EVENT ''up'']" False True]
  by (simp add: is_access_def zero_entry_def Let_def)

end
