(* ===== verification/ConnIO.thy ===== *)
theory ConnIO
  imports Types
begin

text \<open>
  The byte transport of a connection (\<open>conn_read\<close> and \<open>conn_write\<close> in \<open>src/http_common.c\<close>): one
  interface over plain sockets and TLS sessions.  What the kernel and OpenSSL answer is the
  environment, one event per call.
\<close>

subsection \<open>Answers of the environment\<close>

datatype errno_t = E_OK | EINTR | EAGAIN | EWOULDBLOCK | EIO | E_other nat

datatype ssl_error_t =
    SSL_ERROR_NONE | SSL_ERROR_SSL | SSL_ERROR_WANT_READ | SSL_ERROR_WANT_WRITE
  | SSL_ERROR_SYSCALL | SSL_ERROR_ZERO_RETURN

text \<open>
  \<open>Got s\<close>: the bytes \<open>s\<close> are there to be read, and the call takes as many as it has room for.
  \<open>Ret r err e p\<close>: the call returns \<open>r \<le> 0\<close>; OpenSSL's error code is \<open>err\<close> (plain sockets have
  none), \<open>errno\<close> is \<open>e\<close>, and a \<open>poll\<close> made right after it answers \<open>p\<close>.
\<close>

datatype read_event = Got string | Ret int ssl_error_t errno_t int

text \<open>\<open>Took n\<close>: the transport accepts up to \<open>n > 0\<close> bytes.  \<open>Refused\<close>: the call fails.\<close>

datatype write_event = Took nat | Refused int ssl_error_t errno_t

definition uses_tls :: "conn_t \<Rightarrow> bool" where
  "uses_tls c \<longleftrightarrow> conn_is_tls c \<and> conn_ssl c \<noteq> None"

subsection \<open>Reading\<close>

text \<open>The triple is the value returned, the bytes stored and \<open>errno\<close>.\<close>

definition conn_read :: "conn_t \<Rightarrow> nat \<Rightarrow> read_event \<Rightarrow> int \<times> string \<times> errno_t" where
  "conn_read c cnt ev =
     (case ev of
        Got s \<Rightarrow> (int (min cnt (length s)), take cnt s, E_OK)
      | Ret r err e p \<Rightarrow>
          if \<not> uses_tls c then (r, [], e)
          else (case err of
                  SSL_ERROR_ZERO_RETURN \<Rightarrow> (0, [], e)
                | SSL_ERROR_WANT_READ \<Rightarrow> (-1, [], EAGAIN)
                | SSL_ERROR_WANT_WRITE \<Rightarrow> (-1, [], EAGAIN)
                | SSL_ERROR_SYSCALL \<Rightarrow> (if r = 0 then (0, [], e) else (-1, [], e))
                | _ \<Rightarrow> (-1, [], EIO)))"

lemma conn_read_Got [simp]:
  "conn_read c cnt (Got s) = (int (min cnt (length s)), take cnt s, E_OK)"
  by (simp add: conn_read_def)

text \<open>A transport that follows the documentation never reports more than it was asked for.\<close>

lemma conn_read_bounds:
  assumes "conn_read c cnt ev = (n, s, e)" "\<And>r err e p. ev = Ret r err e p \<Longrightarrow> r \<le> 0"
  shows "n \<le> int cnt" "length s \<le> cnt" "0 < n \<Longrightarrow> int (length s) = n"
  using assms
  by (auto simp: conn_read_def split: read_event.splits if_splits ssl_error_t.splits)

subsection \<open>Writing\<close>

text \<open>The size handed to the transport: OpenSSL takes an \<open>int\<close>.\<close>

definition write_count :: "conn_t \<Rightarrow> nat \<Rightarrow> int" where
  "write_count c cnt = (if uses_tls c then to_int32 (int cnt) else int cnt)"

text \<open>
  The bytes that go out are the leading ones of the buffer.  A request for a size that is not
  positive (a \<open>size_t\<close> cut down to \<open>int\<close>) is a fatal error of OpenSSL.
\<close>

definition conn_write :: "conn_t \<Rightarrow> string \<Rightarrow> nat \<Rightarrow> write_event \<Rightarrow> int \<times> string \<times> errno_t" where
  "conn_write c buf cnt ev =
     (case ev of
        Took n \<Rightarrow>
          if uses_tls c \<and> write_count c cnt \<le> 0 then (-1, [], EIO)
          else (let m = min n (nat (write_count c cnt)) in (int m, take m buf, E_OK))
      | Refused r err e \<Rightarrow>
          if \<not> uses_tls c then (r, [], e)
          else (case err of
                  SSL_ERROR_WANT_READ \<Rightarrow> (-1, [], EAGAIN)
                | SSL_ERROR_WANT_WRITE \<Rightarrow> (-1, [], EAGAIN)
                | SSL_ERROR_SYSCALL \<Rightarrow> (-1, [], e)
                | _ \<Rightarrow> (-1, [], EIO)))"

lemma write_count_small: "cnt < 2 ^ 31 \<Longrightarrow> write_count c cnt = int cnt"
  by (simp add: write_count_def to_int32_id)

lemma conn_write_prefix:
  assumes "conn_write c buf cnt ev = (n, s, e)" "cnt \<le> length buf" "cnt < 2 ^ 31"
    "\<And>r err e. ev = Refused r err e \<Longrightarrow> r < 0"
  shows "n \<le> int cnt \<and> (0 \<le> n \<longrightarrow> s = take (nat n) buf) \<and> (n < 0 \<longrightarrow> s = [])"
  using assms write_count_small [of cnt c]
  by (auto simp: conn_write_def Let_def split: write_event.splits if_splits ssl_error_t.splits)

text \<open>
  Whatever the transport, the caller of \<open>conn_read\<close> sees the convention of
  \<open>read\<close>: on TLS a clean shutdown, and a system-call failure that returned 0, read as end of file
  (0), a session that wants more traffic as -1 with \<open>EAGAIN\<close>, a protocol error as -1 with \<open>EIO\<close>, and
  a failed system call as -1 with the \<open>errno\<close> it left; a plain socket's answer is passed on
  unchanged.
\<close>

theorem conn_read_codes:
  "conn_read c cnt (Ret r err e p) =
     (if conn_is_tls c \<and> conn_ssl c \<noteq> None
      then if err = SSL_ERROR_ZERO_RETURN \<or> (err = SSL_ERROR_SYSCALL \<and> r = 0) then (0, [], e)
           else if err = SSL_ERROR_WANT_READ \<or> err = SSL_ERROR_WANT_WRITE then (-1, [], EAGAIN)
           else if err = SSL_ERROR_SYSCALL then (-1, [], e)
           else (-1, [], EIO)
      else (r, [], e))"
  by (cases err) (auto simp: conn_read_def uses_tls_def)

end
