(* ===== verification/HeaderReader.thy ===== *)
theory HeaderReader
  imports ConnIO
begin

text \<open>
  Reading a request head (\<open>read_http_headers\<close> in \<open>src/http1.c\<close>): bytes are appended to the
  8192-byte header buffer until \<open>strstr\<close> finds the blank line, the buffer is full, the peer closes or
  an error ends the read.
\<close>

definition MAX_HEADER_SIZE :: nat where "MAX_HEADER_SIZE = 8192"

text \<open>The bytes a read stores, and the NUL written after them, at an offset of the buffer.\<close>

definition buf_put :: "nat \<Rightarrow> string \<Rightarrow> string \<Rightarrow> string result" where
  "buf_put off bs buf =
     (if off + length bs \<le> HEADER_BUFFER_SIZE
      then Inr (take off (buf @ replicate (off - length buf) NUL) @ bs @ drop (off + length bs) buf)
      else Inl OutOfBounds)"

text \<open>The bookkeeping once the end of the head is found at index \<open>eoh\<close>.\<close>

definition head_complete :: "nat \<Rightarrow> request_ctx_t \<Rightarrow> request_ctx_t" where
  "head_complete eoh ctx =
     (let total_header_length = eoh + 4;
          over = ctx_header_bytes_read ctx - total_header_length
      in ctx\<lparr>ctx_body_overshoot_bytes := over,
             ctx_body_overshoot_start := (if over > 0 then Some (eoh + 4) else None),
             ctx_header_bytes_read := total_header_length\<rparr>)"

text \<open>Bytes that were there and not taken stay to be read by the next call.\<close>

fun unread :: "read_event \<Rightarrow> nat \<Rightarrow> read_event list \<Rightarrow> read_event list" where
  "unread (Got s) n evs = (if n < length s then Got (drop n s) # evs else evs)"
| "unread (Ret r err e p) n evs = evs"

fun event_size :: "read_event \<Rightarrow> nat" where
  "event_size (Got s) = Suc (length s)"
| "event_size (Ret r err e p) = 1"

lemma event_size_unread:
  "0 < n \<Longrightarrow> sum_list (map event_size (unread ev n evs)) < event_size ev + sum_list (map event_size evs)"
  by (cases ev) auto

lemma event_size_pos [simp]: "0 < event_size ev"
  by (cases ev) auto

text \<open>
  The loop, one event of the environment per round.  \<open>Blocks\<close> is a read that waits for the next
  event; the events not consumed are returned.
\<close>

function read_http_headers ::
  "request_ctx_t \<Rightarrow> read_event list \<Rightarrow> (int, request_ctx_t \<times> read_event list) outcome result" where
  "read_http_headers ctx evs =
     (if \<not> ctx_header_bytes_read ctx < MAX_HEADER_SIZE - 1 then Inr (Returns (-3) (ctx, evs))
      else (case evs of
        [] \<Rightarrow> Inr Blocks
      | ev # evs' \<Rightarrow>
          (let off = ctx_header_bytes_read ctx;
               (n, bs, err) = conn_read (ctx_conn ctx) (MAX_HEADER_SIZE - 1 - off) ev
           in if n < 0 then
                (if err = EINTR then read_http_headers ctx evs'
                 else if err = EAGAIN \<or> err = EWOULDBLOCK then
                   (case ev of
                      Ret r e en p_res \<Rightarrow>
                        if p_res = 0 then Inr (Returns (-4) (ctx, evs'))
                        else if p_res < 0 then Inr (Returns (-1) (ctx, evs'))
                        else read_http_headers ctx evs'
                    | Got s \<Rightarrow> Inr (Returns (-1) (ctx, evs')))
                 else Inr (Returns (-1) (ctx, evs')))
              else if n = 0 then Inr (Returns (-2) (ctx, evs'))
              else bindR (buf_put off bs (ctx_header_buffer ctx)) (\<lambda>b1.
                   bindR (buf_put (off + nat n) [NUL] b1) (\<lambda>b2.
                     let ctx1 = ctx\<lparr>ctx_header_bytes_read := off + nat n, ctx_header_buffer := b2\<rparr>
                     in (case strstr b2 (CRLF @ CRLF) of
                           Some eoh \<Rightarrow> Inr (Returns 0 (head_complete eoh ctx1, unread ev (nat n) evs'))
                         | None \<Rightarrow> read_http_headers ctx1 (unread ev (nat n) evs')))))))"
  by pat_completeness auto

termination
  by (relation "measure (\<lambda>(ctx, evs). sum_list (map event_size evs))")
    (auto intro: event_size_unread)

declare read_http_headers.simps [simp del]

subsection \<open>One round\<close>

text \<open>
  The buffer invariant: it holds the \<open>data\<close> received so far and a NUL, and the blank line is not yet
  among them.
\<close>

definition partial_head :: "string \<Rightarrow> request_ctx_t \<Rightarrow> bool" where
  "partial_head data ctx \<longleftrightarrow>
     ctx_header_bytes_read ctx = length data \<and> length data \<le> MAX_HEADER_SIZE - 1
     \<and> length (ctx_header_buffer ctx) \<le> HEADER_BUFFER_SIZE
     \<and> take (length data) (ctx_header_buffer ctx) = data
     \<and> find_sub (CRLF @ CRLF) (cstr data) = None"

lemma buf_put_at:
  assumes "take (length d) buf = d" "length d + length bs \<le> HEADER_BUFFER_SIZE"
  shows "buf_put (length d) bs buf = Inr (d @ bs @ drop (length d + length bs) buf)"
proof -
  have "length d \<le> length buf"
    by (metis assms(1) length_take min.cobounded1)
  with assms show ?thesis by (simp add: buf_put_def)
qed

lemma cstr_append_NUL_drop: "cstr (d @ NUL # r) = cstr d"
  unfolding cstr_def by (induction d) auto

lemma strstr_crlf2: "strstr b (CRLF @ CRLF) = find_sub (CRLF @ CRLF) (cstr b)"
  by (simp add: strstr_def cstr_def)

lemma read_round:
  assumes "partial_head data ctx" "length data < MAX_HEADER_SIZE - 1"
    and s: "s \<noteq> []"
  defines "bs \<equiv> take (MAX_HEADER_SIZE - 1 - length data) s"
  obtains b where
    "take (length (data @ bs)) b = data @ bs" "length b \<le> HEADER_BUFFER_SIZE"
    "length (data @ bs) \<le> MAX_HEADER_SIZE - 1"
    "read_http_headers ctx (Got s # evs) =
       (let ctx1 = ctx\<lparr>ctx_header_bytes_read := length (data @ bs), ctx_header_buffer := b\<rparr>
        in case find_sub (CRLF @ CRLF) (cstr (data @ bs)) of
             Some eoh \<Rightarrow> Inr (Returns 0 (head_complete eoh ctx1, unread (Got s) (length bs) evs))
           | None \<Rightarrow> read_http_headers ctx1 (unread (Got s) (length bs) evs))"
proof -
  have off: "ctx_header_bytes_read ctx = length data"
    and len: "length (ctx_header_buffer ctx) \<le> HEADER_BUFFER_SIZE"
    and tk: "take (length data) (ctx_header_buffer ctx) = data"
    using assms(1) by (simp_all add: partial_head_def)
  have bs: "0 < length bs" "length data + length bs \<le> MAX_HEADER_SIZE - 1"
    using s assms(2) by (auto simp: bs_def)
  have min: "min (MAX_HEADER_SIZE - 1 - length data) (length s) = length bs"
    by (simp add: bs_def)
  let ?b1 = "(data @ bs) @ drop (length data + length bs) (ctx_header_buffer ctx)"
  have p1: "buf_put (length data) bs (ctx_header_buffer ctx) = Inr ?b1"
    using buf_put_at [OF tk, of bs] bs by (simp add: HEADER_BUFFER_SIZE_def MAX_HEADER_SIZE_def)
  let ?b2 = "(data @ bs) @ NUL # drop (length data + length bs + 1) ?b1"
  have p2: "buf_put (length data + length bs) [NUL] ?b1 = Inr ?b2"
    using buf_put_at [of "data @ bs" ?b1 "[NUL]"] bs
    by (simp add: HEADER_BUFFER_SIZE_def MAX_HEADER_SIZE_def)
  show ?thesis
  proof (rule that [of ?b2])
    show "take (length (data @ bs)) ?b2 = data @ bs" by simp
    show "length (data @ bs) \<le> MAX_HEADER_SIZE - 1" using bs by simp
    show "length ?b2 \<le> HEADER_BUFFER_SIZE"
      using bs len by (simp add: HEADER_BUFFER_SIZE_def MAX_HEADER_SIZE_def)
    have cr: "conn_read (ctx_conn ctx) (MAX_HEADER_SIZE - 1 - length data) (Got s)
        = (int (length bs), bs, E_OK)"
      by (simp only: conn_read_Got min bs_def)
    have nn: "\<not> int (length bs) < 0" "int (length bs) \<noteq> 0" using bs(1) by simp_all
    have ss: "strstr ?b2 (CRLF @ CRLF) = find_sub (CRLF @ CRLF) (cstr (data @ bs))"
      by (simp only: strstr_crlf2 cstr_append_NUL_drop)
    show "read_http_headers ctx (Got s # evs) =
       (let ctx1 = ctx\<lparr>ctx_header_bytes_read := length (data @ bs), ctx_header_buffer := ?b2\<rparr>
        in case find_sub (CRLF @ CRLF) (cstr (data @ bs)) of
             Some eoh \<Rightarrow> Inr (Returns 0 (head_complete eoh ctx1, unread (Got s) (length bs) evs))
           | None \<Rightarrow> read_http_headers ctx1 (unread (Got s) (length bs) evs))"
      using assms(2) nn
      by (subst read_http_headers.simps)
        (simp only: off cr list.case Let_def prod.case if_True if_False not_True_eq_False p1 p2 bindR.simps
          ss nat_int length_append)
  qed
qed

subsection \<open>The whole loop\<close>

fun received :: "read_event list \<Rightarrow> string" where
  "received [] = []"
| "received (Got s # evs) = s @ received evs"
| "received (Ret r err e p # evs) = received evs"

text \<open>Events after which the loop goes on: data, an interrupted call, a wait that data ends.\<close>

definition carries_on :: "conn_t \<Rightarrow> read_event \<Rightarrow> bool" where
  "carries_on c ev =
     (case ev of
        Got s \<Rightarrow> s \<noteq> []
      | Ret r err e p \<Rightarrow>
          (let (n, bs, en) = conn_read c 0 ev
           in n < 0 \<and> (en = EINTR \<or> (en = EAGAIN \<or> en = EWOULDBLOCK) \<and> 0 < p)))"

definition only_reader_fields :: "request_ctx_t \<Rightarrow> request_ctx_t \<Rightarrow> bool" where
  "only_reader_fields ctx ctx' \<longleftrightarrow>
     ctx' = ctx\<lparr>ctx_header_buffer := ctx_header_buffer ctx',
        ctx_header_bytes_read := ctx_header_bytes_read ctx',
        ctx_body_overshoot_bytes := ctx_body_overshoot_bytes ctx',
        ctx_body_overshoot_start := ctx_body_overshoot_start ctx'\<rparr>"

lemma only_reader_fields_refl [simp]: "only_reader_fields ctx ctx"
  by (simp add: only_reader_fields_def)

lemma only_reader_fields_step:
  "only_reader_fields (ctx\<lparr>ctx_header_bytes_read := n, ctx_header_buffer := b\<rparr>) ctx'
   \<Longrightarrow> only_reader_fields ctx ctx'"
  by (cases ctx; cases ctx') (simp add: only_reader_fields_def)

lemma received_unread:
  "received (unread (Got s) n evs) = drop n s @ received evs"
  by simp

lemma find_sub_append: "find_sub nd xs = Some i \<Longrightarrow> find_sub nd (xs @ ys) = Some i"
proof -
  assume "find_sub nd xs = Some i"
  then have i: "i \<le> length xs" "is_prefix nd (drop i xs)" "\<forall>j < i. \<not> is_prefix nd (drop j xs)"
    by (auto simp: find_sub_Some_iff)
  have len: "length nd \<le> length xs - i"
    using i(2) by (auto simp: is_prefix_iff dest: arg_cong [of _ _ length])
  have "is_prefix nd (drop j (xs @ ys)) \<longleftrightarrow> is_prefix nd (drop j xs)" if "j \<le> i" for j
  proof -
    have "length nd \<le> length (drop j xs)" using len that by simp
    moreover have "drop j (xs @ ys) = drop j xs @ ys" using that i(1) by simp
    ultimately show ?thesis
      by (auto simp: is_prefix_iff append_eq_append_conv2)
  qed
  with i show ?thesis by (auto simp: find_sub_Some_iff)
qed

lemma cstr_append: "\<exists>zs. cstr (xs @ ys) = cstr xs @ zs"
  unfolding cstr_def by (induction xs) auto

lemma cstr_crlf2_prefix:
  "find_sub (CRLF @ CRLF) (cstr xs) = Some i \<Longrightarrow> find_sub (CRLF @ CRLF) (cstr (xs @ ys)) = Some i"
  using cstr_append [of xs ys] by (metis find_sub_append)

lemma find_sub_length: "find_sub nd hay = Some i \<Longrightarrow> i + length nd \<le> length hay"
proof -
  assume "find_sub nd hay = Some i"
  then have "i \<le> length hay" "is_prefix nd (drop i hay)" by (auto simp: find_sub_Some_iff)
  then show ?thesis by (auto simp: is_prefix_iff dest: arg_cong [of _ _ length])
qed

lemma head_complete_buffer:
  assumes "take (length d) b = d" "find_sub (CRLF @ CRLF) (cstr d) = Some i"
    and "ctx1 = ctx\<lparr>ctx_header_bytes_read := length d, ctx_header_buffer := b\<rparr>"
  defines "ctx' \<equiv> head_complete i ctx1"
  shows "ctx_header_bytes_read ctx' = i + 4" "only_reader_fields ctx ctx'"
    "ctx_header_bytes_read ctx' + ctx_body_overshoot_bytes ctx' = length d"
    "take (length d) (ctx_header_buffer ctx') = d"
    "ctx_body_overshoot_start ctx' = (if length d = i + 4 then None else Some (i + 4))"
proof -
  have "i + 4 \<le> length d"
    using find_sub_length [OF assms(2)] length_cstr_le [of d] by simp
  moreover have "ctx' = ctx\<lparr>ctx_header_bytes_read := i + 4, ctx_header_buffer := b,
      ctx_body_overshoot_bytes := length d - (i + 4),
      ctx_body_overshoot_start := (if length d - (i + 4) > 0 then Some (i + 4) else None)\<rparr>"
    by (simp add: ctx'_def assms(3) head_complete_def Let_def)
  ultimately show "ctx_header_bytes_read ctx' = i + 4" "only_reader_fields ctx ctx'"
    "ctx_header_bytes_read ctx' + ctx_body_overshoot_bytes ctx' = length d"
    "take (length d) (ctx_header_buffer ctx') = d"
    "ctx_body_overshoot_start ctx' = (if length d = i + 4 then None else Some (i + 4))"
    by (simp_all add: assms(1) only_reader_fields_def)
qed

lemma carries_on_retry:
  assumes "carries_on (ctx_conn ctx) (Ret r err e p)" "ctx_header_bytes_read ctx < MAX_HEADER_SIZE - 1"
  shows "read_http_headers ctx (Ret r err e p # evs) = read_http_headers ctx evs"
proof -
  let ?ev = "Ret r err e p"
  have "conn_read (ctx_conn ctx) n ?ev = conn_read (ctx_conn ctx) 0 ?ev" for n
    by (simp add: conn_read_def)
  with assms show ?thesis
    by (subst read_http_headers.simps)
      (auto simp: carries_on_def Let_def split: prod.splits)
qed

text \<open>
  What a completed read leaves: the head ends at index \<open>i + 4\<close>, and every byte received is in the
  buffer (as head or as overshoot) or still unread.
\<close>

definition head_read :: "request_ctx_t \<Rightarrow> request_ctx_t \<Rightarrow> nat \<Rightarrow> string \<Rightarrow> read_event list \<Rightarrow> bool" where
  "head_read ctx ctx' i d rest \<longleftrightarrow>
     only_reader_fields ctx ctx' \<and> ctx_header_bytes_read ctx' = i + 4
     \<and> d = take (ctx_header_bytes_read ctx' + ctx_body_overshoot_bytes ctx') (ctx_header_buffer ctx')
          @ received rest
     \<and> take (i + 4) (ctx_header_buffer ctx') = take (i + 4) d
     \<and> ctx_body_overshoot_start ctx'
       = (if ctx_body_overshoot_bytes ctx' = 0 then None else Some (i + 4))"

definition head_outcome :: "request_ctx_t \<Rightarrow> string \<Rightarrow> (int, request_ctx_t \<times> read_event list) outcome result \<Rightarrow> bool" where
  "head_outcome ctx d r \<longleftrightarrow>
     (case find_sub (CRLF @ CRLF) (cstr (take (MAX_HEADER_SIZE - 1) d)) of
        Some i \<Rightarrow> (\<exists>ctx' rest. r = Inr (Returns 0 (ctx', rest)) \<and> head_read ctx ctx' i d rest)
      | None \<Rightarrow>
          if MAX_HEADER_SIZE - 1 \<le> length d
          then (\<exists>ctx' rest. r = Inr (Returns (-3) (ctx', rest)) \<and> only_reader_fields ctx ctx')
          else r = Inr Blocks)"

lemma head_read_step:
  "head_read (ctx\<lparr>ctx_header_bytes_read := n, ctx_header_buffer := b\<rparr>) ctx' i d rest
   \<Longrightarrow> head_read ctx ctx' i d rest"
  unfolding head_read_def by (blast intro: only_reader_fields_step)

lemma head_outcome_step:
  "head_outcome (ctx\<lparr>ctx_header_bytes_read := n, ctx_header_buffer := b\<rparr>) d r \<Longrightarrow> head_outcome ctx d r"
  unfolding head_outcome_def
  by (cases "find_sub (CRLF @ CRLF) (cstr (take (MAX_HEADER_SIZE - 1) d))";
      cases "MAX_HEADER_SIZE - 1 \<le> length d";
      simp only: option.case if_True if_False) (blast intro: head_read_step only_reader_fields_step)+

lemma head_found:
  assumes "take (length d) b = d" "find_sub (CRLF @ CRLF) (cstr d) = Some i"
    "length d \<le> MAX_HEADER_SIZE - 1"
    and "ctx1 = ctx\<lparr>ctx_header_bytes_read := length d, ctx_header_buffer := b\<rparr>"
  shows "head_outcome ctx (d @ received rest) (Inr (Returns 0 (head_complete i ctx1, rest)))"
proof -
  have "take (MAX_HEADER_SIZE - 1) (d @ received rest)
      = d @ take (MAX_HEADER_SIZE - 1 - length d) (received rest)"
    using assms(3) by simp
  then have f: "find_sub (CRLF @ CRLF) (cstr (take (MAX_HEADER_SIZE - 1) (d @ received rest))) = Some i"
    by (simp only: cstr_crlf2_prefix [OF assms(2)])
  note b = head_complete_buffer [OF assms(1,2,4)]
  have i: "i + 4 \<le> length d"
    using find_sub_length [OF assms(2)] length_cstr_le [of d] by simp
  have "take (i + 4) (ctx_header_buffer (head_complete i ctx1)) = take (i + 4) d"
    using b(4) i by (metis min.absorb1 take_take)
  moreover have "ctx_body_overshoot_bytes (head_complete i ctx1) = 0 \<longleftrightarrow> length d = i + 4"
    using b(1,3) by linarith
  ultimately have "head_read ctx (head_complete i ctx1) i (d @ received rest) rest"
    using b i by (simp add: head_read_def)
  with f show ?thesis by (auto simp: head_outcome_def)
qed

lemma reader_main:
  "\<forall>ev \<in> set evs. carries_on (ctx_conn ctx) ev \<Longrightarrow> partial_head data ctx \<Longrightarrow>
   head_outcome ctx (data @ received evs) (read_http_headers ctx evs)"
proof (induction "sum_list (map event_size evs)" arbitrary: evs ctx data rule: less_induct)
  case less
  note ph = less.prems(2)
  then have len: "ctx_header_bytes_read ctx = length data" "length data \<le> MAX_HEADER_SIZE - 1"
    and nf: "find_sub (CRLF @ CRLF) (cstr data) = None"
    by (simp_all add: partial_head_def)
  show ?case
  proof (cases "length data < MAX_HEADER_SIZE - 1")
    case False
    then have "read_http_headers ctx evs = Inr (Returns (-3) (ctx, evs))"
      using len by (subst read_http_headers.simps) simp
    moreover have "take (MAX_HEADER_SIZE - 1) (data @ received evs) = data"
      using False len by simp
    ultimately show ?thesis using nf False by (simp add: head_outcome_def)
  next
    case room: True
    show ?thesis
    proof (cases evs)
      case Nil
      then have "read_http_headers ctx evs = Inr Blocks"
        using len room by (subst read_http_headers.simps) simp
      with Nil nf room show ?thesis by (simp add: head_outcome_def)
    next
      case (Cons ev evs')
      show ?thesis
      proof (cases ev)
        case (Ret r err e p)
        then have "read_http_headers ctx evs = read_http_headers ctx evs'"
          using carries_on_retry [of ctx r err e p evs'] less.prems(1) len room Cons by simp
        with less.hyps [of evs' ctx data] less.prems Cons Ret show ?thesis by simp
      next
        case (Got s)
        then have s: "s \<noteq> []" using less.prems(1) Cons by (auto simp: carries_on_def)
        define bs where "bs = take (MAX_HEADER_SIZE - 1 - length data) s"
        define next_evs where "next_evs = unread (Got s) (length bs) evs'"
        obtain b where b: "take (length (data @ bs)) b = data @ bs"
          "length b \<le> HEADER_BUFFER_SIZE" "length (data @ bs) \<le> MAX_HEADER_SIZE - 1"
          and rd: "read_http_headers ctx evs =
            (let ctx1 = ctx\<lparr>ctx_header_bytes_read := length (data @ bs), ctx_header_buffer := b\<rparr>
             in case find_sub (CRLF @ CRLF) (cstr (data @ bs)) of
                  Some eoh \<Rightarrow> Inr (Returns 0 (head_complete eoh ctx1, next_evs))
                | None \<Rightarrow> read_http_headers ctx1 next_evs)"
          using read_round [OF ph room s, of evs'] unfolding bs_def next_evs_def Cons Got by metis
        define ctx1 where "ctx1 = ctx\<lparr>ctx_header_bytes_read := length (data @ bs), ctx_header_buffer := b\<rparr>"
        have all: "data @ received evs = (data @ bs) @ received next_evs"
          by (simp add: Cons Got next_evs_def bs_def)
        show ?thesis
        proof (cases "find_sub (CRLF @ CRLF) (cstr (data @ bs))")
          case (Some i)
          then show ?thesis
            using head_found [OF b(1) Some b(3) ctx1_def] rd all by (simp add: ctx1_def)
        next
          case None
          have "bs \<noteq> []" using s room by (simp add: bs_def)
          then have "sum_list (map event_size next_evs) < sum_list (map event_size evs)"
            using event_size_unread [of "length bs" "Got s" evs'] by (simp add: next_evs_def Cons Got)
          moreover have "\<forall>ev \<in> set next_evs. carries_on (ctx_conn ctx1) ev"
            using less.prems(1) by (auto simp: next_evs_def Cons Got ctx1_def carries_on_def)
          moreover have "partial_head (data @ bs) ctx1"
            using b None by (simp add: partial_head_def ctx1_def)
          ultimately have "head_outcome ctx1 ((data @ bs) @ received next_evs) (read_http_headers ctx1 next_evs)"
            by (rule less.hyps)
          then have "head_outcome ctx ((data @ bs) @ received next_evs) (read_http_headers ctx1 next_evs)"
            unfolding ctx1_def by (rule head_outcome_step)
          with None rd show ?thesis unfolding all by (simp add: ctx1_def)
        qed
      qed
    qed
  qed
qed

lemma partial_head_zero: "partial_head [] (zero_ctx c t)"
  by (simp add: partial_head_def zero_ctx_def cstr_def)

text \<open>
  C15. When the peer keeps sending and the loop is only interrupted or made to
  wait for data that comes, the result depends on the bytes sent and not on how they were cut into
  reads: it returns 0 once the first 8191 bytes hold a blank line before any NUL, with the head in
  the buffer, the rest of the last read counted as overshoot and every byte received accounted for;
  it returns -3 when 8191 bytes came without one; otherwise it waits for more.
\<close>

theorem reader_outcome_by_bytes:
  assumes "\<forall>ev \<in> set evs. carries_on c ev"
  shows "head_outcome (zero_ctx c t) (received evs) (read_http_headers (zero_ctx c t) evs)"
proof -
  have "\<forall>ev \<in> set evs. carries_on (ctx_conn (zero_ctx c t)) ev"
    using assms by (simp add: zero_ctx_def)
  from reader_main [OF this partial_head_zero] show ?thesis by simp
qed

theorem reader_outcome_by_bytes_witness:
  "\<exists>ctx' rest. read_http_headers (zero_ctx zero_conn 0)
      [Got (''GET / HTTP/1.1'' @ [CR]), Ret (-1) SSL_ERROR_NONE EINTR 0, Got [LF, CR],
       Ret (-1) SSL_ERROR_NONE EAGAIN 1, Got (LF # ''xyz'')] = Inr (Returns 0 (ctx', rest))
     \<and> ctx_header_bytes_read ctx' = 18"
proof -
  let ?evs = "[Got (''GET / HTTP/1.1'' @ [CR]), Ret (-1) SSL_ERROR_NONE EINTR 0, Got [LF, CR],
       Ret (-1) SSL_ERROR_NONE EAGAIN 1, Got (LF # ''xyz'')]"
  let ?d = "''GET / HTTP/1.1'' @ [CR, LF, CR, LF] @ ''xyz''"
  have "\<forall>ev \<in> set ?evs. carries_on zero_conn ev"
    by (simp add: carries_on_def conn_read_def uses_tls_def zero_conn_def)
  note o = reader_outcome_by_bytes [OF this, of 0]
  have d: "received ?evs = ?d" by simp
  have "cstr (take (MAX_HEADER_SIZE - 1) ?d) = ?d" by (simp add: MAX_HEADER_SIZE_def cstr_id)
  moreover have "find_sub (CRLF @ CRLF) ?d = Some 14" by simp
  ultimately obtain ctx' rest where r:
    "read_http_headers (zero_ctx zero_conn 0) ?evs = Inr (Returns 0 (ctx', rest))"
    "head_read (zero_ctx zero_conn 0) ctx' 14 ?d rest"
    using o unfolding head_outcome_def d by (simp only: option.case) blast
  then show ?thesis by (auto simp: head_read_def)
qed

subsection \<open>Any environment\<close>

text \<open>A complete head: no NUL, ended by its first blank line.\<close>

definition whole_head :: "string \<Rightarrow> bool" where
  "whole_head h \<longleftrightarrow> NUL \<notin> set h \<and> 4 \<le> length h \<and> find_sub (CRLF @ CRLF) h = Some (length h - 4)"

definition request_head :: "request_ctx_t \<Rightarrow> string" where
  "request_head ctx = take (ctx_header_bytes_read ctx) (ctx_header_buffer ctx)"

definition reader_ok :: "request_ctx_t \<Rightarrow> (int, request_ctx_t \<times> read_event list) outcome result \<Rightarrow> bool" where
  "reader_ok ctx r \<longleftrightarrow>
     (case r of
        Inl f \<Rightarrow> False
      | Inr Blocks \<Rightarrow> True
      | Inr (Returns k (ctx', rest)) \<Rightarrow>
          k \<in> {0, -1, -2, -3, -4} \<and> only_reader_fields ctx ctx'
          \<and> ctx_header_bytes_read ctx' \<le> MAX_HEADER_SIZE - 1
          \<and> (k = 0 \<longrightarrow> whole_head (request_head ctx')
                 \<and> length (request_head ctx') = ctx_header_bytes_read ctx'))"

lemma reader_ok_step:
  "reader_ok (ctx\<lparr>ctx_header_bytes_read := n, ctx_header_buffer := b\<rparr>) r \<Longrightarrow> reader_ok ctx r"
  by (auto simp: reader_ok_def dest: only_reader_fields_step split: sum.splits outcome.splits)

lemma find_sub_take:
  assumes "find_sub nd xs = Some i"
  shows "find_sub nd (take (i + length nd) xs) = Some i"
proof -
  let ?t = "take (i + length nd) xs"
  from assms have i: "i \<le> length xs" "is_prefix nd (drop i xs)" "\<forall>j < i. \<not> is_prefix nd (drop j xs)"
    by (auto simp: find_sub_Some_iff)
  have "is_prefix nd (drop i ?t)"
    using i(2) by (auto simp: is_prefix_iff drop_take)
  moreover have "\<not> is_prefix nd (drop j ?t)" if "j < i" for j
  proof
    assume "is_prefix nd (drop j ?t)"
    then have "is_prefix nd (drop j ?t @ drop (i + length nd) xs)"
      by (auto simp: is_prefix_iff)
    moreover have "drop j ?t @ drop (i + length nd) xs = drop j xs"
      using that i(1) by (metis append_take_drop_id drop_append drop_take find_sub_length [OF assms]
          diff_is_0_eq' drop0 le_add1 le_trans less_imp_le length_take min.absorb2)
    ultimately show False using i(3) that by simp
  qed
  ultimately show ?thesis using i(1) by (auto simp: find_sub_Some_iff)
qed

lemma whole_head_at:
  assumes "find_sub (CRLF @ CRLF) (cstr d) = Some i"
  shows "whole_head (take (i + 4) d)" "length (take (i + 4) d) = i + 4"
proof -
  have i: "i + 4 \<le> length (cstr d)" using find_sub_length [OF assms] by simp
  obtain z where z: "d = cstr d @ z" unfolding cstr_def by (metis takeWhile_dropWhile_id)
  then have t: "take (i + 4) d = take (i + 4) (cstr d)"
    using i by (metis append_Nil2 diff_is_0_eq' take_append take0)
  have "NUL \<notin> set (take (i + 4) (cstr d))" by (meson NUL_notin_cstr in_set_takeD)
  moreover have "length (CRLF @ CRLF) = 4" by simp
  with find_sub_take [OF assms] have "find_sub (CRLF @ CRLF) (take (i + 4) (cstr d)) = Some i"
    by (simp only:)
  ultimately show "whole_head (take (i + 4) d)" "length (take (i + 4) d) = i + 4"
    using i by (simp_all add: whole_head_def t)
qed

lemma reader_ok_head:
  assumes "take (length d) b = d" "find_sub (CRLF @ CRLF) (cstr d) = Some i"
    "length d \<le> MAX_HEADER_SIZE - 1"
    and "ctx1 = ctx\<lparr>ctx_header_bytes_read := length d, ctx_header_buffer := b\<rparr>"
  shows "reader_ok ctx (Inr (Returns 0 (head_complete i ctx1, rest)))"
proof -
  note b = head_complete_buffer [OF assms(1,2,4)]
  have i: "i + 4 \<le> length d"
    using find_sub_length [OF assms(2)] length_cstr_le [of d] by simp
  have "request_head (head_complete i ctx1) = take (i + 4) d"
    using b(1,4) i by (metis request_head_def min.absorb1 take_take)
  with whole_head_at [OF assms(2)] b i assms(3) show ?thesis
    by (simp add: reader_ok_def)
qed

lemma reader_ok_ret:
  assumes "ctx_header_bytes_read ctx < MAX_HEADER_SIZE - 1" "r \<le> 0"
    "reader_ok ctx (read_http_headers ctx evs)"
  shows "reader_ok ctx (read_http_headers ctx (Ret r err e p # evs))"
  using assms
  by (subst read_http_headers.simps)
    (auto simp: reader_ok_def conn_read_def split: ssl_error_t.splits)

lemma reader_any:
  "(\<forall>r err e p. Ret r err e p \<in> set evs \<longrightarrow> r \<le> 0) \<Longrightarrow> partial_head data ctx \<Longrightarrow>
   reader_ok ctx (read_http_headers ctx evs)"
proof (induction "sum_list (map event_size evs)" arbitrary: evs ctx data rule: less_induct)
  case less
  note ph = less.prems(2)
  then have len: "ctx_header_bytes_read ctx = length data" "length data \<le> MAX_HEADER_SIZE - 1"
    by (simp_all add: partial_head_def)
  show ?case
  proof (cases "length data < MAX_HEADER_SIZE - 1 \<and> evs \<noteq> []")
    case False
    then show ?thesis
      using len by (subst read_http_headers.simps) (auto simp: reader_ok_def)
  next
    case room: True
    then obtain ev evs' where evs: "evs = ev # evs'" by (metis list.exhaust)
    show ?thesis
    proof (cases ev)
      case (Ret r err e p)
      then have "reader_ok ctx (read_http_headers ctx evs')"
        using less.hyps [of evs' data ctx] less.prems evs by auto
      with Ret evs room len less.prems(1) show ?thesis by (auto intro: reader_ok_ret)
    next
      case (Got s)
      show ?thesis
      proof (cases "s = []")
        case True
        then show ?thesis
          using Got evs room len by (subst read_http_headers.simps) (simp add: reader_ok_def)
      next
        case s: False
        define bs where "bs = take (MAX_HEADER_SIZE - 1 - length data) s"
        define next_evs where "next_evs = unread (Got s) (length bs) evs'"
        obtain b where b: "take (length (data @ bs)) b = data @ bs"
          "length b \<le> HEADER_BUFFER_SIZE" "length (data @ bs) \<le> MAX_HEADER_SIZE - 1"
          and rd: "read_http_headers ctx evs =
            (let ctx1 = ctx\<lparr>ctx_header_bytes_read := length (data @ bs), ctx_header_buffer := b\<rparr>
             in case find_sub (CRLF @ CRLF) (cstr (data @ bs)) of
                  Some eoh \<Rightarrow> Inr (Returns 0 (head_complete eoh ctx1, next_evs))
                | None \<Rightarrow> read_http_headers ctx1 next_evs)"
          using read_round [OF ph conjunct1 [OF room] s, of evs'] unfolding bs_def next_evs_def evs Got
          by metis
        define ctx1 where "ctx1 = ctx\<lparr>ctx_header_bytes_read := length (data @ bs), ctx_header_buffer := b\<rparr>"
        show ?thesis
        proof (cases "find_sub (CRLF @ CRLF) (cstr (data @ bs))")
          case (Some i)
          then show ?thesis
            using reader_ok_head [OF b(1) Some b(3) ctx1_def] rd by (simp add: ctx1_def)
        next
          case None
          have "bs \<noteq> []" using s room by (auto simp: bs_def)
          then have "sum_list (map event_size next_evs) < sum_list (map event_size evs)"
            using event_size_unread [of "length bs" "Got s" evs'] by (simp add: next_evs_def evs Got)
          moreover have "\<forall>r err e p. Ret r err e p \<in> set next_evs \<longrightarrow> r \<le> 0"
            using less.prems(1) by (auto simp: next_evs_def evs split: if_splits)
          moreover have "partial_head (data @ bs) ctx1"
            using b None by (simp add: partial_head_def ctx1_def)
          ultimately have "reader_ok ctx1 (read_http_headers ctx1 next_evs)" by (rule less.hyps)
          then have "reader_ok ctx (read_http_headers ctx1 next_evs)"
            unfolding ctx1_def by (rule reader_ok_step)
          with None rd show ?thesis by (simp add: ctx1_def)
        qed
      qed
    qed
  qed
qed

text \<open>
  C16. Whatever the transport answers (a failing call returning a value that is
  not positive), the reader never writes outside the 8192-byte buffer, returns only 0, -1, -2, -3 or
  -4, changes nothing of the request but its reading position, buffer and overshoot, keeps the
  position within 8191, and on 0 leaves a head without NUL that ends at its first blank line.
\<close>

theorem reader_never_overruns:
  assumes "\<forall>r err e p. Ret r err e p \<in> set evs \<longrightarrow> r \<le> 0"
  shows "reader_ok (zero_ctx c t) (read_http_headers (zero_ctx c t) evs)"
  using reader_any [OF assms partial_head_zero] .

theorem reader_never_overruns_witness:
  "reader_ok (zero_ctx zero_conn 0)
     (read_http_headers (zero_ctx zero_conn 0) [Got ''GET'', Ret (-1) SSL_ERROR_NONE EAGAIN 0])"
  by (rule reader_never_overruns) simp

end
