(* ===== verification/Http1.thy ===== *)
theory Http1
  imports HeaderReader Util
begin

text \<open>
  The HTTP/1.x request parser (\<open>parse_http1\<close> in \<open>src/http1.c\<close>): a character automaton that copies
  the parts of the head into the fixed-size fields of the request, checked here against those sizes.
\<close>

subsection \<open>The destination pointer\<close>

text \<open>\<open>char *dest\<close> always points to the start of one field of \<open>ctx->request.h1\<close>.\<close>

datatype dest_t = D_method | D_uri | D_version | D_key nat | D_value nat

primrec dest_room :: "dest_t \<Rightarrow> nat" where
  "dest_room D_method = METHOD_SIZE"
| "dest_room D_uri = URI_SIZE"
| "dest_room D_version = VERSION_SIZE"
| "dest_room (D_key i) = (if i < MAX_REQ_HEADERS then KEY_SIZE else 0)"
| "dest_room (D_value i) = (if i < MAX_REQ_HEADERS then VALUE_SIZE else 0)"

primrec dest_bytes :: "dest_t \<Rightarrow> http1_req_t \<Rightarrow> string" where
  "dest_bytes D_method h = h1_method h"
| "dest_bytes D_uri h = h1_uri h"
| "dest_bytes D_version h = h1_version h"
| "dest_bytes (D_key i) h = kv_key (zget zero_kv (h1_headers h) i)"
| "dest_bytes (D_value i) h = kv_value (zget zero_kv (h1_headers h) i)"

primrec dest_store :: "dest_t \<Rightarrow> string \<Rightarrow> http1_req_t \<Rightarrow> http1_req_t" where
  "dest_store D_method s h = h\<lparr>h1_method := s\<rparr>"
| "dest_store D_uri s h = h\<lparr>h1_uri := s\<rparr>"
| "dest_store D_version s h = h\<lparr>h1_version := s\<rparr>"
| "dest_store (D_key i) s h = h\<lparr>h1_headers :=
     zset zero_kv i ((zget zero_kv (h1_headers h) i)\<lparr>kv_key := s\<rparr>) (h1_headers h)\<rparr>"
| "dest_store (D_value i) s h = h\<lparr>h1_headers :=
     zset zero_kv i ((zget zero_kv (h1_headers h) i)\<lparr>kv_value := s\<rparr>) (h1_headers h)\<rparr>"

text \<open>\<open>dest[cnt] = c\<close>, a fault outside the field.\<close>

definition put_char :: "dest_t \<Rightarrow> nat \<Rightarrow> char \<Rightarrow> http1_req_t \<Rightarrow> http1_req_t result" where
  "put_char d n c h =
     (if n < dest_room d then Inr (dest_store d (zset NUL n c (dest_bytes d h)) h)
      else Inl OutOfBounds)"

subsection \<open>The automaton\<close>

record parser_t =
  ps_state :: parse_step_t
  ps_dest :: dest_t
  ps_count :: nat
  ps_idx :: nat
  ps_h1 :: http1_req_t

definition parser_start :: "http1_req_t \<Rightarrow> parser_t" where
  "parser_start h = \<lparr>ps_state = P_STATE_METHOD, ps_dest = D_method, ps_count = 0, ps_idx = 0, ps_h1 = h\<rparr>"

text \<open>\<open>if (cnt < limit) dest[cnt++] = *p;\<close>\<close>

definition store_below :: "nat \<Rightarrow> char \<Rightarrow> parser_t \<Rightarrow> parser_t result" where
  "store_below limit c s =
     (if ps_count s < limit
      then bindR (put_char (ps_dest s) (ps_count s) c (ps_h1 s))
             (\<lambda>h. Inr (s\<lparr>ps_h1 := h, ps_count := ps_count s + 1\<rparr>))
      else Inr s)"

text \<open>\<open>dest[cnt] = '\0'; state = st; dest = d; cnt = 0;\<close>\<close>

definition end_field :: "parse_step_t \<Rightarrow> dest_t \<Rightarrow> parser_t \<Rightarrow> parser_t result" where
  "end_field st d s =
     bindR (put_char (ps_dest s) (ps_count s) NUL (ps_h1 s))
       (\<lambda>h. Inr (s\<lparr>ps_h1 := h, ps_state := st, ps_dest := d, ps_count := 0\<rparr>))"

text \<open>
  One turn of the loop at the character \<open>c\<close> with \<open>rest\<close> after it: the new state and where the next
  turn starts.
\<close>

definition parse_step :: "parser_t \<Rightarrow> char \<Rightarrow> string \<Rightarrow> (parser_t \<times> string) result" where
  "parse_step s c rest =
     (case ps_state s of
        P_STATE_METHOD \<Rightarrow>
          bindR (if c = CHR '' '' then end_field P_STATE_URI D_uri s else store_below 15 c s)
            (\<lambda>s'. Inr (s', rest))
      | P_STATE_URI \<Rightarrow>
          bindR (if c = CHR '' '' then end_field P_STATE_VERSION D_version s else store_below 4095 c s)
            (\<lambda>s'. Inr (s', rest))
      | P_STATE_VERSION \<Rightarrow>
          bindR (if c = CR then Inr s
                 else if c = LF then end_field P_STATE_HEADER_KEY (D_key 0) (s\<lparr>ps_idx := 0\<rparr>)
                 else store_below 15 c s)
            (\<lambda>s'. Inr (s', rest))
      | P_STATE_HEADER_KEY \<Rightarrow>
          if c = CHR '':'' then
            bindR (end_field P_STATE_HEADER_VALUE (D_value (ps_idx s)) s)
              (\<lambda>s'. Inr (s', dropWhile (\<lambda>x. x = CHR '' '') rest))
          else
            bindR (if c = CR then Inr s
                   else if c = LF then Inr (s\<lparr>ps_state := P_STATE_BODY\<rparr>)
                   else store_below 127 c s)
              (\<lambda>s'. Inr (s', rest))
      | P_STATE_HEADER_VALUE \<Rightarrow>
          bindR (if c = CR then Inr s
                 else if c = LF then
                   bindR (put_char (ps_dest s) (ps_count s) NUL (ps_h1 s)) (\<lambda>h.
                     let idx = ps_idx s + 1;
                         s1 = s\<lparr>ps_h1 := h\<lparr>h1_header_count := idx\<rparr>, ps_idx := idx\<rparr>
                     in if idx \<ge> 128 then Inr (s1\<lparr>ps_state := P_STATE_BODY\<rparr>)
                        else Inr (s1\<lparr>ps_state := P_STATE_HEADER_KEY, ps_dest := D_key idx, ps_count := 0\<rparr>))
                 else store_below 4095 c s)
            (\<lambda>s'. Inr (s', rest))
      | _ \<Rightarrow> Inr (s\<lparr>ps_state := P_STATE_DONE\<rparr>, rest))"

lemma parse_step_shorter: "parse_step s c rest = Inr (s', rest') \<Longrightarrow> length rest' \<le> length rest"
  by (auto simp: parse_step_def bindR_Inr_iff length_dropWhile_le split: parse_step_t.splits if_splits)

function parse_loop :: "parser_t \<Rightarrow> string \<Rightarrow> parser_t result" where
  "parse_loop s [] = Inr s"
| "parse_loop s (c # rest) =
     (if ps_state s = P_STATE_DONE then Inr s
      else bindR (parse_step s c rest) (\<lambda>(s', rest'). parse_loop s' rest'))"
  by pat_completeness auto

termination
  by (relation "measure (\<lambda>(s, b). length b)") (auto dest!: parse_step_shorter)

text \<open>The search for an h2c upgrade: the first header that asks for it decides.\<close>

definition wants_h2c :: "http1_req_t \<Rightarrow> bool" where
  "wants_h2c h = list_ex
     (\<lambda>i. strcasecmp_eq (header_key h i) ''Upgrade'' \<and> strstr (header_value h i) ''h2c'' \<noteq> None)
     [0..<h1_header_count h]"

definition parse_http1 :: "request_ctx_t \<Rightarrow> string \<Rightarrow> (int \<times> request_ctx_t) result" where
  "parse_http1 ctx buf =
     bindR (parse_loop (parser_start (ctx_h1 ctx)) buf) (\<lambda>s.
       let ctx1 = ctx\<lparr>ctx_h1 := ps_h1 s\<rparr>
       in if wants_h2c (ps_h1 s) then Inr (1, emit L_INFO ''h2c upgrade detected'' ctx1)
          else if strcasecmp_eq (h1_version (ps_h1 s)) ''HTTP/1.0''
          then Inr (0, ctx1\<lparr>ctx_conn := (ctx_conn ctx1)\<lparr>conn_protocol := PROTO_HTTP10\<rparr>\<rparr>)
          else Inr (0, ctx1))"

subsection \<open>Every write stays inside its field\<close>

text \<open>
  The invariant of the automaton: the pointer fits the state, the position leaves room for the NUL,
  and every field written so far is within its size.
\<close>

definition h1_fits :: "http1_req_t \<Rightarrow> bool" where
  "h1_fits h \<longleftrightarrow> length (h1_method h) \<le> METHOD_SIZE \<and> length (h1_uri h) \<le> URI_SIZE
     \<and> length (h1_version h) \<le> VERSION_SIZE \<and> length (h1_headers h) \<le> MAX_REQ_HEADERS
     \<and> (\<forall>kv \<in> set (h1_headers h). length (kv_key kv) \<le> KEY_SIZE \<and> length (kv_value kv) \<le> VALUE_SIZE)
     \<and> h1_header_count h \<le> MAX_REQ_HEADERS"

definition pointer_ok :: "parser_t \<Rightarrow> bool" where
  "pointer_ok s \<longleftrightarrow>
     (case ps_state s of
        P_STATE_METHOD \<Rightarrow> ps_dest s = D_method
      | P_STATE_URI \<Rightarrow> ps_dest s = D_uri
      | P_STATE_VERSION \<Rightarrow> ps_dest s = D_version
      | P_STATE_HEADER_KEY \<Rightarrow> ps_dest s = D_key (ps_idx s) \<and> ps_idx s < MAX_REQ_HEADERS
      | P_STATE_HEADER_VALUE \<Rightarrow> ps_dest s = D_value (ps_idx s) \<and> ps_idx s < MAX_REQ_HEADERS
      | _ \<Rightarrow> True)"

definition parser_inv :: "parser_t \<Rightarrow> bool" where
  "parser_inv s \<longleftrightarrow> pointer_ok s \<and> h1_fits (ps_h1 s)
     \<and> (ps_state s \<notin> {P_STATE_BODY, P_STATE_DONE} \<longrightarrow> ps_count s < dest_room (ps_dest s))"

lemma length_zset_le: "n < m \<Longrightarrow> length xs \<le> m \<Longrightarrow> length (zset z n x xs) \<le> m"
  by (simp add: length_zset)

lemma set_zset: "set (zset z i x xs) \<subseteq> insert x (insert z (set xs))"
  by (auto simp: zset_def dest: set_update_subset_insert [THEN subsetD])

lemma h1_fits_cell:
  "h1_fits h \<Longrightarrow> length (kv_key (zget zero_kv (h1_headers h) i)) \<le> KEY_SIZE
     \<and> length (kv_value (zget zero_kv (h1_headers h) i)) \<le> VALUE_SIZE"
  by (auto simp: h1_fits_def zget_def zero_kv_def)

lemma set_zset_all: "\<forall>y \<in> set xs. P y \<Longrightarrow> P z \<Longrightarrow> P x \<Longrightarrow> \<forall>y \<in> set (zset z i x xs). P y"
  using set_zset [of z i x xs] by blast

lemma headers_fit:
  assumes "h1_fits h" "length (kv_key kv) \<le> KEY_SIZE" "length (kv_value kv) \<le> VALUE_SIZE"
    "i < MAX_REQ_HEADERS"
  shows "h1_fits (h\<lparr>h1_headers := zset zero_kv i kv (h1_headers h)\<rparr>)"
proof -
  let ?P = "\<lambda>kv. length (kv_key kv) \<le> KEY_SIZE \<and> length (kv_value kv) \<le> VALUE_SIZE"
  have "\<forall>kv \<in> set (zset zero_kv i kv (h1_headers h)). ?P kv"
  proof (rule set_zset_all)
    show "\<forall>kv \<in> set (h1_headers h). ?P kv" using assms(1) unfolding h1_fits_def by blast
    show "?P zero_kv" by (simp add: zero_kv_def)
    show "?P kv" using assms by blast
  qed
  then show ?thesis using assms(1,4) by (simp add: h1_fits_def length_zset_le)
qed

lemma dest_store_fits:
  assumes "h1_fits h" "0 < dest_room d" "length bs \<le> dest_room d"
  shows "h1_fits (dest_store d bs h)"
proof (cases d)
  case (D_key i)
  with assms h1_fits_cell [OF assms(1), of i] show ?thesis
    by (auto split: if_splits intro!: headers_fit)
next
  case (D_value i)
  with assms h1_fits_cell [OF assms(1), of i] show ?thesis
    by (auto split: if_splits intro!: headers_fit)
qed (use assms in \<open>simp_all add: h1_fits_def\<close>)

lemma dest_bytes_fit:
  assumes "h1_fits h" "0 < dest_room d"
  shows "length (dest_bytes d h) \<le> dest_room d"
proof (cases d)
  case (D_key i)
  with assms h1_fits_cell [OF assms(1), of i] show ?thesis by (simp split: if_splits)
next
  case (D_value i)
  with assms h1_fits_cell [OF assms(1), of i] show ?thesis by (simp split: if_splits)
qed (use assms in \<open>simp_all add: h1_fits_def\<close>)

lemma put_char_fits:
  assumes "h1_fits h" "n < dest_room d"
  shows "\<exists>h'. put_char d n c h = Inr h' \<and> h1_fits h'"
proof -
  have "0 < dest_room d" using assms(2) by simp
  with dest_store_fits [OF assms(1) this] dest_bytes_fit [OF assms(1) this] assms(2)
  show ?thesis by (simp add: put_char_def length_zset_le)
qed

lemma parser_inv_fault_free:
  assumes "parser_inv s" "ps_state s \<noteq> P_STATE_BODY" "ps_state s \<noteq> P_STATE_DONE"
  obtains h where "put_char (ps_dest s) (ps_count s) c (ps_h1 s) = Inr h" "h1_fits h"
  using put_char_fits [of "ps_h1 s" "ps_count s" "ps_dest s" c] assms by (auto simp: parser_inv_def)

lemma pointer_ok_h1 [simp]: "pointer_ok (s\<lparr>ps_h1 := h, ps_count := n\<rparr>) = pointer_ok s"
  by (simp add: pointer_ok_def split: parse_step_t.split)

lemma store_below_inv:
  assumes "parser_inv s" "ps_state s \<noteq> P_STATE_BODY" "ps_state s \<noteq> P_STATE_DONE"
    "l < dest_room (ps_dest s)"
  shows "\<exists>s'. store_below l c s = Inr s' \<and> parser_inv s'"
proof (cases "ps_count s < l")
  case True
  obtain h where "put_char (ps_dest s) (ps_count s) c (ps_h1 s) = Inr h" "h1_fits h"
    using parser_inv_fault_free [OF assms(1-3)] by metis
  with True assms show ?thesis
    by (simp add: store_below_def parser_inv_def)
next
  case False
  with assms show ?thesis by (simp add: store_below_def)
qed

lemma end_field_inv:
  assumes "parser_inv s" "ps_state s \<noteq> P_STATE_BODY" "ps_state s \<noteq> P_STATE_DONE"
    "0 < dest_room d" "\<And>h. pointer_ok (s\<lparr>ps_h1 := h, ps_state := st, ps_dest := d, ps_count := 0\<rparr>)"
  shows "\<exists>s'. end_field st d s = Inr s' \<and> parser_inv s'"
proof -
  obtain h where "put_char (ps_dest s) (ps_count s) NUL (ps_h1 s) = Inr h" "h1_fits h"
    using parser_inv_fault_free [OF assms(1-3)] by metis
  with assms show ?thesis
    by (simp add: end_field_def parser_inv_def)
qed

lemma parser_inv_set_idx:
  "parser_inv s \<Longrightarrow> ps_state s = P_STATE_VERSION \<Longrightarrow> parser_inv (s\<lparr>ps_idx := i\<rparr>)"
  by (auto simp add: parser_inv_def pointer_ok_def)

lemma parse_step_inv:
  assumes inv: "parser_inv s"
  shows "\<exists>s' rest'. parse_step s c rest = Inr (s', rest') \<and> parser_inv s'"
proof -
  note sb = store_below_inv [OF inv] and ef = end_field_inv [OF inv]
  show ?thesis
  proof (cases "ps_state s")
    case P_STATE_METHOD
    then show ?thesis
      using inv sb [of 15 c] ef [of D_uri P_STATE_URI]
      by (auto simp: parse_step_def parser_inv_def pointer_ok_def size_defs)
  next
    case P_STATE_URI
    then show ?thesis
      using inv sb [of 4095 c] ef [of D_version P_STATE_VERSION]
      by (auto simp: parse_step_def parser_inv_def pointer_ok_def size_defs)
  next
    case P_STATE_VERSION
    then show ?thesis
      using inv sb [of 15 c]
        end_field_inv [OF parser_inv_set_idx [OF inv P_STATE_VERSION, of 0], of "D_key 0" P_STATE_HEADER_KEY]
      by (auto simp: parse_step_def parser_inv_def pointer_ok_def size_defs)
  next
    case P_STATE_HEADER_KEY
    then have p: "ps_dest s = D_key (ps_idx s)" "ps_idx s < MAX_REQ_HEADERS" "h1_fits (ps_h1 s)"
      using inv by (auto simp: parser_inv_def pointer_ok_def)
    have "\<exists>s'. store_below 127 c s = Inr s' \<and> parser_inv s'"
      using P_STATE_HEADER_KEY p by (intro sb) (auto simp: size_defs)
    moreover have "\<exists>s'. end_field P_STATE_HEADER_VALUE (D_value (ps_idx s)) s = Inr s' \<and> parser_inv s'"
      using P_STATE_HEADER_KEY p by (intro ef) (auto simp: size_defs pointer_ok_def)
    moreover have "parser_inv (s\<lparr>ps_state := P_STATE_BODY\<rparr>)"
      using p by (simp add: parser_inv_def pointer_ok_def)
    ultimately show ?thesis
      using P_STATE_HEADER_KEY inv by (auto simp: parse_step_def)
  next
    case P_STATE_HEADER_VALUE
    then have p: "ps_dest s = D_value (ps_idx s)" "ps_idx s < MAX_REQ_HEADERS"
      using inv by (auto simp: parser_inv_def pointer_ok_def)
    have "\<exists>s'. store_below 4095 c s = Inr s' \<and> parser_inv s'"
      using P_STATE_HEADER_VALUE p by (intro sb) (auto simp: size_defs)
    moreover obtain h where h: "put_char (ps_dest s) (ps_count s) NUL (ps_h1 s) = Inr h" "h1_fits h"
      using parser_inv_fault_free [OF inv] P_STATE_HEADER_VALUE by (metis parse_step_t.distinct)
    moreover have f: "h1_fits (h\<lparr>h1_header_count := Suc (ps_idx s)\<rparr>)"
      using h(2) p(2) by (simp add: h1_fits_def)
    moreover have "parser_inv (s\<lparr>ps_h1 := h\<lparr>h1_header_count := Suc (ps_idx s)\<rparr>, ps_idx := Suc (ps_idx s),
        ps_state := P_STATE_BODY\<rparr>)"
      using f by (simp add: parser_inv_def pointer_ok_def)
    moreover have "parser_inv (s\<lparr>ps_h1 := h\<lparr>h1_header_count := Suc (ps_idx s)\<rparr>, ps_idx := Suc (ps_idx s),
        ps_state := P_STATE_HEADER_KEY, ps_dest := D_key (Suc (ps_idx s)), ps_count := 0\<rparr>)"
      if "\<not> 128 \<le> Suc (ps_idx s)"
      using f that by (simp add: parser_inv_def pointer_ok_def size_defs)
    ultimately show ?thesis
      using P_STATE_HEADER_VALUE inv by (auto simp: parse_step_def Let_def)
  qed (use inv in \<open>auto simp: parse_step_def parser_inv_def pointer_ok_def\<close>)
qed

lemma parse_loop_inv: "parser_inv s \<Longrightarrow> \<exists>s'. parse_loop s b = Inr s' \<and> parser_inv s'"
proof (induction s b rule: parse_loop.induct)
  case (2 s c rest)
  obtain s' rest' where "parse_step s c rest = Inr (s', rest')" "parser_inv s'"
    using parse_step_inv [OF 2(2)] by metis
  with 2 show ?case by auto
qed simp

text \<open>
  C28. On every buffer whatsoever the parser ends without writing outside a field:
  it returns 0 or 1, each field keeps to its size, and at most 128 headers are counted.
\<close>

theorem parse_http1_in_bounds:
  "\<exists>r ctx'. parse_http1 (zero_ctx c t) buf = Inr (r, ctx') \<and> r \<in> {0, 1} \<and> h1_fits (ctx_h1 ctx')"
proof -
  have "parser_inv (parser_start zero_h1)"
    by (simp add: parser_inv_def parser_start_def pointer_ok_def h1_fits_def zero_h1_def size_defs)
  from parse_loop_inv [OF this, of buf]
  obtain s where "parse_loop (parser_start zero_h1) buf = Inr s" "parser_inv s" by blast
  then show ?thesis
    by (auto simp: parse_http1_def zero_ctx_def Let_def parser_inv_def)
qed

subsection \<open>What is parsed\<close>

lemma dest_bytes_store [simp]:
  "dest_bytes d (dest_store d bs h) = bs"
  by (cases d) (simp_all add: carray)

lemma zset_zset: "zset z i x (zset z i y xs) = zset z i x xs"
  by (auto simp: zset_def list_update_append nth_append)

lemma dest_store_store [simp]: "dest_store d x (dest_store d y h) = dest_store d x h"
  by (cases d) (simp_all add: carray zset_zset)

text \<open>The states that copy the character \<open>c\<close>, and the limit of the copy.\<close>

definition copies :: "parse_step_t \<Rightarrow> nat \<Rightarrow> char \<Rightarrow> bool" where
  "copies st l c \<longleftrightarrow>
     (case st of
        P_STATE_METHOD \<Rightarrow> l = 15 \<and> c \<noteq> CHR '' ''
      | P_STATE_URI \<Rightarrow> l = 4095 \<and> c \<noteq> CHR '' ''
      | P_STATE_VERSION \<Rightarrow> l = 15 \<and> c \<noteq> CR \<and> c \<noteq> LF
      | P_STATE_HEADER_KEY \<Rightarrow> l = 127 \<and> c \<noteq> CHR '':'' \<and> c \<noteq> CR \<and> c \<noteq> LF
      | P_STATE_HEADER_VALUE \<Rightarrow> l = 4095 \<and> c \<noteq> CR \<and> c \<noteq> LF
      | _ \<Rightarrow> False)"

lemma parse_step_copies:
  "copies (ps_state s) l c \<Longrightarrow>
   ps_state s \<noteq> P_STATE_DONE \<and>
   parse_step s c rest = bindR (store_below l c s) (\<lambda>s'. Inr (s', rest))"
  by (auto simp: copies_def parse_step_def split: parse_step_t.splits)

lemma zset_NUL_end: "zset NUL (length t) c t = t @ [c]"
  by simp

lemma copy_run:
  assumes "\<forall>c \<in> set m. copies (ps_state s) l c" "l < dest_room (ps_dest s)"
    "dest_bytes (ps_dest s) (ps_h1 s) = w" "length w = ps_count s" "length w \<le> l"
  shows "\<exists>h. parse_loop s (m @ rest) = parse_loop (s\<lparr>ps_h1 := h, ps_count := length (take l (w @ m))\<rparr>) rest
     \<and> dest_bytes (ps_dest s) h = take l (w @ m)
     \<and> (\<forall>x. dest_store (ps_dest s) x h = dest_store (ps_dest s) x (ps_h1 s))"
  using assms
proof (induction m arbitrary: s w)
  case Nil
  then have "s\<lparr>ps_h1 := ps_h1 s, ps_count := length (take l w)\<rparr> = s" by simp
  with Nil show ?case by (intro exI [of _ "ps_h1 s"]) simp
next
  case (Cons c m)
  let ?d = "ps_dest s"
  have step: "parse_loop s ((c # m) @ rest) = bindR (store_below l c s) (\<lambda>s'. parse_loop s' (m @ rest))"
    using parse_step_copies [of s l c "m @ rest"] Cons.prems(1)
    by (cases "store_below l c s") auto
  show ?case
  proof (cases "length w < l")
    case True
    define s' where "s' = s\<lparr>ps_h1 := dest_store ?d (w @ [c]) (ps_h1 s), ps_count := ps_count s + 1\<rparr>"
    have "put_char ?d (ps_count s) c (ps_h1 s) = Inr (dest_store ?d (w @ [c]) (ps_h1 s))"
      using Cons.prems True by (simp add: put_char_def flip: Cons.prems(4))
    then have "store_below l c s = Inr s'"
      using Cons.prems True by (simp add: store_below_def s'_def)
    with step have run: "parse_loop s ((c # m) @ rest) = parse_loop s' (m @ rest)" by simp
    have "\<exists>h. parse_loop s' (m @ rest)
          = parse_loop (s'\<lparr>ps_h1 := h, ps_count := length (take l ((w @ [c]) @ m))\<rparr>) rest
        \<and> dest_bytes (ps_dest s') h = take l ((w @ [c]) @ m)
        \<and> (\<forall>x. dest_store (ps_dest s') x h = dest_store (ps_dest s') x (ps_h1 s'))"
      using Cons.prems True by (intro Cons.IH) (simp_all add: s'_def)
    then show ?thesis unfolding run by (simp add: s'_def)
  next
    case False
    then have "store_below l c s = Inr s" "take l (w @ c # m) = take l (w @ m)"
      using Cons.prems by (simp_all add: store_below_def)
    with step Cons.IH [of s w] Cons.prems show ?thesis by simp
  qed
qed

text \<open>A whole field and its NUL.\<close>

lemma copy_field:
  assumes "\<forall>c \<in> set m. copies (ps_state s) l c" "l < dest_room (ps_dest s)"
    "dest_bytes (ps_dest s) (ps_h1 s) = []" "ps_count s = 0"
  shows "\<exists>h. parse_loop s (m @ rest) = parse_loop (s\<lparr>ps_h1 := h, ps_count := length (take l m)\<rparr>) rest
     \<and> put_char (ps_dest s) (length (take l m)) NUL h
         = Inr (dest_store (ps_dest s) (take l m @ [NUL]) (ps_h1 s))"
proof -
  obtain h where h: "parse_loop s (m @ rest) = parse_loop (s\<lparr>ps_h1 := h, ps_count := length (take l m)\<rparr>) rest"
     "dest_bytes (ps_dest s) h = take l m"
     "\<forall>x. dest_store (ps_dest s) x h = dest_store (ps_dest s) x (ps_h1 s)"
    using copy_run [OF assms(1-3), of rest] assms(4) by auto
  have "length (take l m) < dest_room (ps_dest s)" using assms(2) by simp
  moreover have "zset NUL (length (take l m)) NUL (dest_bytes (ps_dest s) h) = take l m @ [NUL]"
    by (simp only: h(2) zset_length)
  ultimately have "put_char (ps_dest s) (length (take l m)) NUL h
      = Inr (dest_store (ps_dest s) (take l m @ [NUL]) (ps_h1 s))"
    using h(3) by (simp only: put_char_def if_True)
  with h(1) show ?thesis by blast
qed

definition at_key :: "nat \<Rightarrow> http1_req_t \<Rightarrow> parser_t" where
  "at_key i h = \<lparr>ps_state = P_STATE_HEADER_KEY, ps_dest = D_key i, ps_count = 0, ps_idx = i, ps_h1 = h\<rparr>"

text \<open>The two texts a parsed head is made of: the request line and a header line.\<close>

definition request_line :: "string \<Rightarrow> string \<Rightarrow> string \<Rightarrow> string" where
  "request_line m u v = m @ '' '' @ u @ '' '' @ v @ CRLF"

definition header_line :: "string \<times> string \<Rightarrow> string" where
  "header_line kx = fst kx @ '': '' @ snd kx @ CRLF"

definition request_line_ok :: "string \<Rightarrow> string \<Rightarrow> string \<Rightarrow> bool" where
  "request_line_ok m u v \<longleftrightarrow> CHR '' '' \<notin> set m \<and> CHR '' '' \<notin> set u \<and> CR \<notin> set v \<and> LF \<notin> set v
     \<and> NUL \<notin> set (m @ u @ v)"

definition header_ok :: "string \<times> string \<Rightarrow> bool" where
  "header_ok kx \<longleftrightarrow> CHR '':'' \<notin> set (fst kx) \<and> CR \<notin> set (fst kx @ snd kx) \<and> LF \<notin> set (fst kx @ snd kx)
     \<and> NUL \<notin> set (fst kx @ snd kx) \<and> (snd kx = [] \<or> hd (snd kx) \<noteq> CHR '' '')"

lemma parse_request_line:
  assumes "request_line_ok m u v"
  shows "parse_loop (parser_start zero_h1) (request_line m u v @ rest) =
    parse_loop (at_key 0 (zero_h1\<lparr>h1_method := take 15 m @ [NUL], h1_uri := take 4095 u @ [NUL],
       h1_version := take 15 v @ [NUL]\<rparr>)) rest"
proof -
  let ?r2 = "v @ CR # LF # rest"
  let ?r1 = "u @ CHR '' '' # ?r2"
  have line: "request_line m u v @ rest = m @ CHR '' '' # ?r1" by (simp add: request_line_def)
  define s0 where "s0 = parser_start zero_h1"
  have "\<forall>c \<in> set m. copies (ps_state s0) 15 c" "15 < dest_room (ps_dest s0)"
     "dest_bytes (ps_dest s0) (ps_h1 s0) = []" "ps_count s0 = 0"
    using assms by (auto simp: s0_def parser_start_def copies_def request_line_ok_def size_defs zero_h1_def)
  from copy_field [OF this, of "CHR '' '' # ?r1"] obtain h0 where h0:
    "parse_loop s0 (m @ CHR '' '' # ?r1)
       = parse_loop (s0\<lparr>ps_h1 := h0, ps_count := length (take 15 m)\<rparr>) (CHR '' '' # ?r1)"
    "put_char (ps_dest s0) (length (take 15 m)) NUL h0
       = Inr (dest_store (ps_dest s0) (take 15 m @ [NUL]) (ps_h1 s0))" by blast
  define s1 where "s1 = \<lparr>ps_state = P_STATE_URI, ps_dest = D_uri, ps_count = 0, ps_idx = 0,
     ps_h1 = zero_h1\<lparr>h1_method := take 15 m @ [NUL]\<rparr>\<rparr>"
  have r1: "parse_loop s0 (m @ CHR '' '' # ?r1) = parse_loop s1 ?r1"
    using h0 by (simp add: s0_def s1_def parser_start_def parse_step_def end_field_def)
  have "\<forall>c \<in> set u. copies (ps_state s1) 4095 c" "4095 < dest_room (ps_dest s1)"
     "dest_bytes (ps_dest s1) (ps_h1 s1) = []" "ps_count s1 = 0"
    using assms by (auto simp: s1_def copies_def request_line_ok_def size_defs zero_h1_def)
  from copy_field [OF this, of "CHR '' '' # ?r2"] obtain h1 where h1:
    "parse_loop s1 ?r1 = parse_loop (s1\<lparr>ps_h1 := h1, ps_count := length (take 4095 u)\<rparr>) (CHR '' '' # ?r2)"
    "put_char (ps_dest s1) (length (take 4095 u)) NUL h1
       = Inr (dest_store (ps_dest s1) (take 4095 u @ [NUL]) (ps_h1 s1))" by blast
  define s2 where "s2 = \<lparr>ps_state = P_STATE_VERSION, ps_dest = D_version, ps_count = 0, ps_idx = 0,
     ps_h1 = zero_h1\<lparr>h1_method := take 15 m @ [NUL], h1_uri := take 4095 u @ [NUL]\<rparr>\<rparr>"
  have r2: "parse_loop s1 ?r1 = parse_loop s2 ?r2"
    using h1 by (simp add: s1_def s2_def parse_step_def end_field_def)
  have "\<forall>c \<in> set v. copies (ps_state s2) 15 c" "15 < dest_room (ps_dest s2)"
     "dest_bytes (ps_dest s2) (ps_h1 s2) = []" "ps_count s2 = 0"
    using assms by (auto simp: s2_def copies_def request_line_ok_def size_defs zero_h1_def)
  from copy_field [OF this, of "CR # LF # rest"] obtain h2 where h2:
    "parse_loop s2 ?r2 = parse_loop (s2\<lparr>ps_h1 := h2, ps_count := length (take 15 v)\<rparr>) (CR # LF # rest)"
    "put_char (ps_dest s2) (length (take 15 v)) NUL h2
       = Inr (dest_store (ps_dest s2) (take 15 v @ [NUL]) (ps_h1 s2))" by blast
  have "parse_loop s2 ?r2 = parse_loop (at_key 0 (zero_h1\<lparr>h1_method := take 15 m @ [NUL],
     h1_uri := take 4095 u @ [NUL], h1_version := take 15 v @ [NUL]\<rparr>)) rest"
    using h2 by (simp add: s2_def parse_step_def end_field_def at_key_def)
  with r1 r2 line show ?thesis by (simp add: s0_def)
qed

definition add_header :: "string \<times> string \<Rightarrow> http1_req_t \<Rightarrow> http1_req_t" where
  "add_header kx h = h\<lparr>h1_headers := h1_headers h @
       [\<lparr>kv_key = take 127 (fst kx) @ [NUL], kv_value = take 4095 (snd kx) @ [NUL]\<rparr>],
     h1_header_count := length (h1_headers h) + 1\<rparr>"

lemma parse_header_line:
  assumes "header_ok kx" "length (h1_headers h) = i" "i < 128"
  obtains s where "parse_loop (at_key i h) (header_line kx @ rest) = parse_loop s rest"
    "if i = 127 then ps_state s = P_STATE_BODY \<and> ps_h1 s = add_header kx h
     else s = at_key (i + 1) (add_header kx h)"
proof -
  obtain k x where kx: "kx = (k, x)" by (cases kx)
  let ?r = "x @ CR # LF # rest"
  have line: "header_line kx @ rest = k @ CHR '':'' # CHR '' '' # ?r" by (simp add: header_line_def kx)
  define s0 where "s0 = at_key i h"
  have "\<forall>c \<in> set k. copies (ps_state s0) 127 c" "127 < dest_room (ps_dest s0)"
     "dest_bytes (ps_dest s0) (ps_h1 s0) = []" "ps_count s0 = 0"
    using assms by (auto simp: s0_def at_key_def copies_def header_ok_def kx size_defs zero_kv_def zget_def)
  from copy_field [OF this, of "CHR '':'' # CHR '' '' # ?r"] obtain h0 where h0:
    "parse_loop s0 (k @ CHR '':'' # CHR '' '' # ?r)
       = parse_loop (s0\<lparr>ps_h1 := h0, ps_count := length (take 127 k)\<rparr>) (CHR '':'' # CHR '' '' # ?r)"
    "put_char (ps_dest s0) (length (take 127 k)) NUL h0
       = Inr (dest_store (ps_dest s0) (take 127 k @ [NUL]) (ps_h1 s0))" by blast
  define hk where "hk = h\<lparr>h1_headers := h1_headers h @ [\<lparr>kv_key = take 127 k @ [NUL], kv_value = []\<rparr>]\<rparr>"
  define s1 where "s1 = \<lparr>ps_state = P_STATE_HEADER_VALUE, ps_dest = D_value i, ps_count = 0, ps_idx = i, ps_h1 = hk\<rparr>"
  have st: "dest_store (D_key i) (take 127 k @ [NUL]) h = hk"
    using assms(2) by (auto simp: hk_def zero_kv_def zget_def zset_def)
  have "dropWhile (\<lambda>y. y = CHR '' '') (CHR '' '' # ?r) = ?r"
    using assms(1) by (cases x) (auto simp: header_ok_def kx)
  then have r1: "parse_loop s0 (k @ CHR '':'' # CHR '' '' # ?r) = parse_loop s1 ?r"
    using h0 st by (simp add: s0_def at_key_def s1_def parse_step_def end_field_def del: dest_store.simps)
  have "\<forall>c \<in> set x. copies (ps_state s1) 4095 c" "4095 < dest_room (ps_dest s1)"
     "dest_bytes (ps_dest s1) (ps_h1 s1) = []" "ps_count s1 = 0"
    using assms by (auto simp: s1_def hk_def copies_def header_ok_def kx size_defs zget_def)
  from copy_field [OF this, of "CR # LF # rest"] obtain h1 where h1:
    "parse_loop s1 ?r = parse_loop (s1\<lparr>ps_h1 := h1, ps_count := length (take 4095 x)\<rparr>) (CR # LF # rest)"
    "put_char (ps_dest s1) (length (take 4095 x)) NUL h1
       = Inr (dest_store (ps_dest s1) (take 4095 x @ [NUL]) (ps_h1 s1))" by blast
  define h2 where "h2 = add_header kx h"
  have st2: "(dest_store (D_value i) (take 4095 x @ [NUL]) hk)\<lparr>h1_header_count := Suc i\<rparr> = h2"
    using assms(2) by (auto simp: hk_def h2_def add_header_def kx zget_def zset_def)
  define s2 where "s2 = (if i = 127 then s1\<lparr>ps_h1 := h2, ps_count := length (take 4095 x), ps_idx := Suc i,
     ps_state := P_STATE_BODY\<rparr> else at_key (i + 1) h2)"
  have "parse_loop s1 ?r = parse_loop s2 rest"
    using h1 st2 assms(3)
    by (auto simp: s1_def s2_def at_key_def parse_step_def Let_def simp del: dest_store.simps)
  then have "parse_loop (at_key i h) (header_line kx @ rest) = parse_loop s2 rest"
    using r1 line by (simp add: s0_def)
  then show ?thesis by (rule that) (simp add: s2_def h2_def)
qed

lemma parse_loop_body: "ps_state s = P_STATE_BODY \<Longrightarrow> \<exists>s'. parse_loop s b = Inr s' \<and> ps_h1 s' = ps_h1 s"
  by (cases b; cases "tl b") (auto simp: parse_step_def)

text \<open>A list of header lines; after the 128th the automaton stops looking.\<close>

fun add_headers :: "(string \<times> string) list \<Rightarrow> http1_req_t \<Rightarrow> http1_req_t" where
  "add_headers [] h = h"
| "add_headers (kx # hs) h = add_headers hs (add_header kx h)"

lemma add_headers_simps [simp]:
  "h1_method (add_headers hs h) = h1_method h" "h1_uri (add_headers hs h) = h1_uri h"
  "h1_version (add_headers hs h) = h1_version h"
  "h1_headers (add_headers hs h) = h1_headers h @
     map (\<lambda>kx. \<lparr>kv_key = take 127 (fst kx) @ [NUL], kv_value = take 4095 (snd kx) @ [NUL]\<rparr>) hs"
  by (induction hs arbitrary: h) (simp_all add: add_header_def)

lemma add_headers_count:
  "h1_header_count h = length (h1_headers h) \<Longrightarrow>
   h1_header_count (add_headers hs h) = length (h1_headers h) + length hs"
  by (induction hs arbitrary: h) (simp_all add: add_header_def)

subsection \<open>A line without a colon ends the headers\<close>

definition same_upto :: "nat \<Rightarrow> http1_req_t \<Rightarrow> http1_req_t \<Rightarrow> bool" where
  "same_upto i h h' \<longleftrightarrow> h1_method h' = h1_method h \<and> h1_uri h' = h1_uri h
     \<and> h1_version h' = h1_version h \<and> h1_header_count h' = h1_header_count h
     \<and> (\<forall>j < i. zget zero_kv (h1_headers h') j = zget zero_kv (h1_headers h) j)"

lemma same_upto_refl [simp]: "same_upto i h h"
  by (simp add: same_upto_def)

lemma same_upto_key: "same_upto i h (dest_store (D_key i) bs h')  = same_upto i h h'"
  by (auto simp: same_upto_def carray)

lemma last_line:
  assumes "CHR '':'' \<notin> set l" "LF \<notin> set l" "ps_state s = P_STATE_HEADER_KEY" "ps_dest s = D_key i"
    "i < 128" "ps_count s \<le> 127"
  shows "\<exists>s'. parse_loop s (l @ LF # rest) = Inr s' \<and> same_upto i (ps_h1 s) (ps_h1 s')"
  using assms
proof (induction l arbitrary: s)
  case Nil
  obtain s' where "parse_loop (s\<lparr>ps_state := P_STATE_BODY\<rparr>) rest = Inr s'" "ps_h1 s' = ps_h1 s"
    using parse_loop_body [of "s\<lparr>ps_state := P_STATE_BODY\<rparr>" rest] by auto
  with Nil show ?case by (simp add: parse_step_def)
next
  case (Cons c l)
  show ?case
  proof (cases "c = CR \<or> \<not> ps_count s < 127")
    case True
    then have "parse_step s c (l @ LF # rest) = Inr (s, l @ LF # rest)"
      using Cons.prems by (auto simp: parse_step_def store_below_def)
    with Cons show ?thesis by simp
  next
    case False
    define h where "h = dest_store (D_key i) (zset NUL (ps_count s) c (dest_bytes (D_key i) (ps_h1 s))) (ps_h1 s)"
    define s1 where "s1 = s\<lparr>ps_h1 := h, ps_count := ps_count s + 1\<rparr>"
    have "parse_step s c (l @ LF # rest) = Inr (s1, l @ LF # rest)"
      using Cons.prems False
      by (auto simp add: parse_step_def store_below_def put_char_def size_defs s1_def h_def simp del: dest_store.simps)
    moreover obtain s' where "parse_loop s1 (l @ LF # rest) = Inr s'" "same_upto i (ps_h1 s1) (ps_h1 s')"
      using Cons.IH [of s1] Cons.prems False by (auto simp: s1_def)
    moreover have "same_upto i (ps_h1 s) h" by (simp add: h_def same_upto_key del: dest_store.simps)
    ultimately show ?thesis
      using Cons.prems by (auto simp: s1_def same_upto_def)
  qed
qed

lemma parse_header_lines:
  assumes "\<forall>kx \<in> set hs. header_ok kx" "length (h1_headers h) = i" "i < 128"
    and l: "CHR '':'' \<notin> set l" "LF \<notin> set l"
  shows "\<exists>s. parse_loop (at_key i h) (concat (map header_line hs) @ l @ LF # rest) = Inr s
     \<and> same_upto (i + length (take (128 - i) hs)) (add_headers (take (128 - i) hs) h) (ps_h1 s)"
  using assms(1-3)
proof (induction hs arbitrary: h i)
  case Nil
  then show ?case using last_line [OF l, of "at_key i h" i rest] by (auto simp: at_key_def)
next
  case (Cons kx hs)
  let ?rest = "concat (map header_line hs) @ l @ LF # rest"
  obtain s where s: "parse_loop (at_key i h) (header_line kx @ ?rest) = parse_loop s ?rest"
    "if i = 127 then ps_state s = P_STATE_BODY \<and> ps_h1 s = add_header kx h
     else s = at_key (i + 1) (add_header kx h)"
    using parse_header_line [of kx h i ?rest] Cons.prems by auto
  have run: "parse_loop (at_key i h) (concat (map header_line (kx # hs)) @ l @ LF # rest) = parse_loop s ?rest"
    using s(1) by simp
  have tk: "take (128 - i) (kx # hs) = kx # take (128 - (i + 1)) hs"
    using Cons.prems(3) by (simp add: take_Cons')
  show ?case
  proof (cases "i = 127")
    case True
    obtain s' where "parse_loop s ?rest = Inr s'" "ps_h1 s' = ps_h1 s"
      using parse_loop_body [of s ?rest] s True by auto
    with s(2) True show ?thesis unfolding run tk by simp
  next
    case False
    have "length (h1_headers (add_header kx h)) = i + 1" "i + 1 < 128"
      using Cons.prems False by (simp_all add: add_header_def)
    from Cons.IH [OF _ this] Cons.prems(1) s(2) False
    show ?thesis unfolding run tk by simp
  qed
qed

subsection \<open>Parsing what was rendered\<close>

text \<open>The request that a head stands for, cut to the sizes of the fields.\<close>

definition parsed_as :: "http1_req_t \<Rightarrow> string \<Rightarrow> string \<Rightarrow> string \<Rightarrow> (string \<times> string) list \<Rightarrow> bool" where
  "parsed_as h m u v hs \<longleftrightarrow>
     cstr (h1_method h) = take 15 m \<and> cstr (h1_uri h) = take 4095 u \<and> cstr (h1_version h) = take 15 v
     \<and> h1_header_count h = length hs
     \<and> (\<forall>i < length hs. cstr (header_key h i) = take 127 (fst (hs ! i))
          \<and> cstr (header_value h i) = take 4095 (snd (hs ! i)))"

lemma cstr_take_NUL: "NUL \<notin> set m \<Longrightarrow> cstr (take n m @ [NUL]) = take n m"
  by (metis cstr_append_NUL in_set_takeD)

lemma parsed_as_upto:
  assumes "parsed_as h m u v hs" "same_upto (length hs) h h'"
  shows "parsed_as h' m u v hs"
  using assms by (simp add: parsed_as_def same_upto_def header_key_def header_value_def)

lemma add_headers_parsed:
  assumes "request_line_ok m u v" "\<forall>kx \<in> set hs. header_ok kx"
  shows "parsed_as (add_headers hs (zero_h1\<lparr>h1_method := take 15 m @ [NUL], h1_uri := take 4095 u @ [NUL],
       h1_version := take 15 v @ [NUL]\<rparr>)) m u v hs"
proof -
  have "NUL \<notin> set (fst (hs ! i))" "NUL \<notin> set (snd (hs ! i))" if "i < length hs" for i
    using assms(2) nth_mem [OF that] by (auto simp: header_ok_def)
  then show ?thesis
    using assms(1)
    by (auto simp: parsed_as_def cstr_take_NUL request_line_ok_def header_key_def header_value_def
        zget_def add_headers_count zero_h1_def)
qed

lemma parse_head:
  assumes "request_line_ok m u v" "\<forall>kx \<in> set hs. header_ok kx"
    "CHR '':'' \<notin> set l" "LF \<notin> set l"
  shows "\<exists>s. parse_loop (parser_start zero_h1)
       (request_line m u v @ concat (map header_line hs) @ l @ LF # rest) = Inr s
     \<and> parsed_as (ps_h1 s) m u v (take 128 hs)"
proof -
  define h where "h = zero_h1\<lparr>h1_method := take 15 m @ [NUL], h1_uri := take 4095 u @ [NUL],
       h1_version := take 15 v @ [NUL]\<rparr>"
  let ?tail = "l @ LF # rest"
  have h0: "length (h1_headers h) = 0" by (simp add: h_def zero_h1_def)
  have run: "parse_loop (parser_start zero_h1) (request_line m u v @ concat (map header_line hs) @ ?tail)
      = parse_loop (at_key 0 h) (concat (map header_line hs) @ ?tail)"
    unfolding h_def by (rule parse_request_line [OF assms(1)])
  have "\<forall>kx \<in> set (take 128 hs). header_ok kx" using assms(2) by (meson in_set_takeD)
  then have ok: "parsed_as (add_headers (take 128 hs) h) m u v (take 128 hs)"
    unfolding h_def using assms(1) by (rule add_headers_parsed [rotated])
  obtain s where "parse_loop (at_key 0 h) (concat (map header_line hs) @ ?tail) = Inr s"
    "same_upto (length (take 128 hs)) (add_headers (take 128 hs) h) (ps_h1 s)"
    using parse_header_lines [OF assms(2) h0 _ assms(3,4), of rest] by auto
  with run ok show ?thesis by (metis parsed_as_upto)
qed

definition asks_h2c :: "(string \<times> string) list \<Rightarrow> bool" where
  "asks_h2c hs = list_ex (\<lambda>kx. strcasecmp_eq (take 127 (fst kx)) ''Upgrade''
     \<and> strstr (take 4095 (snd kx)) ''h2c'' \<noteq> None) hs"

lemma wants_h2c_parsed:
  assumes "parsed_as h m u v hs" "\<forall>kx \<in> set hs. header_ok kx"
  shows "wants_h2c h = asks_h2c hs"
proof -
  have eq: "strcasecmp_eq (header_key h i) n = strcasecmp_eq (take 127 (fst (hs ! i))) n"
      "strstr (header_value h i) n = strstr (take 4095 (snd (hs ! i))) n" if "i < length hs" for i n
  proof -
    have "NUL \<notin> set (fst (hs ! i))" "NUL \<notin> set (snd (hs ! i))"
      using assms(2) nth_mem [OF that] by (auto simp: header_ok_def)
    then have "cstr (take 127 (fst (hs ! i))) = take 127 (fst (hs ! i))"
      "cstr (take 4095 (snd (hs ! i))) = take 4095 (snd (hs ! i))"
      by (meson cstr_id in_set_takeD)+
    with assms(1) that show "strcasecmp_eq (header_key h i) n = strcasecmp_eq (take 127 (fst (hs ! i))) n"
      "strstr (header_value h i) n = strstr (take 4095 (snd (hs ! i))) n"
      by (simp_all add: parsed_as_def strcasecmp_eq_def strstr_def)
  qed
  have "wants_h2c h \<longleftrightarrow> (\<exists>i < length hs. strcasecmp_eq (take 127 (fst (hs ! i))) ''Upgrade''
      \<and> strstr (take 4095 (snd (hs ! i))) ''h2c'' \<noteq> None)"
    using assms(1) eq by (auto simp: wants_h2c_def list_ex_iff parsed_as_def)
  then show ?thesis by (force simp: asks_h2c_def list_ex_iff in_set_conv_nth)
qed

lemma parse_http1_result:
  assumes "parse_loop (parser_start zero_h1) buf = Inr s"
  shows "\<exists>r ctx'. parse_http1 (zero_ctx c t) buf = Inr (r, ctx') \<and> ctx_h1 ctx' = ps_h1 s
     \<and> r = (if wants_h2c (ps_h1 s) then 1 else 0)
     \<and> conn_protocol (ctx_conn ctx') = (if r = 0 \<and> strcasecmp_eq (h1_version (ps_h1 s)) ''HTTP/1.0''
          then PROTO_HTTP10 else conn_protocol c)"
  using assms by (simp add: parse_http1_def zero_ctx_def Let_def)

text \<open>
  C7. A head made of a request line, header lines and a last line without a
  colon is parsed back: the three parts of the request line and the first 128 headers, each cut to
  its field.  The last line is the blank line of a proper head; but any line without a colon ends the
  headers in the same way, whatever \<open>rest\<close> says after it.  The result is 1 exactly when one of those
  headers is an \<open>Upgrade\<close> that mentions h2c, and 0 otherwise, with the protocol set to HTTP/1.0 when
  that is the version given.
\<close>

theorem parse_http1_of_rendered:
  assumes "request_line_ok m u v" "\<forall>kx \<in> set hs. header_ok kx" "CHR '':'' \<notin> set l" "LF \<notin> set l"
  shows "\<exists>r ctx'. parse_http1 (zero_ctx c t)
       (request_line m u v @ concat (map header_line hs) @ l @ LF # rest) = Inr (r, ctx')
     \<and> parsed_as (ctx_h1 ctx') m u v (take 128 hs)
     \<and> r = (if asks_h2c (take 128 hs) then 1 else 0)
     \<and> conn_protocol (ctx_conn ctx')
        = (if r = 0 \<and> strcasecmp_eq (take 15 v) ''HTTP/1.0'' then PROTO_HTTP10 else conn_protocol c)"
proof -
  obtain s where s: "parse_loop (parser_start zero_h1)
       (request_line m u v @ concat (map header_line hs) @ l @ LF # rest) = Inr s"
    "parsed_as (ps_h1 s) m u v (take 128 hs)"
    using parse_head [OF assms] by blast
  have "cstr (take 15 v) = take 15 v"
    using assms(1) by (intro cstr_id) (auto simp: request_line_ok_def dest: in_set_takeD)
  then have "strcasecmp_eq (h1_version (ps_h1 s)) ''HTTP/1.0'' = strcasecmp_eq (take 15 v) ''HTTP/1.0''"
    using s(2) by (simp add: parsed_as_def strcasecmp_eq_def)
  moreover have "\<forall>kx \<in> set (take 128 hs). header_ok kx" using assms(2) by (meson in_set_takeD)
  ultimately show ?thesis
    using wants_h2c_parsed [OF s(2)] s(2) parse_http1_result [OF s(1), of c t] by fastforce
qed

theorem parse_http1_of_rendered_witness:
  "\<exists>ctx'. parse_http1 (zero_ctx zero_conn 0)
      (request_line ''GET'' ''/'' ''HTTP/1.0'' @ concat (map header_line [(''Host'', ''a'')]) @ ''junk'' @ LF # ''X: y'')
      = Inr (0, ctx') \<and> parsed_as (ctx_h1 ctx') ''GET'' ''/'' ''HTTP/1.0'' [(''Host'', ''a'')]
      \<and> conn_protocol (ctx_conn ctx') = PROTO_HTTP10"
proof -
  have ok: "request_line_ok ''GET'' ''/'' ''HTTP/1.0''" "\<forall>kx \<in> set [(''Host'', ''a'')]. header_ok kx"
    "CHR '':'' \<notin> set ''junk''" "LF \<notin> set ''junk''"
    by (simp_all add: request_line_ok_def header_ok_def)
  have "\<not> strcasecmp_eq ''Host'' ''Upgrade''" by code_simp
  then have "\<not> asks_h2c (take 128 [(''Host'', ''a'')])" by (simp add: asks_h2c_def)
  moreover have "strcasecmp_eq (take 15 ''HTTP/1.0'') ''HTTP/1.0''" by simp
  moreover have "take 128 [(''Host'', ''a'')] = [(''Host'', ''a'')]" by simp
  ultimately show ?thesis
    using parse_http1_of_rendered [OF ok, of zero_conn 0 "''X: y''"] by (auto simp del: strcasecmp_eq_refl)
qed

end
