(* ===== verification/Validator.thy ===== *)
theory Validator
  imports Response
begin

text \<open>
  Request validation (\<open>src/validator.c\<close>): the request kind from its name, the \<open>Host\<close> rule, the path
  traversal test and the whitelist of kinds, each ending the validation with its status.
\<close>

text \<open>The chain of \<open>strcmp\<close> tests.\<close>

definition method_of :: "string \<Rightarrow> http_method_t option" where
  "method_of m =
     (if strcmp_eq ''GET'' m then Some M_GET
      else if strcmp_eq ''HEAD'' m then Some M_HEAD
      else if strcmp_eq ''PUT'' m then Some M_PUT
      else if strcmp_eq ''DELETE'' m then Some M_DELETE
      else if strcmp_eq ''TRACE'' m then Some M_TRACE
      else if strcmp_eq ''POST'' m then Some M_POST
      else if strcmp_eq ''OPTIONS'' m then Some M_OPTIONS
      else None)"

definition method_mask :: u32 where
  "method_mask = method_bits M_GET OR method_bits M_HEAD OR method_bits M_OPTIONS OR method_bits M_PUT"

definition validate_request :: "request_ctx_t \<Rightarrow> request_ctx_t" where
  "validate_request ctx =
     (let uri = h1_uri (ctx_h1 ctx); m = h1_method (ctx_h1 ctx)
      in (case method_of m of
            None \<Rightarrow>
              resp_set_status (emit L_WARN (''unknown method: '' @ cstr m) (ctx\<lparr>ctx_method := Some M_INVALID\<rparr>))
                (sc_code SC_400_BAD_REQUEST)
          | Some k \<Rightarrow>
              let ctx1 = ctx\<lparr>ctx_method := Some k\<rparr>
              in if conn_protocol (ctx_conn ctx1) \<noteq> PROTO_HTTP10 \<and> \<not> confirm_header_exists ctx1 ''Host''
                 then emit L_WARN ''request does not contain Host header''
                        (resp_set_status ctx1 (sc_code SC_400_BAD_REQUEST))
                 else if strstr uri ''..'' \<noteq> None
                 then resp_set_status (emit L_WARN (''potential path traversal attempt: '' @ cstr uri) ctx1)
                        (sc_code SC_403_FORBIDDEN)
                 else if method_bits k AND method_mask = 0
                 then resp_set_status (emit L_WARN (''request for unsupported method: '' @ cstr m) ctx1)
                        (sc_code SC_405_METHOD_NOT_ALLOWED)
                 else resp_set_status ctx1 (sc_code SC_200_OK)))"

lemma method_mask_iff: "method_bits k AND method_mask = 0 \<longleftrightarrow> k \<notin> {M_GET, M_HEAD, M_OPTIONS, M_PUT}"
  by (cases k) (simp_all add: method_mask_def)

lemma strcmp_literal: "NUL \<notin> set l \<Longrightarrow> strcmp_eq l m \<longleftrightarrow> cstr m = l"
  by (auto simp: strcmp_eq_def cstr_id)

lemma method_of_None:
  "method_of m = None \<longleftrightarrow>
     cstr m \<notin> {''GET'', ''HEAD'', ''PUT'', ''DELETE'', ''TRACE'', ''POST'', ''OPTIONS''}"
  by (auto simp: method_of_def strcmp_literal)

lemma method_of_allowed:
  "method_of m \<in> Some ` {M_GET, M_HEAD, M_OPTIONS, M_PUT} \<longleftrightarrow> cstr m \<in> {''GET'', ''HEAD'', ''OPTIONS'', ''PUT''}"
  by (auto simp: method_of_def strcmp_literal split: if_splits)

lemma strstr_dotdot: "strstr uri ''..'' \<noteq> None \<longleftrightarrow> (\<exists>a b. cstr uri = a @ ''..'' @ b)"
  using find_sub_None_append [of "''..''" "cstr uri"] by (simp add: strstr_def cstr_id)

lemma validate_fields [simp]:
  "ctx_conn (validate_request ctx) = ctx_conn ctx" "ctx_h1 (validate_request ctx) = ctx_h1 ctx"
  "ctx_response (validate_request ctx) = ctx_response ctx"
  by (simp_all add: validate_request_def Let_def resp_set_status_def emit_def split: option.split)

lemma validate_status:
  "ctx_status_code (validate_request ctx) =
     (case method_of (h1_method (ctx_h1 ctx)) of
        None \<Rightarrow> 400
      | Some k \<Rightarrow>
          if conn_protocol (ctx_conn ctx) \<noteq> PROTO_HTTP10 \<and> \<not> confirm_header_exists ctx ''Host'' then 400
          else if strstr (h1_uri (ctx_h1 ctx)) ''..'' \<noteq> None then 403
          else if k \<notin> {M_GET, M_HEAD, M_OPTIONS, M_PUT} then 405 else 200)"
  unfolding validate_request_def Let_def method_mask_iff
  by (simp add: resp_set_status_def emit_def confirm_header_exists_def split: option.split)

lemma validate_kind:
  "ctx_method (validate_request ctx) =
     (case method_of (h1_method (ctx_h1 ctx)) of None \<Rightarrow> Some M_INVALID | Some k \<Rightarrow> Some k)"
  by (simp add: validate_request_def Let_def resp_set_status_def emit_def split: option.split)

lemma validate_ok_iff:
  "ctx_status_code (validate_request ctx) = 200 \<longleftrightarrow>
     cstr (h1_method (ctx_h1 ctx)) \<in> {''GET'', ''HEAD'', ''OPTIONS'', ''PUT''}
     \<and> (conn_protocol (ctx_conn ctx) = PROTO_HTTP10 \<or> confirm_header_exists ctx ''Host'')
     \<and> (\<nexists>a b. cstr (h1_uri (ctx_h1 ctx)) = a @ ''..'' @ b)"
proof -
  have "cstr (h1_method (ctx_h1 ctx)) \<in> {''GET'', ''HEAD'', ''OPTIONS'', ''PUT''} \<longleftrightarrow>
      (\<exists>k. method_of (h1_method (ctx_h1 ctx)) = Some k \<and> k \<in> {M_GET, M_HEAD, M_OPTIONS, M_PUT})"
    using method_of_allowed [of "h1_method (ctx_h1 ctx)"] by blast
  moreover have "(\<nexists>a b. cstr (h1_uri (ctx_h1 ctx)) = a @ ''..'' @ b) \<longleftrightarrow> strstr (h1_uri (ctx_h1 ctx)) ''..'' = None"
    using strstr_dotdot [of "h1_uri (ctx_h1 ctx)"] by blast
  ultimately show ?thesis
    by (cases "method_of (h1_method (ctx_h1 ctx))") (auto simp: validate_status)
qed

text \<open>
  C26. A request is accepted (status 200) exactly when its method is GET, HEAD,
  OPTIONS or PUT, it has a Host header or is HTTP/1.0, and its URI contains no \<open>..\<close> anywhere; every
  other request gets 400, 403 or 405, and an unknown method is always 400.
\<close>

theorem validate_request_accepts:
  "(ctx_status_code (validate_request ctx) = 200 \<longleftrightarrow>
      cstr (h1_method (ctx_h1 ctx)) \<in> {''GET'', ''HEAD'', ''OPTIONS'', ''PUT''}
      \<and> (conn_protocol (ctx_conn ctx) = PROTO_HTTP10 \<or> confirm_header_exists ctx ''Host'')
      \<and> (\<nexists>a b. cstr (h1_uri (ctx_h1 ctx)) = a @ ''..'' @ b))
   \<and> ctx_status_code (validate_request ctx) \<in> {200, 400, 403, 405}
   \<and> (ctx_method (validate_request ctx) = Some M_INVALID \<longrightarrow> ctx_status_code (validate_request ctx) = 400)"
proof -
  have "ctx_status_code (validate_request ctx) \<in> {200, 400, 403, 405}"
    unfolding validate_status by (simp split: option.split)
  moreover have "ctx_method (validate_request ctx) = Some M_INVALID \<Longrightarrow> ctx_status_code (validate_request ctx) = 400"
    unfolding validate_kind validate_status
    by (simp add: method_of_def split: option.splits if_splits)
  ultimately show ?thesis using validate_ok_iff by blast
qed

theorem validate_request_accepts_witness:
  "ctx_status_code (validate_request (zero_ctx zero_conn 0)) = 400"
proof -
  have "method_of [] = None" by (simp add: method_of_def strcmp_eq_def cstr_def)
  then have "ctx_method (validate_request (zero_ctx zero_conn 0)) = Some M_INVALID"
    by (simp add: validate_kind zero_defs)
  then show ?thesis using validate_request_accepts [of "zero_ctx zero_conn 0"] by blast
qed

end
