(* ===== verification/Mime.thy ===== *)
theory Mime
  imports Lookup
begin

text \<open>
  \<open>src/mime.c\<close>: the MIME type of a path by its last dot, searched in a table up to letter case.
\<close>

type_synonym mime_entry_t = "string \<times> string"

definition mime_table :: "mime_entry_t list" where
  "mime_table =
     [(''.html'', ''text/html''),
      (''.htm'', ''text/html''),
      (''.css'', ''text/css''),
      (''.js'', ''text/javascript''),
      (''.txt'', ''text/plain''),
      (''.jpg'', ''image/jpeg''),
      (''.jpeg'', ''image/jpeg''),
      (''.png'', ''image/png''),
      (''.gif'', ''image/gif''),
      (''.webp'', ''image/webp''),
      (''.ico'', ''image/x-icon''),
      (''.svg'', ''image/svg+xml''),
      (''.woff2'', ''font/woff2'')]"

definition octet_stream :: string where "octet_stream = ''application/octet-stream''"

definition get_mime_type :: "string \<Rightarrow> string" where
  "get_mime_type path =
     (case strrchr path (CHR ''.'') of
        None \<Rightarrow> octet_stream
      | Some ext \<Rightarrow>
          (case find (\<lambda>e. strcasecmp_eq (fst e) ext) mime_table of
             None \<Rightarrow> octet_stream
           | Some e \<Rightarrow> snd e))"

interpretation mime: keyed_table strcasecmp_eq "fst :: mime_entry_t \<Rightarrow> string"
  by unfold_locales (auto intro: strcasecmp_eq_sym strcasecmp_eq_trans)

lemma mime_table_keys:
  "\<forall>e1 \<in> set mime_table. \<forall>e2 \<in> set mime_table. strcasecmp_eq (fst e1) (fst e2) \<longrightarrow> e1 = e2"
  by code_simp

lemma mime_table_exts: "\<forall>e \<in> set mime_table. \<exists>r. fst e = CHR ''.'' # r \<and> CHR ''.'' \<notin> set r \<and> NUL \<notin> set (fst e)"
  by (simp add: mime_table_def)

lemma strrchr_ext:
  assumes "NUL \<notin> set (p @ c # r)" "c \<notin> set r"
  shows "strrchr (p @ c # r) c = Some (c # r)"
proof -
  have "takeWhile (\<lambda>x. x \<noteq> c) (rev r @ c # rev p) = rev r"
    using assms(2) by (subst takeWhile_append2) auto
  with assms show ?thesis by (simp add: strrchr_def cstr_id)
qed

lemma strrchr_Some_suffix: "strrchr s c = Some t \<Longrightarrow> \<exists>p. cstr s = p @ t"
proof -
  assume "strrchr s c = Some t"
  then have c: "c \<in> set (cstr s)" and t: "t = c # rev (takeWhile (\<lambda>x. x \<noteq> c) (rev (cstr s)))"
    by (auto simp: strrchr_def split: if_splits)
  from c obtain a b where "rev (cstr s) = a @ c # b" "c \<notin> set a"
    by (metis set_rev split_list_first)
  then have "takeWhile (\<lambda>x. x \<noteq> c) (rev (cstr s)) = a" "cstr s = rev b @ c # rev a"
    by (subst \<open>rev (cstr s) = _\<close>, subst takeWhile_append2; auto)
       (metis \<open>rev (cstr s) = _\<close> append_Cons append_Nil append_assoc rev.simps(2) rev_append rev_rev_ident)
  with t show ?thesis by simp
qed

text \<open>
  A path whose last extension equals an entry of the table up to letter
  case gets that entry's type, whatever precedes the extension; a path without a dot, or whose last
  extension matches no entry, is an octet stream.
\<close>

theorem mime_type_by_extension:
  "(NUL \<notin> set (p @ CHR ''.'' # r) \<and> CHR ''.'' \<notin> set r \<longrightarrow>
      (\<forall>e \<in> set mime_table. strcasecmp_eq (CHR ''.'' # r) (fst e) \<longrightarrow>
         get_mime_type (p @ CHR ''.'' # r) = snd e)
      \<and> ((\<forall>e \<in> set mime_table. \<not> strcasecmp_eq (CHR ''.'' # r) (fst e)) \<longrightarrow>
         get_mime_type (p @ CHR ''.'' # r) = octet_stream))
   \<and> (CHR ''.'' \<notin> set (cstr path) \<longrightarrow> get_mime_type path = octet_stream)"
proof (intro conjI impI ballI)
  let ?s = "p @ CHR ''.'' # r"
  assume a: "NUL \<notin> set ?s \<and> CHR ''.'' \<notin> set r"
  then have ext: "strrchr ?s (CHR ''.'') = Some (CHR ''.'' # r)" by (intro strrchr_ext) auto
  show "get_mime_type ?s = snd e" if "e \<in> set mime_table" "strcasecmp_eq (CHR ''.'' # r) (fst e)" for e
    using mime.lookup_cong [OF that(2), of mime_table] mime.lookup_own_key [OF that(1) mime_table_keys] ext
    by (simp add: get_mime_type_def)
  show "get_mime_type ?s = octet_stream"
    if "\<forall>e \<in> set mime_table. \<not> strcasecmp_eq (CHR ''.'' # r) (fst e)"
  proof -
    have "find (\<lambda>e. strcasecmp_eq (fst e) (CHR ''.'' # r)) mime_table = None"
      using that by (auto simp: mime.lookup_None dest: strcasecmp_eq_sym)
    with ext show ?thesis by (simp add: get_mime_type_def)
  qed
next
  assume "CHR ''.'' \<notin> set (cstr path)"
  then show "get_mime_type path = octet_stream" by (simp add: get_mime_type_def strrchr_def)
qed

theorem mime_type_by_extension_witness:
  "get_mime_type ''/srv/a.b/photo.JPeG'' = ''image/jpeg'' \<and> get_mime_type ''/srv/README'' = octet_stream"
proof -
  have "(''.jpeg'', ''image/jpeg'') \<in> set mime_table" by (simp add: mime_table_def)
  moreover have "strcasecmp_eq ''.JPeG'' ''.jpeg''" by code_simp
  ultimately have "get_mime_type (''/srv/a.b/photo'' @ CHR ''.'' # ''JPeG'') = ''image/jpeg''"
    using mime_type_by_extension [of "''/srv/a.b/photo''" "''JPeG''" "[]"] by fastforce
  moreover have "get_mime_type ''/srv/README'' = octet_stream"
    using mime_type_by_extension [of "[]" "[]" "''/srv/README''"] by (simp add: cstr_id)
  ultimately show ?thesis by simp
qed

end
