(* ===== verification/HandlerStatic.thy ===== *)
theory HandlerStatic
  imports Validator Mime
begin

text \<open>
  The request handlers (\<open>src/handler_static.c\<close>): mapping a URI to a file under the document root, the
  error page, the GET, HEAD, OPTIONS and PUT handlers and the release of the response body.
\<close>

subsection \<open>From URI to path\<close>

text \<open>\<open>docroot\<close>, \<open>uri\<close> are C strings; the result is the string left in \<open>out_path\<close>.\<close>

definition resolve_path :: "string \<Rightarrow> string \<Rightarrow> nat \<Rightarrow> string result" where
  "resolve_path docroot uri out_len =
     (if docroot = [] then Inl OutOfBounds
      else
        let root_has_slash = (last docroot = CHR ''/'');
            uri_has_slash = (uri \<noteq> [] \<and> hd uri = CHR ''/'');
            out_path =
              snprintf_buf out_len
                (if root_has_slash \<and> uri_has_slash then docroot @ tl uri
                 else if \<not> root_has_slash \<and> \<not> uri_has_slash then docroot @ ''/'' @ uri
                 else docroot @ uri);
            new_len = length out_path
        in if out_path = [] then Inl OutOfBounds
           else if last out_path = CHR ''/''
           then Inr (out_path @ take (out_len - new_len - 1) ''index.html'')
           else Inr out_path)"

subsection \<open>Error pages\<close>

text \<open>
  What the handlers use of the outside: the clock, whether \<open>malloc\<close> succeeds, the file system (an
  answer per path) and the configuration in force.
\<close>

record handler_env =
  he_now :: int
  he_malloc :: bool
  he_fs :: "string \<Rightarrow> file_answer"
  he_conf :: config_data

definition error_page :: "int \<Rightarrow> string" where
  "error_page c =
     (let s = show_int c @ '' '' @ http_status_to_string c; q = [CHR 0x27]
      in ''<!DOCTYPE html>'' @ [LF] @ ''<html lang='' @ q @ ''en'' @ q @ ''>'' @ [LF]
         @ ''<head><title>'' @ s @ ''</title></head>'' @ [LF]
         @ ''<body><h1>'' @ s @ ''</h1><p>Celeritas Server</p></body>'' @ [LF] @ ''</html>'' @ [LF])"

definition handle_error :: "handler_env \<Rightarrow> request_ctx_t \<Rightarrow> request_ctx_t result" where
  "handle_error env ctx =
     bindR (resp_add_common_headers (he_conf env) (he_now env) ctx) (\<lambda>ctx1.
     bindR (resp_add_header ctx1 ''Connection'' ''close'') (\<lambda>ctx2.
     bindR (resp_add_header ctx2 ''Content-Type'' ''text/html'') (\<lambda>ctx3.
     bindR (if ctx_status_code ctx3 = sc_code SC_405_METHOD_NOT_ALLOWED
            then resp_add_header ctx3 ''Allow'' ''GET, HEAD, OPTIONS'' else Inr ctx3) (\<lambda>ctx4.
       if \<not> he_malloc env then Inl NullDeref
       else
         let page = error_page (ctx_status_code ctx4);
             body = snprintf_buf 512 page @ [NUL];
             len = snprintf_ret page;
             ctx5 = ctx4\<lparr>ctx_response := (ctx_response ctx4)
                      \<lparr>resp_body_data := Some (Malloced body), resp_body_len := len\<rparr>\<rparr>
         in resp_add_header ctx5 ''Content-Length'' (int_to_string (int len))))))"

subsection \<open>OPTIONS, GET and HEAD, PUT\<close>

definition handle_options :: "handler_env \<Rightarrow> request_ctx_t \<Rightarrow> request_ctx_t result" where
  "handle_options env ctx =
     bindR (resp_add_common_headers (he_conf env) (he_now env) ctx) (\<lambda>ctx1.
     bindR (resp_add_header ctx1 ''Accept-Ranges'' ''bytes'') (\<lambda>ctx2.
     bindR (resp_add_header ctx2 ''Allow'' ''GET, HEAD, OPTIONS'') (\<lambda>ctx3.
     bindR (resp_add_header ctx3 ''Content-Length'' (int_to_string 0)) (\<lambda>ctx4.
       resp_add_header ctx4 ''Connection'' ''keep-alive''))))"

definition handle_get_head :: "handler_env \<Rightarrow> request_ctx_t \<Rightarrow> request_ctx_t result" where
  "handle_get_head env ctx =
     bindR (field_text PATH_MAX (strncpy (doc_root (he_conf env)) PATH_MAX)) (\<lambda>root.
     bindR (resolve_path root (cstr (h1_uri (ctx_h1 ctx))) PATH_MAX) (\<lambda>local_file.
       let fa = he_fs env local_file
       in (case fa_stat fa of
             None \<Rightarrow> handle_error env (resp_set_status ctx (sc_code SC_404_NOT_FOUND))
           | Some (st_size, st_mtime) \<Rightarrow>
               let ctx0 = ctx\<lparr>ctx_response := (ctx_response ctx)\<lparr>resp_body_len := st_size\<rparr>\<rparr>
               in bindR (get_http_date_time_t 30 st_mtime) (\<lambda>last_mod.
                  bindR (resp_add_common_headers (he_conf env) (he_now env) ctx0) (\<lambda>ctx1.
                  bindR (resp_add_header ctx1 ''Content-Type'' (get_mime_type local_file)) (\<lambda>ctx2.
                  bindR (resp_add_header ctx2 ''Last-Modified'' last_mod) (\<lambda>ctx3.
                  bindR (resp_add_header ctx3 ''Content-Length'' (int_to_string (to_int32 (int st_size)))) (\<lambda>ctx4.
                  bindR (resp_add_header ctx4 ''Connection'' ''keep-alive'') (\<lambda>ctx5.
                  bindR (resp_add_header ctx5 ''Content-Language'' ''en-CA'') (\<lambda>ctx6.
                    if ctx_method ctx6 = Some M_GET \<and> st_size > 0
                    then (let (r, ctx7) = resp_map_file_to_ctx ctx6 fa
                          in Inr (ctx7\<lparr>ctx_response := (ctx_response ctx7)\<lparr>resp_is_mmap := True\<rparr>\<rparr>))
                    else Inr ctx6))))))))))"

definition handle_put :: "request_ctx_t \<Rightarrow> request_ctx_t" where
  "handle_put ctx = emit L_DEBUG ''got a put'' ctx"

definition handle_static :: "handler_env \<Rightarrow> request_ctx_t \<Rightarrow> request_ctx_t result" where
  "handle_static env ctx =
     (case ctx_method ctx of
        Some M_GET \<Rightarrow> handle_get_head env ctx
      | Some M_HEAD \<Rightarrow> handle_get_head env ctx
      | Some M_OPTIONS \<Rightarrow> handle_options env ctx
      | Some M_PUT \<Rightarrow> Inr (handle_put ctx)
      | _ \<Rightarrow> Inr ctx)"

subsection \<open>Releasing the body\<close>

datatype release = Munmap mem nat | Free mem

definition cleanup_request_resources :: "request_ctx_t \<Rightarrow> release list" where
  "cleanup_request_resources ctx =
     (case resp_body_data (ctx_response ctx) of
        None \<Rightarrow> []
      | Some m \<Rightarrow>
          if resp_is_mmap (ctx_response ctx) then [Munmap m (resp_body_len (ctx_response ctx))]
          else [Free m])"

subsection \<open>Paths stay under the document root\<close>

definition dotdot_free :: "string \<Rightarrow> bool" where
  "dotdot_free s \<longleftrightarrow> (\<nexists>a b. s = a @ ''..'' @ b)"

lemma dotdot_free_iff: "dotdot_free s \<longleftrightarrow> find_sub ''..'' s = None"
  by (simp add: dotdot_free_def find_sub_None_append)

lemma dotdot_free_Cons: "dotdot_free (c # s) \<longleftrightarrow> (c = CHR ''.'' \<longrightarrow> s = [] \<or> hd s \<noteq> CHR ''.'') \<and> dotdot_free s"
  by (cases s) (auto simp: dotdot_free_iff)

lemma dotdot_free_Nil [simp]: "dotdot_free []"
  by (simp add: dotdot_free_def)

lemma dotdot_free_append_slash:
  "dotdot_free (a @ CHR ''/'' # b) \<longleftrightarrow> dotdot_free a \<and> dotdot_free b"
proof (induction a)
  case Nil
  then show ?case by (simp add: dotdot_free_Cons)
next
  case (Cons c a)
  then show ?case by (cases a) (auto simp: dotdot_free_Cons)
qed

lemma dotdot_free_take: "dotdot_free s \<Longrightarrow> dotdot_free (take n s)"
  unfolding dotdot_free_def by (metis append_assoc append_take_drop_id)

lemma dotdot_free_drop: "dotdot_free s \<Longrightarrow> dotdot_free (drop n s)"
  unfolding dotdot_free_def by (metis append_assoc append_take_drop_id)

text \<open>The joined text before truncation: one slash between the root and the rest.\<close>

lemma join_one_slash:
  assumes "docroot \<noteq> []" "dotdot_free docroot" "dotdot_free uri"
  defines "base \<equiv> (if last docroot = CHR ''/'' then butlast docroot else docroot)"
    and "rel \<equiv> (if uri \<noteq> [] \<and> hd uri = CHR ''/'' then tl uri else uri)"
  shows "(if last docroot = CHR ''/'' \<and> uri \<noteq> [] \<and> hd uri = CHR ''/'' then docroot @ tl uri
      else if last docroot \<noteq> CHR ''/'' \<and> \<not> (uri \<noteq> [] \<and> hd uri = CHR ''/'') then docroot @ ''/'' @ uri
      else docroot @ uri) = base @ CHR ''/'' # rel" "dotdot_free (base @ CHR ''/'' # rel)"
proof -
  have "last docroot = CHR ''/'' \<Longrightarrow> docroot = butlast docroot @ ''/''"
    using assms(1) by (metis append_butlast_last_id)
  then show "(if last docroot = CHR ''/'' \<and> uri \<noteq> [] \<and> hd uri = CHR ''/'' then docroot @ tl uri
      else if last docroot \<noteq> CHR ''/'' \<and> \<not> (uri \<noteq> [] \<and> hd uri = CHR ''/'') then docroot @ ''/'' @ uri
      else docroot @ uri) = base @ CHR ''/'' # rel"
    unfolding base_def rel_def by (cases uri) (auto simp del: append_butlast_last_id)
  have "dotdot_free base"
    unfolding base_def using assms(2) dotdot_free_take [of docroot "length docroot - 1"]
    by (simp add: butlast_conv_take)
  moreover have "dotdot_free rel"
    unfolding rel_def using assms(3) dotdot_free_drop [of uri 1] by (simp add: drop_Suc)
  ultimately show "dotdot_free (base @ CHR ''/'' # rel)" by (simp add: dotdot_free_append_slash)
qed

lemma resolve_path_confined:
  assumes "docroot \<noteq> []" "dotdot_free docroot" "dotdot_free uri" "length docroot + 1 < out_len"
  shows "\<exists>rel. resolve_path docroot uri out_len
       = Inr ((if last docroot = CHR ''/'' then butlast docroot else docroot) @ CHR ''/'' # rel)
     \<and> dotdot_free rel
     \<and> length ((if last docroot = CHR ''/'' then butlast docroot else docroot) @ CHR ''/'' # rel) < out_len"
proof -
  define base where "base = (if last docroot = CHR ''/'' then butlast docroot else docroot)"
  define rel where "rel = (if uri \<noteq> [] \<and> hd uri = CHR ''/'' then tl uri else uri)"
  note j = join_one_slash [OF assms(1-3), folded base_def rel_def]
  define out where "out = take (out_len - 1) (base @ CHR ''/'' # rel)"
  define sfx where "sfx = (if last out = CHR ''/'' then take (out_len - length out - 1) ''index.html'' else [])"
  have bl: "length base + 1 \<le> out_len - 1" using assms(4) by (auto simp: base_def)
  define r where "r = take (out_len - 1 - (length base + 1)) rel"
  have out: "out = base @ CHR ''/'' # r"
    using bl by (simp add: out_def r_def take_Cons')
  have free: "dotdot_free base" "dotdot_free r"
    using dotdot_free_take [OF j(2), of "out_len - 1"]
    unfolding out_def [symmetric] out dotdot_free_append_slash by blast+
  have len: "length out \<le> out_len - 1" by (simp add: out_def)
  have "resolve_path docroot uri out_len = Inr (out @ sfx)"
  proof -
    have ne: "out \<noteq> []" by (simp add: out)
    show ?thesis
      unfolding resolve_path_def Let_def snprintf_buf_def j(1) out_def [symmetric] sfx_def
      using assms(1) ne by simp
  qed
  moreover have "dotdot_free (r @ sfx)"
  proof (cases "last out = CHR ''/''")
    case slash: True
    have "dotdot_free (take n ''index.html'')" for n
      by (rule dotdot_free_take) (simp add: dotdot_free_iff)
    then have idx: "dotdot_free sfx" by (simp add: sfx_def)
    show ?thesis
    proof (cases "r = []")
      case True
      with idx show ?thesis by simp
    next
      case False
      with slash have "last r = CHR ''/''" by (simp add: out)
      with False obtain r0 where r0: "r = r0 @ ''/''" by (metis append_butlast_last_id)
      then have "dotdot_free r0" using free(2) dotdot_free_append_slash [of r0 "[]"] by simp
      with idx show ?thesis by (simp add: r0 dotdot_free_append_slash)
    qed
  next
    case False
    then show ?thesis using free by (simp add: sfx_def)
  qed
  moreover have "length sfx \<le> out_len - length out - 1" by (simp add: sfx_def del: length_Cons)
  then have "length (out @ sfx) < out_len" using len assms(4) unfolding length_append by linarith
  moreover have "out @ sfx = base @ CHR ''/'' # (r @ sfx)" by (simp add: out)
  ultimately show ?thesis unfolding base_def by (intro exI [of _ "r @ sfx"]) simp
qed

subsection \<open>Header lists\<close>

text \<open>The response header that \<open>resp_add_header\<close> appends, and the headers as pairs of strings.\<close>

definition append_header :: "string \<Rightarrow> string \<Rightarrow> request_ctx_t \<Rightarrow> request_ctx_t" where
  "append_header name v ctx = ctx\<lparr>ctx_response := (ctx_response ctx)\<lparr>
     resp_headers := resp_headers (ctx_response ctx)
       @ [\<lparr>kv_key = strncpy name KEY_SIZE, kv_value = strncpy v VALUE_SIZE\<rparr>],
     resp_header_count := length (resp_headers (ctx_response ctx)) + 1\<rparr>\<rparr>"

definition counted :: "request_ctx_t \<Rightarrow> bool" where
  "counted ctx \<longleftrightarrow> resp_header_count (ctx_response ctx) = length (resp_headers (ctx_response ctx))"

definition header_pairs :: "response_t \<Rightarrow> (string \<times> string) list" where
  "header_pairs r = map (\<lambda>kv. (cstr (kv_key kv), cstr (kv_value kv))) (sent_headers r)"

lemma append_header_simps [simp]:
  "ctx_conn (append_header n v ctx) = ctx_conn ctx" "ctx_h1 (append_header n v ctx) = ctx_h1 ctx"
  "ctx_status_code (append_header n v ctx) = ctx_status_code ctx"
  "ctx_method (append_header n v ctx) = ctx_method ctx"
  "ctx_log (append_header n v ctx) = ctx_log ctx"
  "ctx_handler (append_header n v ctx) = ctx_handler ctx"
  "resp_body_data (ctx_response (append_header n v ctx)) = resp_body_data (ctx_response ctx)"
  "resp_body_len (ctx_response (append_header n v ctx)) = resp_body_len (ctx_response ctx)"
  "resp_is_mmap (ctx_response (append_header n v ctx)) = resp_is_mmap (ctx_response ctx)"
  "counted (append_header n v ctx)"
  "length (resp_headers (ctx_response (append_header n v ctx)))
     = Suc (length (resp_headers (ctx_response ctx)))"
  by (simp_all add: append_header_def counted_def)

lemma resp_add_header_append:
  "counted ctx \<Longrightarrow> length (resp_headers (ctx_response ctx)) < MAX_RESP_HEADERS \<Longrightarrow>
   resp_add_header ctx n v = Inr (append_header n v ctx)"
  by (simp add: resp_add_header_def append_header_def counted_def Let_def)

lemma sent_headers_counted:
  "counted ctx \<Longrightarrow> sent_headers (ctx_response ctx) = resp_headers (ctx_response ctx)"
  by (auto simp: counted_def sent_headers_def zget_def intro: nth_equalityI)

lemma header_pairs_append:
  assumes "counted ctx" "length (cstr n) < KEY_SIZE" "length (cstr v) < VALUE_SIZE"
  shows "header_pairs (ctx_response (append_header n v ctx))
    = header_pairs (ctx_response ctx) @ [(cstr n, cstr v)]"
  using assms
  by (simp add: header_pairs_def sent_headers_counted cstr_strncpy)
    (simp add: append_header_def cstr_strncpy)

text \<open>Response headers so small that the whole block fits its buffer with room to spare.\<close>

definition small_headers :: "nat \<Rightarrow> request_ctx_t \<Rightarrow> bool" where
  "small_headers n ctx \<longleftrightarrow> counted ctx \<and> length (resp_headers (ctx_response ctx)) \<le> n
     \<and> (\<forall>kv \<in> set (resp_headers (ctx_response ctx)).
          length (cstr (kv_key kv)) \<le> 16 \<and> length (cstr (kv_value kv)) \<le> 64)"

lemma small_headers_append:
  assumes "small_headers n ctx" "length (cstr k) \<le> 16" "length (cstr v) \<le> 64"
  shows "small_headers (Suc n) (append_header k v ctx)"
  using assms
  by (simp add: small_headers_def) (auto simp: append_header_def cstr_strncpy size_defs)

lemma small_headers_app:
  assumes "small_headers n ctx" "n < m" "length (cstr k) \<le> 16" "length (cstr v) \<le> 64"
  shows "small_headers m (append_header k v ctx)"
  using small_headers_append [OF assms(1,3,4)] assms(2) by (simp add: small_headers_def)

lemma small_headers_set_response:
  "resp_headers r = resp_headers (ctx_response ctx) \<Longrightarrow> resp_header_count r = resp_header_count (ctx_response ctx) \<Longrightarrow>
   small_headers n (ctx\<lparr>ctx_response := r\<rparr>) = small_headers n ctx"
  by (simp add: small_headers_def counted_def)

lemma length_show_int_le:
  assumes "- (2 ^ 31) \<le> i" "i < 2 ^ 31"
  shows "length (show_int i) \<le> 11"
proof -
  have small: "n < 10 ^ 10 \<Longrightarrow> length (show_nat n) \<le> 10" for n by (rule show_nat_length) simp
  have "nat i < 10 ^ 10" "nat (- i) < 10 ^ 10" using assms by simp_all
  from small [OF this(1)] small [OF this(2)] show ?thesis by (simp add: show_int_def)
qed

lemma length_concat_map_le:
  "\<forall>x \<in> set xs. length (f x) \<le> (k :: nat) \<Longrightarrow> length (concat (map f xs)) \<le> k * length xs"
  by (induction xs) auto

lemma small_headers_fit:
  assumes "small_headers 64 ctx" "- (2 ^ 31) \<le> ctx_status_code ctx" "ctx_status_code ctx < 2 ^ 31"
  shows "length (response_text ctx) < HEADER_BUFFER_SIZE"
    "\<forall>kv \<in> set (sent_headers (ctx_response ctx)). terminated kv"
proof -
  let ?hs = "resp_headers (ctx_response ctx)"
  have sh: "sent_headers (ctx_response ctx) = ?hs"
    using assms(1) by (simp add: small_headers_def sent_headers_counted)
  have "\<forall>kv \<in> set ?hs. length (header_text kv) \<le> 84"
    using assms(1) by (auto simp: small_headers_def header_text_def)
  then have "length (concat (map header_text ?hs)) \<le> 84 * length ?hs"
    by (rule length_concat_map_le)
  moreover have "length ?hs \<le> 64" using assms(1) by (simp add: small_headers_def)
  moreover have "length (status_line (ctx_status_code ctx)) \<le> 54"
    using length_show_int_le [OF assms(2,3)] status_text_length [of "ctx_status_code ctx"]
    by (simp add: status_line_def)
  ultimately show "length (response_text ctx) < HEADER_BUFFER_SIZE"
    by (simp add: response_text_def sh HEADER_BUFFER_SIZE_def)
  show "\<forall>kv \<in> set (sent_headers (ctx_response ctx)). terminated kv"
    unfolding sh using assms(1) by (auto simp: small_headers_def terminated_def size_defs)
qed

subsection \<open>What each handler produces\<close>

text \<open>
  An environment as the server sets it up: a clock and file times between 1970 and 9999, memory to be
  had, a server token that fits its 20 bytes, and a document root that is a C string shorter than a
  path buffer.
\<close>

definition time_ok :: "int \<Rightarrow> bool" where
  "time_ok t \<longleftrightarrow> 0 \<le> t \<and> t \<le> 253402300799"

definition env_ok :: "handler_env \<Rightarrow> bool" where
  "env_ok env \<longleftrightarrow> time_ok (he_now env) \<and> he_malloc env
     \<and> length (server_tok (he_conf env)) < 20
     \<and> doc_root (he_conf env) \<noteq> [] \<and> NUL \<notin> set (doc_root (he_conf env))
     \<and> length (doc_root (he_conf env)) < PATH_MAX - 1
     \<and> (\<forall>p n t. fa_stat (he_fs env p) = Some (n, t) \<longrightarrow> time_ok t)"

definition fresh_response :: "request_ctx_t \<Rightarrow> bool" where
  "fresh_response ctx \<longleftrightarrow> ctx_response ctx = zero_response"

definition with_common :: "handler_env \<Rightarrow> request_ctx_t \<Rightarrow> request_ctx_t" where
  "with_common env ctx =
     append_header ''Date'' (imf_fixdate (he_now env)) (append_header ''Server'' (server_tok (he_conf env)) ctx)"

lemma common_headers:
  assumes "env_ok env" "counted ctx" "length (resp_headers (ctx_response ctx)) < 60"
  shows "resp_add_common_headers (he_conf env) (he_now env) ctx = Inr (with_common env ctx)"
  using assms length_imf_fixdate [of "he_now env"]
  by (simp add: resp_add_common_headers_def get_http_date_now_def env_ok_def time_ok_def
      resp_add_header_append with_common_def MAX_RESP_HEADERS_def)

lemma with_common_simps [simp]:
  "ctx_conn (with_common env ctx) = ctx_conn ctx" "ctx_h1 (with_common env ctx) = ctx_h1 ctx"
  "ctx_status_code (with_common env ctx) = ctx_status_code ctx"
  "ctx_method (with_common env ctx) = ctx_method ctx"
  "resp_body_data (ctx_response (with_common env ctx)) = resp_body_data (ctx_response ctx)"
  "resp_body_len (ctx_response (with_common env ctx)) = resp_body_len (ctx_response ctx)"
  "resp_is_mmap (ctx_response (with_common env ctx)) = resp_is_mmap (ctx_response ctx)"
  "counted (with_common env ctx)"
  "length (resp_headers (ctx_response (with_common env ctx))) = Suc (Suc (length (resp_headers (ctx_response ctx))))"
  by (simp_all add: with_common_def)

lemma length_cstr_imf: "time_ok t \<Longrightarrow> length (cstr (imf_fixdate t)) \<le> 29"
  using length_imf_fixdate [of t] length_cstr_le [of "imf_fixdate t"] by (simp add: time_ok_def)

lemma small_with_common:
  "env_ok env \<Longrightarrow> small_headers n ctx \<Longrightarrow> small_headers (Suc (Suc n)) (with_common env ctx)"
  using length_cstr_imf [of "he_now env"] length_cstr_le [of "server_tok (he_conf env)"]
  by (auto simp: with_common_def env_ok_def cstr_id intro!: small_headers_append)

definition error_headers :: "request_ctx_t \<Rightarrow> request_ctx_t" where
  "error_headers ctx =
     (let c = append_header ''Content-Type'' ''text/html'' (append_header ''Connection'' ''close'' ctx)
      in if ctx_status_code ctx = 405 then append_header ''Allow'' ''GET, HEAD, OPTIONS'' c else c)"

definition error_result :: "handler_env \<Rightarrow> request_ctx_t \<Rightarrow> request_ctx_t" where
  "error_result env ctx =
     (let c = error_headers (with_common env ctx); page = error_page (ctx_status_code ctx)
      in append_header ''Content-Length'' (int_to_string (int (length page)))
           (c\<lparr>ctx_response := (ctx_response c)
              \<lparr>resp_body_data := Some (Malloced (snprintf_buf 512 page @ [NUL])), resp_body_len := length page\<rparr>\<rparr>))"

lemma handle_error_eq:
  assumes "env_ok env" "counted ctx" "length (resp_headers (ctx_response ctx)) < 50"
  shows "handle_error env ctx = Inr (error_result env ctx)"
proof -
  have "he_malloc env" using assms(1) by (simp add: env_ok_def)
  moreover have "counted (c\<lparr>ctx_response := (ctx_response c)\<lparr>resp_body_data := d, resp_body_len := l\<rparr>\<rparr>) = counted c" for c d l
    by (simp add: counted_def)
  ultimately show ?thesis
    using assms(3) common_headers [OF assms(1,2)]
    by (simp add: handle_error_def resp_add_header_append MAX_RESP_HEADERS_def error_result_def
        error_headers_def snprintf_ret_def Let_def)
qed

lemma length_error_page:
  assumes "- (2 ^ 31) \<le> c" "c < 2 ^ 31"
  shows "length (error_page c) < 512"
  using length_show_int_le [OF assms] status_text_length [of c] by (simp add: error_page_def Let_def)

lemma snprintf_buf_whole: "length t < n \<Longrightarrow> snprintf_buf n t = t"
  by (simp add: snprintf_buf_def)

lemma length_int_to_string: "length (cstr (int_to_string i)) \<le> 31"
  using length_cstr_le [of "int_to_string i"] by (simp add: int_to_string_def snprintf_buf_def)

lemma small_error_result:
  assumes "env_ok env" "small_headers n ctx"
  shows "small_headers (n + 6) (error_result env ctx)"
proof -
  let ?w = "with_common env ctx"
  have "small_headers (n + 2) ?w" using small_with_common [OF assms] by simp
  then have c: "small_headers (n + 3) (append_header ''Connection'' ''close'' ?w)"
    by (rule small_headers_app) (simp_all add: cstr_id)
  let ?t = "append_header ''Content-Type'' ''text/html'' (append_header ''Connection'' ''close'' ?w)"
  have t: "small_headers (n + 4) ?t"
    by (rule small_headers_app [OF c]) (simp_all add: cstr_id)
  have "small_headers (n + 5) (append_header ''Allow'' ''GET, HEAD, OPTIONS'' ?t)"
    by (rule small_headers_app [OF t]) (simp_all add: cstr_id)
  moreover have "small_headers (n + 5) ?t" using t by (simp add: small_headers_def)
  ultimately have "small_headers (n + 5) (error_headers ?w)"
    by (simp add: error_headers_def Let_def)
  then show ?thesis
    unfolding error_result_def Let_def
    using le_trans [OF length_int_to_string, of 64]
    by (intro small_headers_app [of "n + 5"]) (simp_all add: small_headers_set_response cstr_id)
qed

definition options_result :: "handler_env \<Rightarrow> request_ctx_t \<Rightarrow> request_ctx_t" where
  "options_result env ctx =
     append_header ''Connection'' ''keep-alive'' (append_header ''Content-Length'' (int_to_string 0)
       (append_header ''Allow'' ''GET, HEAD, OPTIONS'' (append_header ''Accept-Ranges'' ''bytes''
         (with_common env ctx))))"

lemma handle_options_eq:
  assumes "env_ok env" "counted ctx" "length (resp_headers (ctx_response ctx)) < 50"
  shows "handle_options env ctx = Inr (options_result env ctx)"
  using assms(3) common_headers [OF assms(1,2)]
  by (simp add: handle_options_def resp_add_header_append MAX_RESP_HEADERS_def options_result_def)

definition set_body_len :: "nat \<Rightarrow> request_ctx_t \<Rightarrow> request_ctx_t" where
  "set_body_len n ctx = ctx\<lparr>ctx_response := (ctx_response ctx)\<lparr>resp_body_len := n\<rparr>\<rparr>"

lemma set_body_len_simps [simp]:
  "ctx_method (set_body_len n ctx) = ctx_method ctx" "ctx_h1 (set_body_len n ctx) = ctx_h1 ctx"
  "ctx_status_code (set_body_len n ctx) = ctx_status_code ctx" "ctx_conn (set_body_len n ctx) = ctx_conn ctx"
  by (simp_all add: set_body_len_def)

definition file_headers :: "handler_env \<Rightarrow> string \<Rightarrow> nat \<Rightarrow> int \<Rightarrow> request_ctx_t \<Rightarrow> request_ctx_t" where
  "file_headers env path n t ctx =
     append_header ''Content-Language'' ''en-CA'' (append_header ''Connection'' ''keep-alive''
       (append_header ''Content-Length'' (int_to_string (to_int32 (int n)))
         (append_header ''Last-Modified'' (imf_fixdate t)
           (append_header ''Content-Type'' (get_mime_type path)
             (with_common env (set_body_len n ctx))))))"

definition with_body :: "file_answer \<Rightarrow> request_ctx_t \<Rightarrow> request_ctx_t" where
  "with_body fa ctx =
     (let ctx7 = snd (resp_map_file_to_ctx ctx fa)
      in ctx7\<lparr>ctx_response := (ctx_response ctx7)\<lparr>resp_is_mmap := True\<rparr>\<rparr>)"

definition file_result :: "handler_env \<Rightarrow> string \<Rightarrow> request_ctx_t \<Rightarrow> request_ctx_t" where
  "file_result env path ctx =
     (case fa_stat (he_fs env path) of
        None \<Rightarrow> error_result env (resp_set_status ctx 404)
      | Some (n, t) \<Rightarrow>
          let c = file_headers env path n t ctx
          in if ctx_method ctx = Some M_GET \<and> n > 0 then with_body (he_fs env path) c else c)"

lemma file_headers_simps [simp]:
  "ctx_method (file_headers env path n t ctx) = ctx_method ctx"
  "ctx_conn (file_headers env path n t ctx) = ctx_conn ctx"
  "ctx_h1 (file_headers env path n t ctx) = ctx_h1 ctx"
  "ctx_status_code (file_headers env path n t ctx) = ctx_status_code ctx"
  "resp_body_data (ctx_response (file_headers env path n t ctx)) = resp_body_data (ctx_response ctx)"
  "resp_body_len (ctx_response (file_headers env path n t ctx)) = n"
  "resp_is_mmap (ctx_response (file_headers env path n t ctx)) = resp_is_mmap (ctx_response ctx)"
  by (simp_all add: file_headers_def set_body_len_def)

lemma env_ok_root:
  assumes "env_ok env"
  shows "field_text PATH_MAX (strncpy (doc_root (he_conf env)) PATH_MAX) = Inr (doc_root (he_conf env))"
proof -
  let ?r = "doc_root (he_conf env)"
  have r: "cstr ?r = ?r" "length ?r < PATH_MAX"
    using assms by (auto simp: env_ok_def cstr_id)
  then have "cstr (strncpy ?r PATH_MAX) = ?r" using cstr_strncpy [of ?r PATH_MAX] by simp
  with r(2) show ?thesis by (simp add: field_text_def)
qed

lemma handle_get_head_eq:
  assumes "env_ok env" "counted ctx" "length (resp_headers (ctx_response ctx)) < 50"
    "resolve_path (doc_root (he_conf env)) (cstr (h1_uri (ctx_h1 ctx))) PATH_MAX = Inr path"
  shows "handle_get_head env ctx = Inr (file_result env path ctx)"
proof (cases "fa_stat (he_fs env path)")
  case None
  have "counted (resp_set_status ctx 404)" using assms(2) by (simp add: counted_def resp_set_status_def)
  then have "handle_error env (resp_set_status ctx 404) = Inr (error_result env (resp_set_status ctx 404))"
    using assms(1,3) by (intro handle_error_eq) (simp_all add: resp_set_status_def)
  with None show ?thesis
    by (simp add: handle_get_head_def env_ok_root [OF assms(1)] assms(4) file_result_def Let_def)
next
  case (Some nt)
  obtain n t where nt: "nt = (n, t)" by (cases nt)
  have t: "time_ok t" using assms(1) Some nt by (auto simp: env_ok_def)
  have d: "get_http_date_time_t 30 t = Inr (imf_fixdate t)"
    using t length_imf_fixdate [of t] by (simp add: get_http_date_time_t_def time_ok_def)
  have c: "counted (set_body_len n ctx)" "length (resp_headers (ctx_response (set_body_len n ctx))) < 50"
    using assms(2,3) by (simp_all add: counted_def set_body_len_def)
  have "resp_add_common_headers (he_conf env) (he_now env) (set_body_len n ctx) = Inr (with_common env (set_body_len n ctx))"
    using c by (intro common_headers [OF assms(1)]) simp_all
  then show ?thesis
    using c(2)
    by (simp add: handle_get_head_def env_ok_root [OF assms(1)] assms(4) Some nt d
        resp_add_header_append MAX_RESP_HEADERS_def file_result_def file_headers_def [symmetric]
        with_body_def Let_def split_beta flip: set_body_len_def)
qed

subsection \<open>Properties of the handlers\<close>

text \<open>A path whose text starts with the document root and a slash, and never says \<open>..\<close> after it.\<close>

definition under_root :: "string \<Rightarrow> string \<Rightarrow> bool" where
  "under_root root p \<longleftrightarrow>
     (\<exists>rel. p = (if last root = CHR ''/'' then butlast root else root) @ CHR ''/'' # rel \<and> dotdot_free rel)"

text \<open>
  For a document root and a URI without \<open>..\<close> the path has exactly one slash
  between the two, stays under the root, never says \<open>..\<close> after it, not even where the parts are joined
  or the text is cut, and fits its buffer with the NUL.
\<close>

theorem resolve_path_under_root:
  assumes "root \<noteq> []" "dotdot_free root" "dotdot_free uri" "length root + 1 < out_len"
  shows "\<exists>p. resolve_path root uri out_len = Inr p \<and> under_root root p \<and> length p < out_len"
  using resolve_path_confined [OF assms] unfolding under_root_def by blast

theorem resolve_path_under_root_witness:
  "\<exists>p. resolve_path ''/srv/'' ''/a/'' 4096 = Inr p \<and> under_root ''/srv/'' p \<and> length p < 4096"
  by (rule resolve_path_under_root) (simp_all add: dotdot_free_iff)

lemma handle_error_fs: "handle_error (env\<lparr>he_fs := fs\<rparr>) ctx = handle_error env ctx"
  by (simp add: handle_error_def)

lemma handle_get_head_path:
  assumes "resolve_path (doc_root (he_conf env)) (cstr (h1_uri (ctx_h1 ctx))) PATH_MAX = Inr p"
    "env_ok env" "fs p = he_fs env p"
  shows "handle_get_head (env\<lparr>he_fs := fs\<rparr>) ctx = handle_get_head env ctx"
proof -
  have env: "he_conf (env\<lparr>he_fs := fs\<rparr>) = he_conf env" "he_now (env\<lparr>he_fs := fs\<rparr>) = he_now env"
    "he_fs (env\<lparr>he_fs := fs\<rparr>) = fs" by simp_all
  show ?thesis
    unfolding handle_get_head_def env env_ok_root [OF assms(2)] bindR.simps assms(1) Let_def
      handle_error_fs assms(3) ..
qed

text \<open>
  C3. After validation has accepted a request, whatever its handler does depends
  on no file outside the document root: changing the answers of the file system for every other path
  changes nothing.
\<close>

theorem only_files_under_root:
  assumes "env_ok env" "dotdot_free (doc_root (he_conf env))"
    "ctx_status_code (validate_request ctx) = 200"
    "\<And>p. under_root (doc_root (he_conf env)) p \<Longrightarrow> fs p = he_fs env p"
  shows "handle_static (env\<lparr>he_fs := fs\<rparr>) (validate_request ctx) = handle_static env (validate_request ctx)"
proof -
  let ?ctx = "validate_request ctx"
  let ?root = "doc_root (he_conf env)"
  have "dotdot_free (cstr (h1_uri (ctx_h1 ?ctx)))"
    using assms(3) by (simp add: validate_ok_iff dotdot_free_def)
  moreover have "?root \<noteq> []" "length ?root + 1 < PATH_MAX" using assms(1) by (auto simp: env_ok_def)
  ultimately obtain p where p: "resolve_path ?root (cstr (h1_uri (ctx_h1 ?ctx))) PATH_MAX = Inr p" "under_root ?root p"
    using resolve_path_confined [OF _ assms(2)] unfolding under_root_def by blast
  have "handle_get_head (env\<lparr>he_fs := fs\<rparr>) ?ctx = handle_get_head env ?ctx"
    using handle_get_head_path [of env ?ctx p fs, OF p(1) assms(1) assms(4) [OF p(2)]] .
  moreover have "handle_options (env\<lparr>he_fs := fs\<rparr>) ?ctx = handle_options env ?ctx"
    by (simp add: handle_options_def)
  ultimately show ?thesis
    by (simp add: handle_static_def split: option.split http_method_t.split)
qed

text \<open>A sample environment: one file of two bytes under the root.\<close>

definition example_env :: handler_env where
  "example_env = \<lparr>he_now = 0, he_malloc = True,
     he_fs = (\<lambda>p. if p = ''/srv/a.txt'' then \<lparr>fa_stat = Some (2, 0), fa_open = True, fa_map = Some ''hi''\<rparr>
                  else \<lparr>fa_stat = None, fa_open = False, fa_map = None\<rparr>),
     he_conf = zero_config\<lparr>server_tok := ''Celeritas/0.10.2'', doc_root := ''/srv''\<rparr>\<rparr>"

definition example_request :: "string \<Rightarrow> string \<Rightarrow> request_ctx_t" where
  "example_request m u = (zero_ctx (zero_conn\<lparr>conn_protocol := PROTO_HTTP10\<rparr>) 0)
     \<lparr>ctx_h1 := zero_h1\<lparr>h1_method := m, h1_uri := u\<rparr>\<rparr>"

lemma example_env_ok: "env_ok example_env"
  by (simp add: env_ok_def example_env_def time_ok_def PATH_MAX_def)

lemma example_root: "dotdot_free (doc_root (he_conf example_env))"
  by (simp add: example_env_def dotdot_free_iff)

lemma example_validated:
  "ctx_status_code (validate_request (example_request ''GET'' ''/a.txt'')) = 200"
proof -
  have "dotdot_free ''/a.txt''" by (simp add: dotdot_free_iff)
  then show ?thesis
    by (simp add: validate_ok_iff example_request_def cstr_id dotdot_free_def zero_defs)
qed

theorem only_files_under_root_witness:
  "handle_static (example_env\<lparr>he_fs := (he_fs example_env)(''/etc/passwd'' := \<lparr>fa_stat = Some (9, 0), fa_open = True, fa_map = None\<rparr>)\<rparr>)
      (validate_request (example_request ''GET'' ''/a.txt''))
   = handle_static example_env (validate_request (example_request ''GET'' ''/a.txt''))"
proof (rule only_files_under_root [OF example_env_ok example_root example_validated])
  fix p
  assume "under_root (doc_root (he_conf example_env)) p"
  then have "p \<noteq> ''/etc/passwd''" by (auto simp: under_root_def example_env_def)
  then show "((he_fs example_env)(''/etc/passwd'' := \<lparr>fa_stat = Some (9, 0), fa_open = True, fa_map = None\<rparr>)) p
    = he_fs example_env p" by simp
qed

subsection \<open>Contents of the responses\<close>

lemma mime_types_plain: "\<forall>e \<in> set mime_table. length (snd e) \<le> 24 \<and> NUL \<notin> set (snd e)"
  by (simp add: mime_table_def)

lemma get_mime_type_plain: "length (get_mime_type p) \<le> 24 \<and> NUL \<notin> set (get_mime_type p)"
proof -
  have "length (snd e) \<le> 24 \<and> NUL \<notin> set (snd e)"
    if "find (\<lambda>e. strcasecmp_eq (fst e) x) mime_table = Some e" for x e
    using mime.lookup_Some [OF that] mime_types_plain by blast
  then show ?thesis
    by (auto simp: get_mime_type_def octet_stream_def simp del: split_paired_All split: option.splits)
qed

lemma resolve_path_defined:
  assumes "root \<noteq> []" "1 < out_len"
  shows "\<exists>p. resolve_path root uri out_len = Inr p"
  using assms by (auto simp: resolve_path_def snprintf_buf_def Let_def)

lemma header_pairs_body:
  "resp_headers r = resp_headers q \<Longrightarrow> resp_header_count r = resp_header_count q \<Longrightarrow> header_pairs r = header_pairs q"
  by (simp add: header_pairs_def sent_headers_def)

lemma with_body_headers [simp]:
  "resp_headers (ctx_response (with_body fa ctx)) = resp_headers (ctx_response ctx)"
  "resp_header_count (ctx_response (with_body fa ctx)) = resp_header_count (ctx_response ctx)"
  "ctx_status_code (with_body fa ctx) = ctx_status_code ctx" "ctx_method (with_body fa ctx) = ctx_method ctx"
  "ctx_conn (with_body fa ctx) = ctx_conn ctx" "ctx_h1 (with_body fa ctx) = ctx_h1 ctx"
  by (simp_all add: with_body_def resp_map_file_to_ctx_def Let_def split: option.split)

lemma fresh_counted:
  "fresh_response ctx \<Longrightarrow> counted ctx \<and> resp_headers (ctx_response ctx) = [] \<and> small_headers 0 ctx
     \<and> header_pairs (ctx_response ctx) = []"
  by (simp add: fresh_response_def counted_def small_headers_def zero_response_def header_pairs_def sent_headers_def)

lemma pairs_common:
  assumes "env_ok env" "counted ctx"
  shows "header_pairs (ctx_response (with_common env ctx)) = header_pairs (ctx_response ctx) @
     [(''Server'', cstr (server_tok (he_conf env))), (''Date'', cstr (imf_fixdate (he_now env)))]"
  using assms length_cstr_imf [of "he_now env"] length_cstr_le [of "server_tok (he_conf env)"]
  by (simp add: with_common_def header_pairs_append env_ok_def size_defs cstr_id)

lemma int_to_string_plain: "- (2 ^ 31) \<le> i \<Longrightarrow> i < 2 ^ 31 \<Longrightarrow> cstr (int_to_string i) = show_int i"
  using int_to_string_eq [of i] by (simp add: show_int_def cstr_id)

lemma small_file_headers:
  assumes "env_ok env" "small_headers n ctx" "time_ok t"
  shows "small_headers (n + 10) (file_headers env path k t ctx)"
proof -
  have w: "small_headers (n + 2) (with_common env (set_body_len k ctx))"
    using small_with_common [OF assms(1), of n "set_body_len k ctx"] assms(2)
    by (simp add: set_body_len_def small_headers_set_response)
  note m = get_mime_type_plain [of path]
  show ?thesis
    unfolding file_headers_def
    apply (rule small_headers_app [where n = "n + 9"])
       apply (rule small_headers_app [where n = "n + 8"])
          apply (rule small_headers_app [where n = "n + 7"])
             apply (rule small_headers_app [where n = "n + 6"])
                apply (rule small_headers_app [where n = "n + 2", OF w])
    using m length_cstr_le [of "get_mime_type path"] length_cstr_imf [OF assms(3)]
      length_int_to_string [of "to_int32 (int k)"]
    by (simp_all add: cstr_id)
qed

lemma file_headers_pairs:
  assumes "env_ok env" "fresh_response ctx" "time_ok t"
  shows "header_pairs (ctx_response (file_headers env path n t ctx)) =
        [(''Server'', cstr (server_tok (he_conf env))), (''Date'', cstr (imf_fixdate (he_now env))),
         (''Content-Type'', get_mime_type path), (''Last-Modified'', cstr (imf_fixdate t)),
         (''Content-Length'', cstr (int_to_string (to_int32 (int n)))), (''Connection'', ''keep-alive''),
         (''Content-Language'', ''en-CA'')]"
proof -
  note f = fresh_counted [OF assms(2)]
  have "counted (set_body_len n ctx)" "header_pairs (ctx_response (set_body_len n ctx)) = []"
    using f by (simp_all add: counted_def set_body_len_def header_pairs_def sent_headers_def)
  then show ?thesis
    using pairs_common [OF assms(1)] length_cstr_imf [OF assms(3)] get_mime_type_plain [of path]
      le_less_trans [OF length_int_to_string, of 4096 "to_int32 (int n)"]
    by (simp add: file_headers_def header_pairs_append size_defs cstr_id)
qed

lemma options_pairs:
  assumes "env_ok env" "fresh_response ctx"
  shows "header_pairs (ctx_response (options_result env ctx)) =
        [(''Server'', cstr (server_tok (he_conf env))), (''Date'', cstr (imf_fixdate (he_now env))),
         (''Accept-Ranges'', ''bytes''), (''Allow'', ''GET, HEAD, OPTIONS''),
         (''Content-Length'', cstr (int_to_string 0)), (''Connection'', ''keep-alive'')]"
  using pairs_common [OF assms(1)] fresh_counted [OF assms(2)]
    le_less_trans [OF length_int_to_string, of 4096 0]
  by (simp add: options_result_def header_pairs_append size_defs cstr_id)

lemma small_options_result:
  assumes "env_ok env" "small_headers n ctx"
  shows "small_headers (n + 10) (options_result env ctx)"
  unfolding options_result_def
  apply (rule small_headers_app [where n = "n + 9"])
     apply (rule small_headers_app [where n = "n + 8"])
        apply (rule small_headers_app [where n = "n + 7"])
           apply (rule small_headers_app [where n = "n + 2"])
  using small_with_common [OF assms] le_trans [OF length_int_to_string, of 64 0]
  by (simp_all add: cstr_id)

text \<open>
  A GET or HEAD for a file the system can stat answers with seven headers in this
  order, the length of a file below 2 GiB exactly; a GET of a non-empty file that maps carries the
  mapped bytes, and HEAD carries no body.
\<close>

theorem get_file_response:
  assumes "env_ok env" "fresh_response ctx" "ctx_method ctx \<in> {Some M_GET, Some M_HEAD}"
    "resolve_path (doc_root (he_conf env)) (cstr (h1_uri (ctx_h1 ctx))) PATH_MAX = Inr path"
    "fa_stat (he_fs env path) = Some (n, t)" "n < 2 ^ 31"
  shows "\<exists>ctx'. handle_static env ctx = Inr ctx' \<and> ctx_status_code ctx' = ctx_status_code ctx
     \<and> header_pairs (ctx_response ctx') =
        [(''Server'', cstr (server_tok (he_conf env))), (''Date'', cstr (imf_fixdate (he_now env))),
         (''Content-Type'', get_mime_type path), (''Last-Modified'', cstr (imf_fixdate t)),
         (''Content-Length'', show_nat n), (''Connection'', ''keep-alive''), (''Content-Language'', ''en-CA'')]
     \<and> resp_body_data (ctx_response ctx') =
        (if ctx_method ctx = Some M_GET \<and> n > 0 \<and> fa_open (he_fs env path)
         then map_option Mapped (fa_map (he_fs env path)) else None)"
proof -
  let ?c = "file_headers env path n t ctx"
  have t: "time_ok t" using assms(1,5) by (auto simp: env_ok_def)
  note f = fresh_counted [OF assms(2)]
  have "handle_get_head env ctx = Inr (file_result env path ctx)"
    using f assms(1,4) by (intro handle_get_head_eq) simp_all
  then have h: "handle_static env ctx = Inr (file_result env path ctx)"
    using assms(3) by (auto simp: handle_static_def)
  have "cstr (int_to_string (to_int32 (int n))) = show_nat n"
    using assms(6) to_int32_id [of "int n"] int_to_string_plain [of "int n"] by (simp add: show_int_def)
  then have pairs: "header_pairs (ctx_response ?c) =
        [(''Server'', cstr (server_tok (he_conf env))), (''Date'', cstr (imf_fixdate (he_now env))),
         (''Content-Type'', get_mime_type path), (''Last-Modified'', cstr (imf_fixdate t)),
         (''Content-Length'', show_nat n), (''Connection'', ''keep-alive''), (''Content-Language'', ''en-CA'')]"
    using file_headers_pairs [OF assms(1,2) t] by simp
  have body: "resp_body_data (ctx_response ?c) = None"
    using assms(2) by (simp add: fresh_response_def zero_response_def)
  show ?thesis
  proof (cases "ctx_method ctx = Some M_GET \<and> n > 0")
    case True
    then have "file_result env path ctx = with_body (he_fs env path) ?c"
      using assms(5) by (simp add: file_result_def Let_def)
    moreover have "header_pairs (ctx_response (with_body (he_fs env path) ?c)) = header_pairs (ctx_response ?c)"
      by (rule header_pairs_body) simp_all
    moreover have "resp_body_data (ctx_response (with_body (he_fs env path) ?c)) =
        (if fa_open (he_fs env path) then map_option Mapped (fa_map (he_fs env path)) else None)"
      using body by (simp add: with_body_def resp_map_file_to_ctx_def Let_def split: option.split)
    ultimately show ?thesis using h pairs True by auto
  next
    case False
    then have "file_result env path ctx = ?c"
      using assms(5) by (auto simp: file_result_def Let_def)
    with h pairs body False show ?thesis by auto
  qed
qed

theorem get_file_response_witness:
  "\<exists>ctx'. handle_static example_env ((example_request ''GET'' ''/a.txt'')\<lparr>ctx_method := Some M_GET\<rparr>) = Inr ctx'
     \<and> resp_body_data (ctx_response ctx') = Some (Mapped ''hi'')"
proof -
  let ?ctx = "(example_request ''GET'' ''/a.txt'')\<lparr>ctx_method := Some M_GET\<rparr>"
  have u: "cstr (h1_uri (ctx_h1 ?ctx)) = ''/a.txt''" by (simp add: example_request_def cstr_id)
  have "resolve_path (doc_root (he_conf example_env)) (cstr (h1_uri (ctx_h1 ?ctx))) PATH_MAX = Inr ''/srv/a.txt''"
    unfolding u by (simp add: example_env_def resolve_path_def snprintf_buf_def PATH_MAX_def)
  moreover have "fresh_response ?ctx" by (simp add: fresh_response_def example_request_def zero_ctx_def)
  ultimately have "\<exists>ctx'. handle_static example_env ?ctx = Inr ctx' \<and> resp_body_data (ctx_response ctx')
      = (if ctx_method ?ctx = Some M_GET \<and> (2 :: nat) > 0 \<and> fa_open (he_fs example_env ''/srv/a.txt'')
         then map_option Mapped (fa_map (he_fs example_env ''/srv/a.txt'')) else None)"
    using get_file_response [OF example_env_ok, of ?ctx "''/srv/a.txt''" 2 0]
    by (fastforce simp: example_env_def)
  then show ?thesis by (simp add: example_env_def)
qed

lemma error_result_response:
  assumes "env_ok env" "fresh_response ctx" "- (2 ^ 31) \<le> ctx_status_code ctx" "ctx_status_code ctx < 2 ^ 31"
  shows "header_pairs (ctx_response (error_result env ctx)) =
        [(''Server'', cstr (server_tok (he_conf env))), (''Date'', cstr (imf_fixdate (he_now env))),
         (''Connection'', ''close''), (''Content-Type'', ''text/html'')]
        @ (if ctx_status_code ctx = 405 then [(''Allow'', ''GET, HEAD, OPTIONS'')] else [])
        @ [(''Content-Length'', show_nat (length (error_page (ctx_status_code ctx))))]"
    "resp_body_data (ctx_response (error_result env ctx)) = Some (Malloced (error_page (ctx_status_code ctx) @ [NUL]))"
    "resp_body_len (ctx_response (error_result env ctx)) = length (error_page (ctx_status_code ctx))"
    "resp_is_mmap (ctx_response (error_result env ctx)) = False"
proof -
  let ?w = "with_common env ctx"
  let ?page = "error_page (ctx_status_code ctx)"
  note f = fresh_counted [OF assms(2)]
  have len: "length ?page < 512" by (rule length_error_page [OF assms(3,4)])
  have "header_pairs (ctx_response (error_headers ?w)) = header_pairs (ctx_response ?w)
      @ [(''Connection'', ''close''), (''Content-Type'', ''text/html'')]
      @ (if ctx_status_code ctx = 405 then [(''Allow'', ''GET, HEAD, OPTIONS'')] else [])"
    by (simp add: error_headers_def header_pairs_append size_defs cstr_id Let_def)
  moreover have c: "counted (error_headers ?w)" by (simp add: error_headers_def Let_def)
  moreover have "counted ((error_headers ?w)\<lparr>ctx_response := (ctx_response (error_headers ?w))
      \<lparr>resp_body_data := d, resp_body_len := l\<rparr>\<rparr>)" for d l
    using c by (simp add: counted_def)
  moreover have "header_pairs ((ctx_response (error_headers ?w))\<lparr>resp_body_data := d, resp_body_len := l\<rparr>)
      = header_pairs (ctx_response (error_headers ?w))" for d l
    by (rule header_pairs_body) simp_all
  moreover have "int_to_string (int (length ?page)) = show_nat (length ?page)"
    using int_to_string_eq [of "int (length ?page)"] len by (simp add: show_int_def)
  moreover have "length (show_nat (length ?page)) \<le> 3" using len by (intro show_nat_length) simp_all
  ultimately show "header_pairs (ctx_response (error_result env ctx)) =
        [(''Server'', cstr (server_tok (he_conf env))), (''Date'', cstr (imf_fixdate (he_now env))),
         (''Connection'', ''close''), (''Content-Type'', ''text/html'')]
        @ (if ctx_status_code ctx = 405 then [(''Allow'', ''GET, HEAD, OPTIONS'')] else [])
        @ [(''Content-Length'', show_nat (length (error_page (ctx_status_code ctx))))]"
    using pairs_common [OF assms(1)] f
    by (simp add: error_result_def header_pairs_append size_defs cstr_id Let_def)
  show "resp_body_data (ctx_response (error_result env ctx)) = Some (Malloced (?page @ [NUL]))"
    "resp_body_len (ctx_response (error_result env ctx)) = length ?page"
    using len by (simp_all add: error_result_def snprintf_buf_whole Let_def)
  show "resp_is_mmap (ctx_response (error_result env ctx)) = False"
    using assms(2) by (simp add: error_result_def error_headers_def Let_def fresh_response_def zero_response_def)
qed

text \<open>
  An error response closes the connection, names its content type, lists the allowed
  methods exactly for 405, and its Content-Length is the length of the page for that status, which is
  attached whole.
\<close>

theorem error_response:
  assumes "env_ok env" "fresh_response ctx" "- (2 ^ 31) \<le> ctx_status_code ctx" "ctx_status_code ctx < 2 ^ 31"
  shows "\<exists>ctx'. handle_error env ctx = Inr ctx'
     \<and> header_pairs (ctx_response ctx') =
        [(''Server'', cstr (server_tok (he_conf env))), (''Date'', cstr (imf_fixdate (he_now env))),
         (''Connection'', ''close''), (''Content-Type'', ''text/html'')]
        @ (if ctx_status_code ctx = 405 then [(''Allow'', ''GET, HEAD, OPTIONS'')] else [])
        @ [(''Content-Length'', show_nat (length (error_page (ctx_status_code ctx))))]
     \<and> resp_body_data (ctx_response ctx') = Some (Malloced (error_page (ctx_status_code ctx) @ [NUL]))
     \<and> resp_body_len (ctx_response ctx') = length (error_page (ctx_status_code ctx))"
  using handle_error_eq [OF assms(1)] fresh_counted [OF assms(2)] error_result_response [OF assms] by simp

theorem error_response_witness:
  "\<exists>ctx'. handle_error example_env ((zero_ctx zero_conn 0)\<lparr>ctx_status_code := 405\<rparr>) = Inr ctx'
     \<and> (''Allow'', ''GET, HEAD, OPTIONS'') \<in> set (header_pairs (ctx_response ctx'))"
proof -
  let ?ctx = "(zero_ctx zero_conn 0)\<lparr>ctx_status_code := 405\<rparr>"
  have "fresh_response ?ctx" by (simp add: fresh_response_def zero_ctx_def)
  then obtain ctx' where "handle_error example_env ?ctx = Inr ctx'"
    "header_pairs (ctx_response ctx') =
        [(''Server'', cstr (server_tok (he_conf example_env))), (''Date'', cstr (imf_fixdate (he_now example_env))),
         (''Connection'', ''close''), (''Content-Type'', ''text/html'')]
        @ (if ctx_status_code ?ctx = 405 then [(''Allow'', ''GET, HEAD, OPTIONS'')] else [])
        @ [(''Content-Length'', show_nat (length (error_page (ctx_status_code ?ctx))))]"
    using error_response [OF example_env_ok, of ?ctx] by auto
  then show ?thesis by simp
qed

end
