(* ===== verification/HttpCommon.thy ===== *)
theory HttpCommon
  imports Http1 HandlerStatic
begin

text \<open>
  The stages of a request between the transport and the handlers (\<open>src/http_common.c\<close>): reading and
  parsing with the status each failure gets, the choice and the call of the handler, sending the
  response, and the keep-alive decision.  The byte transport is in theory \<open>ConnIO\<close>, the status texts
  are in theory \<open>Response\<close>.
\<close>

subsection \<open>Ingress\<close>

definition UPGRADE_REQUIRED :: int where "UPGRADE_REQUIRED = 1"

text \<open>The switch on a failed read: the status left in the context, if any.\<close>

definition reader_status :: "int \<Rightarrow> http_status_code_t option" where
  "reader_status k =
     (if k = -3 then Some SC_431_REQUEST_HEADER_FIELDS_TOO_LARGE
      else if k = -2 \<or> k = -4 then None
      else if k = -1 then Some SC_500_INTERNAL_SERVER_ERROR
      else Some SC_400_BAD_REQUEST)"

definition set_code :: "http_status_code_t option \<Rightarrow> request_ctx_t \<Rightarrow> request_ctx_t" where
  "set_code sc ctx = (case sc of None \<Rightarrow> ctx | Some s \<Rightarrow> ctx\<lparr>ctx_status_code := sc_code s\<rparr>)"

definition process_ingress ::
  "request_ctx_t \<Rightarrow> read_event list \<Rightarrow> (int, request_ctx_t \<times> read_event list) outcome result" where
  "process_ingress ctx evs =
     bindR (read_http_headers ctx evs) (\<lambda>r.
       (case r of
          Blocks \<Rightarrow> Inr Blocks
        | Returns status (ctx1, evs1) \<Rightarrow>
            if status \<noteq> 0 then Inr (Returns (-1) (set_code (reader_status status) ctx1, evs1))
            else if conn_protocol (ctx_conn ctx1) = PROTO_HTTP2
            then Inr (Returns (-1) (set_code (Some SC_505_HTTP_VERSION_NOT_SUPPORTED) ctx1, evs1))
            else bindR (parse_http1 ctx1 (take (ctx_header_bytes_read ctx1) (ctx_header_buffer ctx1)))
              (\<lambda>(p_status, ctx2).
                if p_status = UPGRADE_REQUIRED
                then Inr (Returns (-1) (set_code (Some SC_101_SWITCHING_PROTOCOLS) ctx2, evs1))
                else if p_status \<noteq> 0
                then Inr (Returns (-1) (set_code (Some SC_400_BAD_REQUEST) ctx2, evs1))
                else Inr (Returns 0 (ctx2, evs1)))))"

subsection \<open>Routing\<close>

definition route_request :: "request_ctx_t \<Rightarrow> request_ctx_t" where
  "route_request ctx =
     ctx\<lparr>ctx_handler := Some (if ctx_status_code ctx \<ge> 400 then handle_error_ptr else handle_static_ptr)\<rparr>"

text \<open>The call through the function pointer, \<open>ctx->handler(ctx)\<close>.\<close>

definition call_handler :: "handler_env \<Rightarrow> request_ctx_t \<Rightarrow> request_ctx_t result" where
  "call_handler env ctx =
     (case ctx_handler ctx of
        None \<Rightarrow> Inl NullDeref
      | Some handle_error_ptr \<Rightarrow> handle_error env ctx
      | Some handle_static_ptr \<Rightarrow> handle_static env ctx)"

subsection \<open>Sending the response\<close>

text \<open>
  The two writes, each answered by one event of the transport; the second component of the result is
  the bytes that went out.  The body test compares with \<open>header_len\<close>, as the source does.  The
  text that \<open>strerror\<close> appends to the error messages is left out.
\<close>

definition send_body :: "request_ctx_t \<Rightarrow> nat \<Rightarrow> mem \<Rightarrow> write_event \<Rightarrow> int \<times> string \<times> request_ctx_t" where
  "send_body ctx header_len body w =
     (let (res, out, err) = conn_write (ctx_conn ctx) (mem_bytes body) (resp_body_len (ctx_response ctx)) w
      in if res < 0 then (-1, [], emit L_ERROR ''write() to socket failed: '' ctx)
         else (0, out,
               if res < to_int32 (int header_len)
               then emit L_WARN ''write() body to socket was truncated!'' ctx else ctx))"

definition send_response ::
  "request_ctx_t \<Rightarrow> write_event \<Rightarrow> write_event \<Rightarrow> (int \<times> string \<times> request_ctx_t) result" where
  "send_response ctx w1 w2 =
     bindR (resp_build_response ctx (resp_header_buffer (ctx_response ctx)) 8192) (\<lambda>(header_len, b).
       let ctx1 = ctx\<lparr>ctx_response := (ctx_response ctx)\<lparr>resp_header_buffer := b\<rparr>\<rparr>;
           (res, out1, err) = conn_write (ctx_conn ctx1) b header_len w1
       in if res < 0 then Inr (-1, [], emit L_ERROR ''write() to socket failed: '' ctx1)
          else
            let ctx2 = (if res < to_int32 (int header_len)
                        then emit L_WARN ''write() headers to socket was truncated!'' ctx1 else ctx1)
            in (case resp_body_data (ctx_response ctx2) of
                  Some body \<Rightarrow>
                    if ctx_method ctx2 = Some M_GET \<and> resp_body_len (ctx_response ctx2) > 0
                    then (let (es, out2, ctx3) = send_body ctx2 header_len body w2
                          in Inr (es, out1 @ out2, ctx3))
                    else Inr (0, out1, ctx2)
                | None \<Rightarrow> Inr (0, out1, ctx2)))"

subsection \<open>Keeping the connection\<close>

definition should_keep_alive :: "request_ctx_t \<Rightarrow> bool" where
  "should_keep_alive ctx =
     (if confirm_header_exists ctx ''Connection''
         \<and> (case get_header_value ctx ''Connection'' of Some v \<Rightarrow> strcmp_eq ''close'' v | None \<Rightarrow> False)
      then False
      else if list_ex (\<lambda>kv. strcasecmp_eq (kv_key kv) ''Connection'' \<and> strcasecmp_eq (kv_value kv) ''close'')
                (sent_headers (ctx_response ctx))
      then False
      else conn_protocol (ctx_conn ctx) = PROTO_HTTP11)"

subsection \<open>Ingress: the status codes\<close>

lemma parse_http1_bounded:
  assumes "ctx_h1 ctx = zero_h1"
  shows "\<exists>r ctx'. parse_http1 ctx buf = Inr (r, ctx') \<and> r \<in> {0, 1} \<and> h1_fits (ctx_h1 ctx')
     \<and> ctx_response ctx' = ctx_response ctx \<and> ctx_status_code ctx' = ctx_status_code ctx
     \<and> (\<exists>p \<in> {conn_protocol (ctx_conn ctx), PROTO_HTTP10}. ctx_conn ctx' = (ctx_conn ctx)\<lparr>conn_protocol := p\<rparr>)"
proof -
  have "parser_inv (parser_start zero_h1)"
    by (simp add: parser_inv_def parser_start_def pointer_ok_def h1_fits_def zero_h1_def size_defs)
  from parse_loop_inv [OF this, of buf]
  obtain s where "parse_loop (parser_start zero_h1) buf = Inr s" "parser_inv s" by blast
  then show ?thesis
    by (auto simp: parse_http1_def assms Let_def parser_inv_def)
qed

lemma reader_leaves:
  assumes "only_reader_fields ctx ctx'"
  shows "ctx_h1 ctx' = ctx_h1 ctx" "ctx_response ctx' = ctx_response ctx"
    "ctx_status_code ctx' = ctx_status_code ctx" "ctx_conn ctx' = ctx_conn ctx"
    "ctx_method ctx' = ctx_method ctx" "ctx_log ctx' = ctx_log ctx"
  using assms by (cases ctx; cases ctx'; simp add: only_reader_fields_def)+

lemma set_code_simps [simp]:
  "ctx_response (set_code sc ctx) = ctx_response ctx" "ctx_h1 (set_code sc ctx) = ctx_h1 ctx"
  "ctx_conn (set_code sc ctx) = ctx_conn ctx" "ctx_log (set_code sc ctx) = ctx_log ctx"
  "ctx_status_code (set_code sc ctx) = (case sc of None \<Rightarrow> ctx_status_code ctx | Some s \<Rightarrow> sc_code s)"
  by (simp_all add: set_code_def split: option.split)

definition ingress_ok :: "conn_t \<Rightarrow> (int, request_ctx_t \<times> read_event list) outcome result \<Rightarrow> bool" where
  "ingress_ok c r \<longleftrightarrow>
     (case r of
        Inl f \<Rightarrow> False
      | Inr Blocks \<Rightarrow> True
      | Inr (Returns k (ctx', rest)) \<Rightarrow>
          ctx_response ctx' = zero_response \<and> h1_fits (ctx_h1 ctx')
          \<and> (\<exists>p \<in> {conn_protocol c, PROTO_HTTP10}. ctx_conn ctx' = c\<lparr>conn_protocol := p\<rparr>)
          \<and> (k = 0 \<and> ctx_status_code ctx' = 0
             \<or> k = -1 \<and> ctx_status_code ctx' \<in> {0, 101, 431, 500, 505}))"

lemma zero_h1_fits: "h1_fits zero_h1"
  by (simp add: h1_fits_def zero_h1_def)

lemma process_ingress_any:
  assumes "\<forall>r err e p. Ret r err e p \<in> set evs \<longrightarrow> r \<le> 0"
  shows "ingress_ok c (process_ingress (zero_ctx c t) evs)"
proof -
  let ?ctx = "zero_ctx c t"
  have ok: "reader_ok ?ctx (read_http_headers ?ctx evs)"
    by (rule reader_any [OF assms partial_head_zero])
  show ?thesis
  proof (cases "read_http_headers ?ctx evs")
    case (Inl f)
    with ok show ?thesis by (simp add: reader_ok_def)
  next
    case (Inr outc)
    show ?thesis
    proof (cases outc)
      case Blocks
      with Inr show ?thesis by (simp add: process_ingress_def ingress_ok_def)
    next
      case (Returns k s)
      obtain ctx1 evs1 where s: "s = (ctx1, evs1)" by (cases s)
      have k: "k \<in> {0, -1, -2, -3, -4}" "only_reader_fields ?ctx ctx1"
        using ok Inr Returns s by (simp_all add: reader_ok_def)
      have z: "ctx_h1 ctx1 = zero_h1" "ctx_response ctx1 = zero_response" "ctx_status_code ctx1 = 0"
          "ctx_conn ctx1 = c" "c\<lparr>conn_protocol := conn_protocol c\<rparr> = c"
        using reader_leaves [OF k(2)] by (simp_all add: zero_ctx_def)
      obtain r ctx2 where p: "parse_http1 ctx1 (take (ctx_header_bytes_read ctx1) (ctx_header_buffer ctx1)) = Inr (r, ctx2)"
          "r \<in> {0, 1}" "h1_fits (ctx_h1 ctx2)" "ctx_response ctx2 = zero_response" "ctx_status_code ctx2 = 0"
          "\<exists>p \<in> {conn_protocol c, PROTO_HTTP10}. ctx_conn ctx2 = c\<lparr>conn_protocol := p\<rparr>"
        using parse_http1_bounded [OF z(1)] z by metis
      show ?thesis
        using k(1) p(2-6) z
        by (auto simp: process_ingress_def Inr Returns s p(1) ingress_ok_def reader_status_def zero_h1_fits
            UPGRADE_REQUIRED_def)
    qed
  qed
qed

text \<open>
  Whatever the transport answers, \<open>process_ingress\<close> meets no fault; it returns 0 with no
  status set, or -1 with 431 (no blank line in the buffer), 500 (read error), 505 (HTTP/2), 101 (an
  h2c upgrade) or no status (the connection is dropped silently); of the connection it changes at most
  the protocol, to HTTP/1.0.  The parser rejects no head, so the
  400 its caller provides for is never set here.
\<close>

theorem process_ingress_statuses:
  assumes "\<forall>r err e p. Ret r err e p \<in> set evs \<longrightarrow> r \<le> 0"
  shows "ingress_ok c (process_ingress (zero_ctx c t) evs)"
  by (rule process_ingress_any [OF assms])

theorem process_ingress_statuses_witness:
  "ingress_ok zero_conn (process_ingress (zero_ctx zero_conn 0)
     [Got ''GET'', Ret (-1) SSL_ERROR_NONE EINTR 0, Ret 0 SSL_ERROR_NONE E_OK 0])"
  by (rule process_ingress_statuses) simp

subsection \<open>What the routed handler leaves\<close>

lemma route_simps [simp]:
  "ctx_conn (route_request ctx) = ctx_conn ctx" "ctx_h1 (route_request ctx) = ctx_h1 ctx"
  "ctx_response (route_request ctx) = ctx_response ctx"
  "ctx_status_code (route_request ctx) = ctx_status_code ctx"
  "ctx_method (route_request ctx) = ctx_method ctx" "ctx_log (route_request ctx) = ctx_log ctx"
  by (simp_all add: route_request_def)

definition status32 :: "request_ctx_t \<Rightarrow> bool" where
  "status32 ctx \<longleftrightarrow> - (2 ^ 31) \<le> ctx_status_code ctx \<and> ctx_status_code ctx < 2 ^ 31"

text \<open>A response whose headers say \<open>Connection: close\<close>.\<close>

definition says_close :: "response_t \<Rightarrow> bool" where
  "says_close r \<longleftrightarrow> list_ex (\<lambda>(k, v). strcasecmp_eq k ''Connection'' \<and> strcasecmp_eq v ''close'') (header_pairs r)"

lemma says_close_sent:
  "list_ex (\<lambda>kv. strcasecmp_eq (kv_key kv) ''Connection'' \<and> strcasecmp_eq (kv_value kv) ''close'') (sent_headers r)
     = says_close r"
  by (simp add: says_close_def header_pairs_def list_ex_iff strcasecmp_eq_def cstr_id)

lemma connection_names:
  "\<not> strcasecmp_eq ''Server'' ''Connection''" "\<not> strcasecmp_eq ''Date'' ''Connection''"
  "\<not> strcasecmp_eq ''Content-Type'' ''Connection''" "\<not> strcasecmp_eq ''Last-Modified'' ''Connection''"
  "\<not> strcasecmp_eq ''Content-Length'' ''Connection''" "\<not> strcasecmp_eq ''Content-Language'' ''Connection''"
  "\<not> strcasecmp_eq ''Accept-Ranges'' ''Connection''" "\<not> strcasecmp_eq ''Allow'' ''Connection''"
  "\<not> strcasecmp_eq ''keep-alive'' ''close''"
  by code_simp+

lemma keeps_conn [simp]:
  "ctx_conn (error_result env ctx) = ctx_conn ctx" "ctx_h1 (error_result env ctx) = ctx_h1 ctx"
  "ctx_method (error_result env ctx) = ctx_method ctx"
  "ctx_status_code (error_result env ctx) = ctx_status_code ctx"
  "ctx_conn (options_result env ctx) = ctx_conn ctx" "ctx_h1 (options_result env ctx) = ctx_h1 ctx"
  "ctx_method (options_result env ctx) = ctx_method ctx"
  "ctx_status_code (options_result env ctx) = ctx_status_code ctx"
  "ctx_conn (resp_set_status ctx n) = ctx_conn ctx" "ctx_h1 (resp_set_status ctx n) = ctx_h1 ctx"
  "ctx_method (resp_set_status ctx n) = ctx_method ctx"
  "ctx_response (resp_set_status ctx n) = ctx_response ctx"
  "ctx_status_code (resp_set_status ctx n) = n"
  by (simp_all add: error_result_def error_headers_def options_result_def resp_set_status_def Let_def)

text \<open>The body of a response and the memory it occupies.\<close>

definition body_ok :: "response_t \<Rightarrow> bool" where
  "body_ok r \<longleftrightarrow>
     (case resp_body_data r of
        None \<Rightarrow> True
      | Some (Malloced b) \<Rightarrow> \<not> resp_is_mmap r \<and> resp_body_len r \<le> length b
      | Some (Mapped b) \<Rightarrow> resp_is_mmap r \<and> resp_body_len r = length b)"

text \<open>\<open>mmap\<close> of \<open>st_size\<close> bytes maps that many.\<close>

definition maps_whole :: "handler_env \<Rightarrow> bool" where
  "maps_whole env \<longleftrightarrow>
     (\<forall>p n t b. fa_stat (he_fs env p) = Some (n, t) \<longrightarrow> fa_map (he_fs env p) = Some b \<longrightarrow> length b = n)"

definition handled :: "handler_env \<Rightarrow> request_ctx_t \<Rightarrow> request_ctx_t \<Rightarrow> bool" where
  "handled env ctx ctx' \<longleftrightarrow>
     small_headers 20 ctx' \<and> ctx_conn ctx' = ctx_conn ctx \<and> ctx_h1 ctx' = ctx_h1 ctx
     \<and> ctx_method ctx' = ctx_method ctx \<and> status32 ctx'
     \<and> says_close (ctx_response ctx') = (ctx_status_code ctx' \<ge> 400)
     \<and> (maps_whole env \<longrightarrow> body_ok (ctx_response ctx'))"

lemma small_mono: "small_headers n ctx \<Longrightarrow> n \<le> m \<Longrightarrow> small_headers m ctx"
  by (simp add: small_headers_def)

lemma error_handled:
  assumes "env_ok env" "fresh_response ctx" "status32 ctx" "ctx_status_code ctx \<ge> 400"
  shows "handled env ctx (error_result env ctx)"
proof -
  have st: "- (2 ^ 31) \<le> ctx_status_code ctx" "ctx_status_code ctx < 2 ^ 31"
    using assms(3) by (simp_all add: status32_def)
  note r = error_result_response [OF assms(1,2) st]
  have "small_headers 6 (error_result env ctx)"
    using small_error_result [OF assms(1)] fresh_counted [OF assms(2)] by force
  then have "small_headers 20 (error_result env ctx)" by (rule small_mono) simp
  moreover have "says_close (ctx_response (error_result env ctx))"
    by (simp add: says_close_def r(1))
  ultimately show ?thesis
    using assms(3,4) r by (simp add: handled_def status32_def body_ok_def)
qed

lemma options_handled:
  assumes "env_ok env" "fresh_response ctx" "status32 ctx" "ctx_status_code ctx < 400"
  shows "handled env ctx (options_result env ctx)"
proof -
  have "small_headers 10 (options_result env ctx)"
    using small_options_result [OF assms(1)] fresh_counted [OF assms(2)] by force
  then have "small_headers 20 (options_result env ctx)" by (rule small_mono) simp
  moreover have "\<not> says_close (ctx_response (options_result env ctx))"
    by (simp add: says_close_def options_pairs [OF assms(1,2)] connection_names)
  moreover have "resp_body_data (ctx_response (options_result env ctx)) = None"
    using assms(2) by (simp add: options_result_def fresh_response_def zero_response_def)
  ultimately show ?thesis
    using assms(3,4) by (simp add: handled_def status32_def body_ok_def)
qed

lemma bare_handled:
  assumes "fresh_response ctx" "status32 ctx" "ctx_status_code ctx < 400"
    "ctx_conn ctx' = ctx_conn ctx" "ctx_h1 ctx' = ctx_h1 ctx" "ctx_method ctx' = ctx_method ctx"
    "ctx_status_code ctx' = ctx_status_code ctx" "ctx_response ctx' = ctx_response ctx"
  shows "handled env ctx ctx'"
  using assms fresh_counted [of ctx']
  by (auto simp: handled_def status32_def says_close_def body_ok_def fresh_response_def zero_response_def
      intro: small_mono)

lemma file_handled:
  assumes "env_ok env" "fresh_response ctx" "status32 ctx" "ctx_status_code ctx < 400"
  shows "handled env ctx (file_result env path ctx)"
proof (cases "fa_stat (he_fs env path)")
  case None
  have "fresh_response (resp_set_status ctx 404)" "status32 (resp_set_status ctx 404)"
    using assms(2) by (simp_all add: fresh_response_def status32_def)
  then have "handled env (resp_set_status ctx 404) (error_result env (resp_set_status ctx 404))"
    by (intro error_handled assms(1)) simp_all
  then show ?thesis by (simp add: file_result_def None handled_def)
next
  case (Some nt)
  obtain n t where nt: "fa_stat (he_fs env path) = Some (n, t)" using Some by (cases nt) auto
  let ?c = "file_headers env path n t ctx"
  have t: "time_ok t" using assms(1) nt by (auto simp: env_ok_def)
  have "small_headers 10 ?c"
    using small_file_headers [OF assms(1) _ t] fresh_counted [OF assms(2)] by force
  then have sm: "small_headers 20 ?c" by (rule small_mono) simp
  have cl: "\<not> says_close (ctx_response ?c)"
    by (simp add: says_close_def file_headers_pairs [OF assms(1,2) t] connection_names)
  have b: "resp_body_data (ctx_response ?c) = None"
    using assms(2) by (simp add: fresh_response_def zero_response_def)
  show ?thesis
  proof (cases "ctx_method ctx = Some M_GET \<and> n > 0")
    case False
    then have "file_result env path ctx = ?c" using nt by (auto simp: file_result_def Let_def)
    then show ?thesis
      using sm cl b assms(3,4) by (simp add: handled_def status32_def body_ok_def)
  next
    case True
    let ?w = "with_body (he_fs env path) ?c"
    have "small_headers 20 ?w" using sm by (simp add: small_headers_def counted_def)
    moreover have "header_pairs (ctx_response ?w) = header_pairs (ctx_response ?c)"
      by (rule header_pairs_body) simp_all
    moreover have "body_ok (ctx_response ?w)" if "maps_whole env"
      using that nt b
      by (auto simp: body_ok_def with_body_def resp_map_file_to_ctx_def Let_def maps_whole_def split: option.split)
    ultimately show ?thesis
      using True nt cl assms(3,4)
      by (simp add: file_result_def handled_def status32_def says_close_def Let_def)
  qed
qed

lemma routed_handled:
  assumes "env_ok env" "fresh_response ctx" "status32 ctx"
  shows "\<exists>ctx'. call_handler env (route_request ctx) = Inr ctx' \<and> handled env ctx ctx'"
proof -
  let ?r = "route_request ctx"
  note f = fresh_counted [OF assms(2)]
  have fr: "fresh_response ?r" "status32 ?r" using assms(2,3) by (simp_all add: fresh_response_def status32_def)
  have c: "counted ?r" "length (resp_headers (ctx_response ?r)) < 50" using fresh_counted [OF fr(1)] f by simp_all
  have same: "handled env ?r = handled env ctx" by (rule ext) (simp add: handled_def)
  show ?thesis
  proof (cases "ctx_status_code ctx \<ge> 400")
    case True
    then have "call_handler env ?r = Inr (error_result env ?r)"
      using handle_error_eq [OF assms(1) c] by (simp add: call_handler_def) (simp add: route_request_def)
    moreover have "handled env ?r (error_result env ?r)"
      using True by (intro error_handled assms(1) fr) simp
    ultimately show ?thesis by (simp add: same)
  next
    case False
    then have lt: "ctx_status_code ?r < 400" by simp
    have "doc_root (he_conf env) \<noteq> []" "1 < PATH_MAX"
      using assms(1) by (simp_all add: env_ok_def PATH_MAX_def)
    then obtain p where p: "resolve_path (doc_root (he_conf env)) (cstr (h1_uri (ctx_h1 ?r))) PATH_MAX = Inr p"
      using resolve_path_defined by metis
    have call: "call_handler env ?r = handle_static env ?r"
      using False by (simp add: call_handler_def route_request_def)
    have "\<exists>ctx'. handle_static env ?r = Inr ctx' \<and> handled env ?r ctx'"
      using file_handled [OF assms(1) fr lt, of p] handle_get_head_eq [OF assms(1) c p]
        options_handled [OF assms(1) fr lt] handle_options_eq [OF assms(1) c]
        bare_handled [OF fr lt, of "handle_put ?r" env] bare_handled [OF fr lt, of ?r env]
      by (auto simp: handle_static_def handle_put_def split: option.split http_method_t.split)
    then show ?thesis by (simp add: call same)
  qed
qed

subsection \<open>Properties of the response path\<close>

lemma handled_small: "handled env ctx ctx' \<Longrightarrow> small_headers 64 ctx' \<and> status32 ctx'"
  by (auto simp: handled_def intro: small_mono)

lemma handled_fits:
  assumes "handled env ctx ctx'"
  shows "\<exists>b. resp_build_response ctx' buf 8192 = Inr (length (response_text ctx'), b)
     \<and> take (length (response_text ctx')) b = response_text ctx'"
    "length (response_text ctx') < HEADER_BUFFER_SIZE"
proof -
  have s: "small_headers 64 ctx'" "- (2 ^ 31) \<le> ctx_status_code ctx'" "ctx_status_code ctx' < 2 ^ 31"
    using handled_small [OF assms] by (auto simp: status32_def)
  show "length (response_text ctx') < HEADER_BUFFER_SIZE" by (rule small_headers_fit [OF s])
  then show "\<exists>b. resp_build_response ctx' buf 8192 = Inr (length (response_text ctx'), b)
     \<and> take (length (response_text ctx')) b = response_text ctx'"
    using small_headers_fit(2) [OF s] by (intro resp_build_fits)
qed

text \<open>
  C32. Whatever the request, the handler chosen for a context with an empty response
  returns without a fault - in particular never more than 64 headers - and the header block built
  from what it leaves fits the 8192-byte buffer with its NUL and is written whole.
\<close>

theorem handler_response_fits:
  assumes "env_ok env" "fresh_response ctx" "status32 ctx"
  shows "\<exists>ctx' b. call_handler env (route_request ctx) = Inr ctx'
     \<and> resp_build_response ctx' buf 8192 = Inr (length (response_text ctx'), b)
     \<and> take (length (response_text ctx')) b = response_text ctx'
     \<and> length (response_text ctx') < HEADER_BUFFER_SIZE"
  using routed_handled [OF assms] handled_fits by blast

lemma example_fresh: "fresh_response (example_request m u)" "status32 (example_request m u)"
  by (simp_all add: fresh_response_def status32_def example_request_def zero_ctx_def)

theorem handler_response_fits_witness:
  "\<exists>ctx' b. call_handler example_env (route_request (example_request ''GET'' ''/a.txt'')) = Inr ctx'
     \<and> resp_build_response ctx' [] 8192 = Inr (length (response_text ctx'), b)"
  using handler_response_fits [OF example_env_ok example_fresh, of "''GET''" "''/a.txt''" "[]"] by blast

text \<open>The client's wish to close, as the code reads it.\<close>

definition client_closes :: "request_ctx_t \<Rightarrow> bool" where
  "client_closes ctx \<longleftrightarrow> (\<exists>v. get_header_value ctx ''Connection'' = Some v \<and> cstr v = ''close'')"

lemma should_keep_alive_iff:
  "should_keep_alive ctx \<longleftrightarrow>
     conn_protocol (ctx_conn ctx) = PROTO_HTTP11 \<and> \<not> client_closes ctx \<and> \<not> says_close (ctx_response ctx)"
proof -
  have "client_closes ctx \<longleftrightarrow> confirm_header_exists ctx ''Connection''
         \<and> (case get_header_value ctx ''Connection'' of Some v \<Rightarrow> strcmp_eq ''close'' v | None \<Rightarrow> False)"
    by (auto simp: client_closes_def confirm_header_exists_def get_header_value_def strcmp_literal
        split: option.split)
  then show ?thesis by (simp add: should_keep_alive_def says_close_sent)
qed

text \<open>
  After the routed handler the connection is kept exactly when it speaks HTTP/1.1, the
  first \<open>Connection\<close> header of the request is not the very text \<open>close\<close>, and the response is not an
  error (a 404 for a missing file included).
\<close>

theorem keep_alive_spec:
  assumes "env_ok env" "fresh_response ctx" "status32 ctx"
  shows "\<exists>ctx'. call_handler env (route_request ctx) = Inr ctx'
     \<and> (should_keep_alive ctx' \<longleftrightarrow> conn_protocol (ctx_conn ctx) = PROTO_HTTP11
          \<and> \<not> client_closes ctx \<and> ctx_status_code ctx' < 400)"
proof -
  obtain ctx' where c: "call_handler env (route_request ctx) = Inr ctx'" "handled env ctx ctx'"
    using routed_handled [OF assms] by blast
  then have "client_closes ctx' = client_closes ctx"
    by (simp add: client_closes_def get_header_value_def handled_def)
  with c show ?thesis by (auto simp: should_keep_alive_iff handled_def)
qed

theorem keep_alive_spec_witness:
  "\<exists>ctx'. call_handler example_env (route_request ((example_request ''GET'' ''/a.txt'')\<lparr>ctx_status_code := 404\<rparr>)) = Inr ctx'
     \<and> \<not> should_keep_alive ctx'"
proof -
  let ?ctx = "(example_request ''GET'' ''/a.txt'')\<lparr>ctx_status_code := 404\<rparr>"
  have "fresh_response ?ctx" "status32 ?ctx"
    by (simp_all add: fresh_response_def status32_def example_request_def zero_ctx_def)
  moreover have "conn_protocol (ctx_conn ?ctx) = PROTO_HTTP10"
    by (simp add: example_request_def zero_ctx_def)
  ultimately show ?thesis using keep_alive_spec [OF example_env_ok, of ?ctx] by auto
qed

text \<open>
  When \<open>mmap\<close> maps the size that \<open>stat\<close> reported, the memory of the response body the
  routed handler leaves is released once, with the call that fits it: \<open>munmap\<close> of its whole length
  for a mapping, \<open>free\<close> for a heap block, nothing when there is no body.
\<close>

theorem body_released_once:
  assumes "env_ok env" "fresh_response ctx" "status32 ctx" "maps_whole env"
  shows "\<exists>ctx'. call_handler env (route_request ctx) = Inr ctx'
     \<and> cleanup_request_resources ctx' =
        (case resp_body_data (ctx_response ctx') of
           None \<Rightarrow> []
         | Some (Mapped b) \<Rightarrow> [Munmap (Mapped b) (length b)]
         | Some (Malloced b) \<Rightarrow> [Free (Malloced b)])"
proof -
  obtain ctx' where c: "call_handler env (route_request ctx) = Inr ctx'" "handled env ctx ctx'"
    using routed_handled [OF assms(1-3)] by blast
  then have "body_ok (ctx_response ctx')" using assms(4) by (simp add: handled_def)
  then have "cleanup_request_resources ctx' =
        (case resp_body_data (ctx_response ctx') of
           None \<Rightarrow> []
         | Some (Mapped b) \<Rightarrow> [Munmap (Mapped b) (length b)]
         | Some (Malloced b) \<Rightarrow> [Free (Malloced b)])"
    by (auto simp: body_ok_def cleanup_request_resources_def split: option.splits mem.splits)
  with c(1) show ?thesis by blast
qed

lemma example_maps: "maps_whole example_env"
  by (simp add: maps_whole_def example_env_def)

theorem body_released_once_witness:
  "\<exists>ctx'. call_handler example_env (route_request (example_request ''GET'' ''/a.txt'')) = Inr ctx'
     \<and> length (cleanup_request_resources ctx') \<le> 1"
proof -
  obtain ctx' where "call_handler example_env (route_request (example_request ''GET'' ''/a.txt'')) = Inr ctx'"
    "cleanup_request_resources ctx' =
        (case resp_body_data (ctx_response ctx') of
           None \<Rightarrow> []
         | Some (Mapped b) \<Rightarrow> [Munmap (Mapped b) (length b)]
         | Some (Malloced b) \<Rightarrow> [Free (Malloced b)])"
    using body_released_once [OF example_env_ok example_fresh example_maps] by blast
  then show ?thesis by (auto split: option.splits mem.splits)
qed

subsection \<open>What is sent\<close>

fun refused :: "write_event \<Rightarrow> bool" where
  "refused (Took n) = False"
| "refused (Refused r err e) = True"

fun room :: "write_event \<Rightarrow> nat" where
  "room (Took n) = n"
| "room (Refused r err e) = 0"

text \<open>A failing \<open>write\<close> returns a negative number.\<close>

fun write_doc :: "write_event \<Rightarrow> bool" where
  "write_doc (Took n) = True"
| "write_doc (Refused r err e) = (r < 0)"

definition sent_body :: "request_ctx_t \<Rightarrow> string" where
  "sent_body ctx =
     (case resp_body_data (ctx_response ctx) of
        Some m \<Rightarrow> if ctx_method ctx = Some M_GET then take (resp_body_len (ctx_response ctx)) (mem_bytes m) else []
      | None \<Rightarrow> [])"

lemma conn_write_took:
  assumes "0 < cnt" "cnt < 2 ^ 31" "cnt \<le> length buf"
  shows "conn_write c buf cnt (Took n) = (int (min n cnt), take n (take cnt buf), E_OK)"
  using assms write_count_small [of cnt c] by (simp add: conn_write_def min.commute [of n] Let_def)

lemma conn_write_refused:
  "r < 0 \<Longrightarrow> \<exists>k e'. conn_write c buf cnt (Refused r err e) = (k, [], e') \<and> k < 0"
  by (cases err) (auto simp: conn_write_def)

lemma send_body_spec:
  assumes "0 < resp_body_len (ctx_response ctx)" "resp_body_len (ctx_response ctx) < 2 ^ 31"
    "resp_body_len (ctx_response ctx) \<le> length (mem_bytes m)" "write_doc w"
  shows "\<exists>l. send_body ctx h m w =
     (if refused w then -1 else 0, take (room w) (take (resp_body_len (ctx_response ctx)) (mem_bytes m)),
      ctx\<lparr>ctx_log := l\<rparr>)"
proof (cases w)
  case (Took n)
  then show ?thesis
    by (auto simp: send_body_def conn_write_took [OF assms(1-3)] emit_def Let_def)
      (metis request_ctx_t.surjective request_ctx_t.update_convs(2))
next
  case (Refused r err e)
  then obtain k e' where "conn_write (ctx_conn ctx) (mem_bytes m) (resp_body_len (ctx_response ctx)) w = (k, [], e')" "k < 0"
    using conn_write_refused assms(4) by fastforce
  then show ?thesis using Refused by (auto simp: send_body_def emit_def Let_def)
qed

definition logged_response :: "request_ctx_t \<Rightarrow> string \<Rightarrow> (log_level_t \<times> string) list \<Rightarrow> request_ctx_t" where
  "logged_response ctx b l =
     ctx\<lparr>ctx_response := (ctx_response ctx)\<lparr>resp_header_buffer := b\<rparr>, ctx_log := l\<rparr>"

lemma logged_response_simps [simp]:
  "ctx_conn (logged_response ctx b l) = ctx_conn ctx" "ctx_h1 (logged_response ctx b l) = ctx_h1 ctx"
  "ctx_method (logged_response ctx b l) = ctx_method ctx"
  "ctx_status_code (logged_response ctx b l) = ctx_status_code ctx"
  "resp_body_data (ctx_response (logged_response ctx b l)) = resp_body_data (ctx_response ctx)"
  "resp_body_len (ctx_response (logged_response ctx b l)) = resp_body_len (ctx_response ctx)"
  "resp_is_mmap (ctx_response (logged_response ctx b l)) = resp_is_mmap (ctx_response ctx)"
  "header_pairs (ctx_response (logged_response ctx b l)) = header_pairs (ctx_response ctx)"
  by (simp_all add: logged_response_def header_pairs_def sent_headers_def)

lemma emit_logged [simp]: "emit lv m (logged_response ctx b l) = logged_response ctx b (l @ [(lv, m)])"
  by (simp add: emit_def logged_response_def)

lemma ctx_log_logged [simp]: "(logged_response ctx b l)\<lparr>ctx_log := l'\<rparr> = logged_response ctx b l'"
  by (simp add: logged_response_def)

lemma logged_start: "ctx\<lparr>ctx_response := (ctx_response ctx)\<lparr>resp_header_buffer := b\<rparr>\<rparr> = logged_response ctx b (ctx_log ctx)"
  by (simp add: logged_response_def)

text \<open>What follows the first write.\<close>

definition after_headers :: "request_ctx_t \<Rightarrow> nat \<Rightarrow> string \<Rightarrow> int \<Rightarrow> request_ctx_t" where
  "after_headers ctx header_len b res =
     logged_response ctx b (if res < to_int32 (int header_len)
        then ctx_log ctx @ [(L_WARN, ''write() headers to socket was truncated!'')] else ctx_log ctx)"

lemma send_response_step:
  assumes "resp_build_response ctx (resp_header_buffer (ctx_response ctx)) 8192 = Inr (h, b)"
    "conn_write (ctx_conn ctx) b h w1 = (res, out1, e)"
  shows "send_response ctx w1 w2 =
     (if res < 0
      then Inr (-1, [], logged_response ctx b (ctx_log ctx @ [(L_ERROR, ''write() to socket failed: '')]))
      else (case resp_body_data (ctx_response ctx) of
              Some m \<Rightarrow>
                if ctx_method ctx = Some M_GET \<and> 0 < resp_body_len (ctx_response ctx)
                then (case send_body (after_headers ctx h b res) h m w2 of
                        (es, out2, ctx3) \<Rightarrow> Inr (es, out1 @ out2, ctx3))
                else Inr (0, out1, after_headers ctx h b res)
            | None \<Rightarrow> Inr (0, out1, after_headers ctx h b res)))"
  using assms(2)
  by (auto simp: send_response_def assms(1) logged_start after_headers_def Let_def split: option.split)

lemma send_response_any:
  assumes "small_headers 64 ctx" "status32 ctx" "body_ok (ctx_response ctx)"
    "resp_body_len (ctx_response ctx) < 2 ^ 31" "write_doc w1" "write_doc w2"
  shows "\<exists>b l. send_response ctx w1 w2 =
     Inr (if refused w1 \<or> refused w2 \<and> sent_body ctx \<noteq> [] then -1 else 0,
          take (room w1) (response_text ctx) @ (if refused w1 then [] else take (room w2) (sent_body ctx)),
          logged_response ctx b l)"
proof -
  let ?t = "response_text ctx"
  let ?len = "resp_body_len (ctx_response ctx)"
  have s: "small_headers 64 ctx" "- (2 ^ 31) \<le> ctx_status_code ctx" "ctx_status_code ctx < 2 ^ 31"
    using assms(1,2) by (auto simp: status32_def)
  have tl: "length ?t < HEADER_BUFFER_SIZE" by (rule small_headers_fit [OF s])
  obtain b where b: "resp_build_response ctx (resp_header_buffer (ctx_response ctx)) 8192 = Inr (length ?t, b)"
      "take (length ?t) b = ?t"
    using resp_build_fits [OF small_headers_fit(2) [OF s] tl] by blast
  have pos: "0 < length ?t" "length ?t < 2 ^ 31" "length ?t \<le> length b"
    using tl arg_cong [OF b(2), of length] by (simp_all add: response_text_def HEADER_BUFFER_SIZE_def)
  show ?thesis
  proof (cases w1)
    case (Refused r err e)
    then obtain k e' where "conn_write (ctx_conn ctx) b (length ?t) w1 = (k, [], e')" "k < 0"
      using conn_write_refused assms(5) by fastforce
    with Refused show ?thesis
      by (auto simp: send_response_step [OF b(1)])
  next
    case (Took n)
    have w: "conn_write (ctx_conn ctx) b (length ?t) w1 = (int (min n (length ?t)), take n ?t, E_OK)"
      using conn_write_took [OF pos, of "ctx_conn ctx" n] b(2) Took by simp
    note send = send_response_step [OF b(1) w, of w2]
    obtain l where l: "after_headers ctx (length ?t) b (int (min n (length ?t))) = logged_response ctx b l"
      by (simp add: after_headers_def)
    show ?thesis
    proof (cases "resp_body_data (ctx_response ctx)")
      case None
      then show ?thesis using send Took l by (auto simp: sent_body_def)
    next
      case (Some m)
      have len: "?len \<le> length (mem_bytes m)"
        using assms(3) Some by (cases m) (auto simp: body_ok_def)
      show ?thesis
      proof (cases "ctx_method ctx = Some M_GET \<and> 0 < ?len")
        case False
        then have "sent_body ctx = []" by (auto simp: sent_body_def Some)
        moreover have "send_response ctx w1 w2 = Inr (0, take n ?t, logged_response ctx b l)"
          using send Some False l by auto
        ultimately show ?thesis using Took by auto
      next
        case True
        then have sb: "sent_body ctx = take ?len (mem_bytes m)" "sent_body ctx \<noteq> []"
          using len by (auto simp: sent_body_def Some)
        obtain l' where "send_body (logged_response ctx b l) (length ?t) m w2 =
            (if refused w2 then -1 else 0, take (room w2) (take ?len (mem_bytes m)), logged_response ctx b l')"
          using send_body_spec [of "logged_response ctx b l" m w2 "length ?t"] True assms(4,6) len by auto
        then show ?thesis using send Some True Took sb l by auto
      qed
    qed
  qed
qed

text \<open>Whatever the body, sending meets no fault once the header block fits.\<close>

lemma send_response_defined:
  assumes "small_headers 64 ctx" "status32 ctx"
  shows "\<exists>es out b l. send_response ctx w1 w2 = Inr (es, out, logged_response ctx b l)"
proof -
  have s: "small_headers 64 ctx" "- (2 ^ 31) \<le> ctx_status_code ctx" "ctx_status_code ctx < 2 ^ 31"
    using assms by (auto simp: status32_def)
  obtain b where b: "resp_build_response ctx (resp_header_buffer (ctx_response ctx)) 8192 = Inr (length (response_text ctx), b)"
    using resp_build_fits [OF small_headers_fit(2) [OF s] small_headers_fit(1) [OF s]] by blast
  have body: "\<exists>es out l'. send_body (logged_response ctx b l) h m w = (es, out, logged_response ctx b l')" for h m w l
    by (auto simp: send_body_def Let_def split: prod.split)
  obtain res out1 e where w: "conn_write (ctx_conn ctx) b (length (response_text ctx)) w1 = (res, out1, e)"
    by (metis prod_cases3)
  obtain l where l: "after_headers ctx (length (response_text ctx)) b res = logged_response ctx b l"
    by (simp add: after_headers_def)
  obtain es out l' where "send_body (logged_response ctx b l) (length (response_text ctx))
        (the (resp_body_data (ctx_response ctx))) w2 = (es, out, logged_response ctx b l')"
    using body by blast
  with l show ?thesis
    unfolding send_response_step [OF b w] by (cases "resp_body_data (ctx_response ctx)") auto
qed

text \<open>
  C31. \<open>send_response\<close> writes a leading part of the header block and then, for a GET with a
  body, a leading part of the body, each as long as the transport takes at once; it returns -1 exactly
  when a write it makes is refused.  A short first write is not resumed: the body follows it.
\<close>

theorem send_response_bytes:
  assumes "small_headers 64 ctx" "status32 ctx" "body_ok (ctx_response ctx)"
    "resp_body_len (ctx_response ctx) < 2 ^ 31" "write_doc w1" "write_doc w2"
  shows "\<exists>ctx'. send_response ctx w1 w2 =
     Inr (if refused w1 \<or> refused w2 \<and> sent_body ctx \<noteq> [] then -1 else 0,
          take (room w1) (response_text ctx) @ (if refused w1 then [] else take (room w2) (sent_body ctx)),
          ctx')"
  using send_response_any [OF assms] by blast

theorem send_response_bytes_witness:
  "\<exists>ctx'. send_response (zero_ctx zero_conn 0) (Took 8) (Took 1) = Inr (0, ''HTTP/1.1'', ctx')"
proof -
  let ?ctx = "zero_ctx zero_conn 0"
  have "small_headers 64 ?ctx"
    using fresh_counted [of ?ctx] by (auto simp: fresh_response_def zero_ctx_def intro: small_mono)
  moreover have "status32 ?ctx" "body_ok (ctx_response ?ctx)" "resp_body_len (ctx_response ?ctx) < 2 ^ 31"
    by (simp_all add: status32_def body_ok_def zero_ctx_def zero_response_def)
  ultimately have "\<exists>ctx'. send_response ?ctx (Took 8) (Took 1) =
     Inr (if refused (Took 8) \<or> refused (Took 1) \<and> sent_body ?ctx \<noteq> [] then -1 else 0,
          take (room (Took 8)) (response_text ?ctx) @ (if refused (Took 8) then [] else take (room (Took 1)) (sent_body ?ctx)),
          ctx')"
    by (intro send_response_bytes) simp_all
  moreover have "sent_body ?ctx = []" by (simp add: sent_body_def zero_ctx_def zero_response_def)
  moreover have "take 8 (response_text ?ctx) = ''HTTP/1.1''"
    by (simp add: response_text_def status_line_def)
  ultimately show ?thesis by simp
qed

end
