(* ===== verification/AccessLog.thy ===== *)
theory AccessLog
  imports Logger HttpCommon
begin

text \<open>
  The texts handed to the logger: the access-log line of a request (\<open>log_access\<close> in
  \<open>src/logger.c\<close>) and the event-log line of the \<open>l_debug\<close> ... \<open>l_error\<close> macros
  (\<open>src/logger.h\<close>).  Time zone, thread number and clock are arguments.
\<close>

text \<open>The conversion \<open>%lx\<close>.\<close>

definition hex_char :: "nat \<Rightarrow> char" where
  "hex_char d = (if d < 10 then char_of (48 + d) else char_of (87 + d))"

fun show_hex :: "nat \<Rightarrow> string" where
  "show_hex n = (if n < 16 then [hex_char n] else show_hex (n div 16) @ [hex_char (n mod 16)])"

declare show_hex.simps [simp del]

lemma show_hex_length: "0 < k \<Longrightarrow> n < 16 ^ k \<Longrightarrow> length (show_hex n) \<le> k"
proof (induction n arbitrary: k rule: show_hex.induct)
  case (1 n)
  show ?case
  proof (cases "n < 16")
    case True
    then show ?thesis using "1.prems" by (simp add: show_hex.simps [of n])
  next
    case False
    then have k: "1 < k" using "1.prems" by (cases "k = 1") auto
    then have "n div 16 < 16 ^ (k - 1)"
      using "1.prems" by (cases k) (simp_all add: less_mult_imp_div_less mult.commute)
    then have "length (show_hex (n div 16)) \<le> k - 1"
      using "1.IH" [OF False, of "k - 1"] k by simp
    then show ?thesis using False k by (simp add: show_hex.simps [of n])
  qed
qed

subsection \<open>The time stamp\<close>

text \<open>
  \<open>l_format_datetime\<close>: \<open>localtime_r\<close> looks up the offset from UTC in seconds and the zone's name; the
  text for \<open>%F %T %Z\<close> goes into a buffer of 32 bytes, whose contents are unspecified when text and
  NUL do not fit.
\<close>

definition datetime_text :: "int \<Rightarrow> int \<Rightarrow> string \<Rightarrow> string" where
  "datetime_text now utc_offset zone =
     (let t = now + utc_offset; (y, m, d) = civil (t div 86400); secs = t mod 86400
      in show_int y @ ''-'' @ two_digits m @ ''-'' @ two_digits d @ '' '' @ two_digits (secs div 3600) @ '':''
         @ two_digits (secs div 60 mod 60) @ '':'' @ two_digits (secs mod 60) @ '' '' @ zone)"

definition l_format_datetime :: "int \<Rightarrow> int \<Rightarrow> string \<Rightarrow> string result" where
  "l_format_datetime now utc_offset zone =
     (let t = datetime_text now utc_offset zone in if length t < 32 then Inr t else Inl Uninitialised)"

lemma show_year_length: "0 \<le> days \<Longrightarrow> days \<le> 2932896 \<Longrightarrow> civil days = (y, m, d) \<Longrightarrow> length (show_int y) = 4"
proof -
  assume "0 \<le> days" "days \<le> 2932896" "civil days = (y, m, d)"
  then have "\<not> y < 0" "1000 \<le> nat y" "nat y \<le> 9999" using civil_year_bounds [of days y m d] by linarith+
  then show ?thesis by (simp only: show_int_def length_show_nat4 if_False)
qed

text \<open>Until the year 9999 the stamp fits exactly for zone names of at most 11 characters.\<close>

lemma l_format_datetime_fits:
  assumes "0 \<le> now + utc_offset" "now + utc_offset \<le> 253402300799"
  shows "length (datetime_text now utc_offset zone) = 20 + length zone"
    "l_format_datetime now utc_offset zone
       = (if length zone \<le> 11 then Inr (datetime_text now utc_offset zone) else Inl Uninitialised)"
proof -
  obtain y m d where c: "civil ((now + utc_offset) div 86400) = (y, m, d)" using prod_cases3 by blast
  have "0 \<le> (now + utc_offset) div 86400" "(now + utc_offset) div 86400 \<le> 2932896" using assms by simp_all
  then have "length (show_int y) = 4" using c show_year_length by blast
  then show 1: "length (datetime_text now utc_offset zone) = 20 + length zone"
    using c by (simp add: datetime_text_def Let_def two_digits_def)
  then show "l_format_datetime now utc_offset zone
       = (if length zone \<le> 11 then Inr (datetime_text now utc_offset zone) else Inl Uninitialised)"
    by (simp add: l_format_datetime_def)
qed

subsection \<open>Event lines\<close>

definition event_line :: "log_level_t \<Rightarrow> string \<Rightarrow> int \<Rightarrow> nat \<Rightarrow> string \<Rightarrow> string" where
  "event_line priority datetime pid tid msg =
     l_priority priority @ '' - '' @ datetime @ '' - pid '' @ show_int pid @ '' - tid 0x'' @ show_hex tid
     @ '' - '' @ msg @ [LF]"

definition log_event :: "logger_t \<Rightarrow> log_level_t \<Rightarrow> string \<Rightarrow> nat \<Rightarrow> string \<Rightarrow> log_outcome result" where
  "log_event lg priority datetime tid msg =
     log_write lg LOG_TARGET_EVENT (event_line priority datetime (lg_server_pid lg) tid msg)"

subsection \<open>Access lines\<close>

text \<open>
  \<open>%d\<close> is given the \<open>size_t\<close> body length: its low 32 bits are printed.  The micro sign is two bytes
  of UTF-8.
\<close>

definition user_agent :: "request_ctx_t \<Rightarrow> string" where
  "user_agent ctx =
     (if confirm_header_exists ctx ''User-Agent''
      then (case get_header_value ctx ''User-Agent'' of Some v \<Rightarrow> cstr v | None \<Rightarrow> []) else [])"

definition access_line :: "string \<Rightarrow> u64 \<Rightarrow> nat \<Rightarrow> request_ctx_t \<Rightarrow> string" where
  "access_line datetime now_us tid ctx =
     (let latency = now_us - ctx_start_time ctx; h = ctx_h1 ctx; q = [CHR 0x22]
      in cstr (conn_remote_ip (ctx_conn ctx)) @ '' - - ['' @ datetime @ '']  '' @ q
         @ cstr (h1_method h) @ '' '' @ cstr (h1_uri h) @ '' '' @ cstr (h1_version h) @ q @ '' ''
         @ show_int (ctx_status_code ctx) @ '' ''
         @ show_int (to_int32 (int (resp_body_len (ctx_response ctx)))) @ '' ['' @ show_nat (unat latency)
         @ [CHR 0xCE, CHR 0xBC] @ ''s] - '' @ user_agent ctx @ '' - tid: 0x'' @ show_hex tid @ [LF])"

definition log_access :: "logger_t \<Rightarrow> string \<Rightarrow> u64 \<Rightarrow> nat \<Rightarrow> request_ctx_t \<Rightarrow> log_outcome result" where
  "log_access lg datetime now_us tid ctx = log_write lg LOG_TARGET_ACCESS (access_line datetime now_us tid ctx)"

lemma to_int32_bounds: "- (2 ^ 31) \<le> to_int32 x" "to_int32 x < 2 ^ 31"
  using sint_range_size [of "word_of_int x :: 32 word"] by (simp_all add: to_int32_def word_size)

text \<open>The line is the URI and the user agent and at most 250 bytes around them.\<close>

lemma access_line_length:
  assumes "status32 ctx" "h1_fits (ctx_h1 ctx)" "length (cstr (conn_remote_ip (ctx_conn ctx))) \<le> 45"
    "length datetime \<le> 31" "tid < 2 ^ 64"
  shows "length (access_line datetime now tid ctx)
    \<le> 250 + length (cstr (h1_uri (ctx_h1 ctx))) + length (user_agent ctx)"
proof -
  have "length (cstr (h1_method (ctx_h1 ctx))) \<le> 16" "length (cstr (h1_version (ctx_h1 ctx))) \<le> 16"
    using assms(2) length_cstr_le le_trans by (fastforce simp: h1_fits_def size_defs)+
  moreover have "length (show_int (ctx_status_code ctx)) \<le> 11"
    using assms(1) by (intro length_show_int_le) (simp_all add: status32_def)
  moreover have "length (show_int (to_int32 (int (resp_body_len (ctx_response ctx))))) \<le> 11"
    by (intro length_show_int_le to_int32_bounds)
  moreover have "length (show_nat (unat (now - ctx_start_time ctx))) \<le> 20"
  proof (rule show_nat_length)
    have "unat (now - ctx_start_time ctx) < 2 ^ 64" using unsigned_less [of "now - ctx_start_time ctx"] by simp
    then show "unat (now - ctx_start_time ctx) < 10 ^ 20" by simp
  qed simp
  moreover have "length (show_hex tid) \<le> 16"
    using assms(5) by (intro show_hex_length) simp_all
  ultimately show ?thesis
    using assms(3,4) unfolding access_line_def Let_def
    by (simp only: length_append list.size)
qed

lemma access_line_uri: "length (cstr (h1_uri (ctx_h1 ctx))) < length (access_line datetime now tid ctx)"
  by (simp add: access_line_def Let_def)

text \<open>
  The access-log line of a request is written whole when URI and user agent are at most
  1797 bytes together; but a URI of 2048 bytes or more, which the parser accepts, makes the entry
  claim more bytes than its line buffer has, and the logger's write reads past it.
\<close>

theorem access_line_overread:
  assumes "status32 ctx" "h1_fits (ctx_h1 ctx)" "length (cstr (conn_remote_ip (ctx_conn ctx))) \<le> 45"
    "length datetime \<le> 31" "tid < 2 ^ 64"
  shows "(length (cstr (h1_uri (ctx_h1 ctx))) + length (user_agent ctx) \<le> 1797 \<longrightarrow>
      iov_bytes (format_entry LOG_TARGET_ACCESS (access_line datetime now tid ctx))
        = Inr (access_line datetime now tid ctx))
    \<and> (2048 \<le> length (cstr (h1_uri (ctx_h1 ctx))) \<longrightarrow>
      iov_bytes (format_entry LOG_TARGET_ACCESS (access_line datetime now tid ctx)) = Inl OutOfBounds)"
  using access_line_length [OF assms, of now] access_line_uri [of ctx datetime now tid]
  unfolding iov_bytes_entry LOG_LINE_MAX_def by auto

definition long_uri_request :: request_ctx_t where
  "long_uri_request = (zero_ctx zero_conn 0)\<lparr>ctx_h1 := zero_h1\<lparr>h1_uri := replicate 2048 (CHR ''a'')\<rparr>\<rparr>"

theorem access_line_overread_witness:
  "iov_bytes (format_entry LOG_TARGET_ACCESS (access_line ''now'' 5 1 long_uri_request)) = Inl OutOfBounds"
proof -
  have "status32 long_uri_request" "h1_fits (ctx_h1 long_uri_request)"
    "length (cstr (conn_remote_ip (ctx_conn long_uri_request))) \<le> 45"
    by (simp_all add: long_uri_request_def status32_def h1_fits_def zero_defs size_defs cstr_id)
  moreover have "length (cstr (h1_uri (ctx_h1 long_uri_request))) = 2048"
    by (simp add: long_uri_request_def cstr_id)
  ultimately show ?thesis
    using access_line_overread [of long_uri_request "''now''" 1 5] by simp
qed

end
