(* ===== verification/Worker.thy ===== *)
theory Worker
  imports AccessLog Socket
begin

text \<open>
  One round of a worker thread (\<open>worker_thread\<close> in \<open>src/threadpool.c\<close>): from a connection popped off
  the work queue to its disposal - parked on the wait queue or closed - with everything in between:
  protocol sniffing, TLS handshake, ingress, validation, routing, handler, response, access log.
  What kernel, OpenSSL, clock and file system answer during the round is the record \<open>worker_env\<close>.
\<close>

record worker_env =
  we_recv :: "int \<times> string \<times> string"      \<comment> \<open>\<open>recv\<close> in \<open>demux_protocol\<close>: result, bytes, old stack contents\<close>
  we_calloc :: bool
  we_clock :: u64                          \<comment> \<open>\<open>get_now_us\<close> at the start\<close>
  we_init_finished :: bool                 \<comment> \<open>\<open>SSL_is_init_finished\<close>\<close>
  we_tls :: "tls_answer list"
  we_reads :: "read_event list"
  we_handler :: handler_env
  we_write1 :: write_event
  we_write2 :: write_event
  we_time :: int                           \<comment> \<open>\<open>time\<close> when the connection is parked\<close>
  we_timeout :: u16                        \<comment> \<open>\<open>keepalive_timeout\<close>, read when the thread started\<close>
  we_shutting_down :: bool

text \<open>What a round does, in order.\<close>

datatype worker_act =
    Act_log string
  | Act_sent string
  | Act_access request_ctx_t
  | Act_park conn_t
  | Act_close "sys_effect list"
  | Act_release "release list"
  | Act_free_ctx

datatype worker_next = Next_conn | Stop_thread

type_synonym round_result = "(worker_next, worker_act list) outcome result"

text \<open>The code after the label \<open>cleanup\<close>.\<close>

definition cleanup :: "worker_act list \<Rightarrow> request_ctx_t \<Rightarrow> round_result" where
  "cleanup acts ctx =
     Inr (Returns Next_conn
       (acts @ [Act_close (close_connection (ctx_conn ctx)), Act_release (cleanup_request_resources ctx),
                Act_free_ctx]))"

definition keepalive_conn :: "worker_env \<Rightarrow> conn_t \<Rightarrow> conn_t" where
  "keepalive_conn we c = c\<lparr>conn_keepalive_deadline := we_time we + uint (we_timeout we)\<rparr>"

text \<open>After the response has been sent: keep, stop or clean up.\<close>

definition finish_request :: "worker_env \<Rightarrow> int \<Rightarrow> worker_act list \<Rightarrow> request_ctx_t \<Rightarrow> round_result" where
  "finish_request we es acts ctx =
     (if es = 0 \<and> should_keep_alive ctx
      then Inr (Returns Next_conn (acts @ [Act_park (keepalive_conn we (ctx_conn ctx))]))
      else if we_shutting_down we
      then Inr (Returns Stop_thread (acts @ [Act_close (close_connection (ctx_conn ctx))]))
      else cleanup acts ctx)"

definition request_round :: "worker_env \<Rightarrow> request_ctx_t \<Rightarrow> round_result" where
  "request_round we ctx =
     bindR (process_ingress ctx (we_reads we)) (\<lambda>r.
       (case r of
          Blocks \<Rightarrow> Inr Blocks
        | Returns k (ctx1, _) \<Rightarrow>
            if k \<noteq> 0 then
              (if ctx_status_code ctx1 > 0
               then bindR (send_response ctx1 (we_write1 we) (we_write2 we)) (\<lambda>(es, out, ctx2).
                      cleanup [Act_sent out, Act_access ctx2] ctx2)
               else cleanup [] ctx1)
            else
              bindR (call_handler (we_handler we) (route_request (validate_request ctx1))) (\<lambda>ctx2.
              bindR (send_response ctx2 (we_write1 we) (we_write2 we)) (\<lambda>(es, out, ctx3).
                finish_request we es [Act_sent out, Act_access ctx3] ctx3))))"

definition sniffed :: "worker_env \<Rightarrow> conn_t \<Rightarrow> conn_t" where
  "sniffed we conn =
     (if conn_protocol conn = PROTO_UNKNOWN
      then (let (n, rcvd, junk) = we_recv we in demux_protocol n rcvd junk conn) else conn)"

definition worker_round :: "worker_env \<Rightarrow> conn_t \<Rightarrow> round_result" where
  "worker_round we conn0 =
     (let conn = sniffed we conn0; ctx = zero_ctx conn (we_clock we)
      in if \<not> we_calloc we then Inl NullDeref
         else if conn_is_tls conn \<and> conn_ssl conn \<noteq> None \<and> \<not> we_init_finished we
         then (case fst (perform_tls_handshake (we_tls we)) of
                 None \<Rightarrow> Inr Blocks
               | Some result \<Rightarrow>
                   if result \<noteq> 0 then cleanup [Act_log ''perform_tls_handshake failed''] ctx
                   else request_round we ctx)
         else request_round we ctx)"

subsection \<open>Every round disposes of its connection once\<close>

fun disposals :: "worker_act list \<Rightarrow> worker_act list" where
  "disposals [] = []"
| "disposals (Act_park c # as) = Act_park c # disposals as"
| "disposals (Act_close es # as) = Act_close es # disposals as"
| "disposals (_ # as) = disposals as"

lemma disposals_append [simp]: "disposals (as @ bs) = disposals as @ disposals bs"
  by (induction as rule: disposals.induct) simp_all

text \<open>The same descriptor and TLS session; the protocol and the deadline may have changed.\<close>

definition same_peer :: "conn_t \<Rightarrow> conn_t \<Rightarrow> bool" where
  "same_peer c c' \<longleftrightarrow> conn_fd c' = conn_fd c \<and> conn_ssl c' = conn_ssl c \<and> conn_is_tls c' = conn_is_tls c"

lemma same_peer_refl [simp]: "same_peer c c"
  by (simp add: same_peer_def)

lemma same_peer_trans: "same_peer a b \<Longrightarrow> same_peer b c \<Longrightarrow> same_peer a c"
  by (simp add: same_peer_def)

lemma same_peer_protocol [simp]: "same_peer c (c\<lparr>conn_protocol := p\<rparr>)"
  by (simp add: same_peer_def)

lemma same_peer_close: "same_peer a b \<Longrightarrow> close_connection b = close_connection a"
  by (simp add: same_peer_def close_connection_def)

definition closes :: "conn_t \<Rightarrow> worker_act list \<Rightarrow> bool" where
  "closes conn acts \<longleftrightarrow> disposals acts = [Act_close (close_connection conn)]"

definition parks :: "conn_t \<Rightarrow> worker_act list \<Rightarrow> bool" where
  "parks conn acts \<longleftrightarrow>
     (\<exists>c. disposals acts = [Act_park c] \<and> same_peer conn c \<and> conn_protocol c = PROTO_HTTP11)"

definition round_ok :: "conn_t \<Rightarrow> round_result \<Rightarrow> bool" where
  "round_ok conn r \<longleftrightarrow>
     (case r of
        Inl f \<Rightarrow> False
      | Inr Blocks \<Rightarrow> True
      | Inr (Returns k acts) \<Rightarrow>
          (closes conn acts \<or> parks conn acts \<and> k = Next_conn)
          \<and> (Act_free_ctx \<in> set acts \<longleftrightarrow> closes conn acts \<and> k = Next_conn))"

lemma same_peer_round:
  assumes "same_peer conn c" "round_ok c r"
  shows "round_ok conn r"
proof -
  have "closes conn = closes c" using same_peer_close [OF assms(1)] by (simp add: closes_def fun_eq_iff)
  moreover have "parks c acts \<Longrightarrow> parks conn acts" for acts
    using same_peer_trans [OF assms(1)] by (auto simp: parks_def)
  ultimately show ?thesis
    using assms(2) by (auto simp: round_ok_def split: sum.splits outcome.splits)
qed

lemma cleanup_ok:
  "disposals acts = [] \<Longrightarrow> round_ok (ctx_conn ctx) (cleanup acts ctx)"
  by (auto simp: round_ok_def cleanup_def closes_def)

lemma finish_ok:
  assumes "disposals acts = []" "Act_free_ctx \<notin> set acts"
  shows "round_ok (ctx_conn ctx) (finish_request we es acts ctx)"
proof (cases "es = 0 \<and> should_keep_alive ctx")
  case True
  then have "conn_protocol (ctx_conn ctx) = PROTO_HTTP11" by (simp add: should_keep_alive_iff)
  then show ?thesis
    using True assms
    by (auto simp: round_ok_def finish_request_def keepalive_conn_def same_peer_def parks_def closes_def)
next
  case False
  then show ?thesis
    using assms cleanup_ok [OF assms(1), of ctx]
    by (auto simp: finish_request_def round_ok_def closes_def)
qed

definition reads_ok :: "read_event list \<Rightarrow> bool" where
  "reads_ok evs \<longleftrightarrow> (\<forall>r err e p. Ret r err e p \<in> set evs \<longrightarrow> r \<le> 0)"

lemma ingress_leaves:
  assumes "reads_ok evs" "process_ingress (zero_ctx c t) evs = Inr (Returns k (ctx1, rest))"
  shows "same_peer c (ctx_conn ctx1)" "fresh_response ctx1" "status32 ctx1" "small_headers 64 ctx1"
proof -
  have "ingress_ok c (Inr (Returns k (ctx1, rest)))"
    using process_ingress_any [of evs c t] assms by (simp add: reads_ok_def)
  then show "same_peer c (ctx_conn ctx1)" "fresh_response ctx1" "status32 ctx1"
    by (auto simp: ingress_ok_def fresh_response_def status32_def)
  then show "small_headers 64 ctx1" using fresh_counted by (auto intro: small_mono)
qed

lemma validate_keeps:
  "fresh_response ctx \<Longrightarrow> fresh_response (validate_request ctx)" "status32 (validate_request ctx)"
  by (simp_all add: fresh_response_def status32_def validate_status split: option.split)

lemma request_round_ok:
  assumes "env_ok (we_handler we)" "reads_ok (we_reads we)"
  shows "round_ok c (request_round we (zero_ctx c t))"
proof (cases "process_ingress (zero_ctx c t) (we_reads we)")
  case (Inl f)
  with process_ingress_any [of "we_reads we" c t] assms(2) show ?thesis
    by (simp add: reads_ok_def ingress_ok_def)
next
  case ret: (Inr outc)
  show ?thesis
  proof (cases outc)
    case Blocks
    with ret show ?thesis by (simp add: request_round_def round_ok_def)
  next
    case (Returns k s)
    obtain ctx1 rest where s: "s = (ctx1, rest)" by (cases s)
    note i = ingress_leaves [OF assms(2) ret [unfolded Returns s]]
    show ?thesis
    proof (cases "k = 0")
      case False
      obtain es out b l where snd: "send_response ctx1 (we_write1 we) (we_write2 we) = Inr (es, out, logged_response ctx1 b l)"
        using send_response_defined [OF i(4,3)] by metis
      have "round_ok (ctx_conn ctx1) (request_round we (zero_ctx c t))"
        using False cleanup_ok [of "[]" ctx1]
          cleanup_ok [of "[Act_sent out, Act_access (logged_response ctx1 b l)]" "logged_response ctx1 b l"]
        by (simp add: request_round_def ret Returns s snd)
      then show ?thesis by (rule same_peer_round [OF i(1)])
    next
      case True
      obtain ctx2 where h: "call_handler (we_handler we) (route_request (validate_request ctx1)) = Inr ctx2"
          "handled (we_handler we) (validate_request ctx1) ctx2"
        using routed_handled [OF assms(1) validate_keeps(1) [OF i(2)] validate_keeps(2)] by blast
      obtain es out b l where snd: "send_response ctx2 (we_write1 we) (we_write2 we) = Inr (es, out, logged_response ctx2 b l)"
        using send_response_defined handled_small [OF h(2)] by metis
      let ?ctx3 = "logged_response ctx2 b l"
      have "round_ok (ctx_conn ?ctx3) (finish_request we es [Act_sent out, Act_access ?ctx3] ?ctx3)"
        by (rule finish_ok) simp_all
      moreover have "ctx_conn ?ctx3 = ctx_conn ctx1" using h(2) by (simp add: handled_def)
      ultimately have "round_ok (ctx_conn ctx1) (request_round we (zero_ctx c t))"
        using True by (simp add: request_round_def ret Returns s h(1) snd)
      then show ?thesis by (rule same_peer_round [OF i(1)])
    qed
  qed
qed

lemma sniffed_peer: "same_peer c (sniffed we c)"
  by (auto simp: sniffed_def demux_protocol_def Let_def split: prod.split)

lemma worker_round_disposes:
  assumes "env_ok (we_handler we)" "we_calloc we" "reads_ok (we_reads we)"
  shows "round_ok conn (worker_round we conn)"
proof -
  define c where "c = sniffed we conn"
  let ?failed = "cleanup [Act_log ''perform_tls_handshake failed''] (zero_ctx c (we_clock we))"
  let ?round = "request_round we (zero_ctx c (we_clock we))"
  have "round_ok c ?failed"
    using cleanup_ok [of "[Act_log ''perform_tls_handshake failed'']" "zero_ctx c (we_clock we)"]
    by (simp add: zero_ctx_def)
  moreover have "round_ok c ?round" using request_round_ok [OF assms(1,3)] .
  moreover have "round_ok c (Inr Blocks)" by (simp add: round_ok_def)
  moreover have "worker_round we conn \<in> {Inr Blocks, ?failed, ?round}"
    using assms(2) by (auto simp: worker_round_def c_def [symmetric] Let_def split: option.split)
  ultimately have "round_ok c (worker_round we conn)" by auto
  with sniffed_peer [of conn we] show ?thesis unfolding c_def by (rule same_peer_round)
qed

text \<open>
  C5. Whatever client, kernel, OpenSSL and file system do, a round of a worker meets no fault
  and disposes of its connection exactly once: it either closes it or parks it - the latter only for
  HTTP/1.1 - and never both.  The request context is freed exactly when the connection is closed and
  the thread goes on: a parked connection leaves its context, and with it the response body, behind.
\<close>

theorem worker_disposes_once:
  assumes "env_ok (we_handler we)" "we_calloc we" "reads_ok (we_reads we)"
  shows "round_ok conn (worker_round we conn)"
  by (rule worker_round_disposes [OF assms])

definition example_worker_env :: "read_event list \<Rightarrow> worker_env" where
  "example_worker_env evs = \<lparr>we_recv = (0, [], []), we_calloc = True, we_clock = 0, we_init_finished = True,
     we_tls = [], we_reads = evs, we_handler = example_env, we_write1 = Took 9000, we_write2 = Took 9000,
     we_time = 100, we_timeout = 10, we_shutting_down = False\<rparr>"

theorem worker_disposes_once_witness:
  "round_ok zero_conn (worker_round (example_worker_env [Got ''GET'', Ret 0 SSL_ERROR_NONE E_OK 0]) zero_conn)"
  by (rule worker_disposes_once) (simp_all add: example_worker_env_def example_env_ok reads_ok_def)

end
