(* ===== verification/WaitRoom.thy ===== *)
theory WaitRoom
  imports ConnQueue IoWatcher
begin

text \<open>
  The wait-room thread (\<open>wait_room_thread\<close> in \<open>src/threadpool.c\<close>): one turn of its loop - draining
  the wait queue into the pool of parked connections, the poll timeout, handing readable connections
  back to the workers, and the sweep of the expired ones.  Kernel answers and the clock are
  arguments.
\<close>

definition MAX_TICK_MS :: int where "MAX_TICK_MS = 200"

text \<open>
  The state the thread works on: both queues, the pool, the poller's interest list, and the
  connections it has closed so far.
\<close>

record wait_room =
  wr_wait :: "conn_t work_queue_t"
  wr_work :: "conn_t work_queue_t"
  wr_pool :: conn_pool_t
  wr_watch :: interest
  wr_closed :: "conn_t list"

text \<open>\<open>close_connection\<close>; the kernel takes a closed descriptor off the interest list.\<close>

definition wr_close :: "conn_t \<Rightarrow> wait_room \<Rightarrow> wait_room" where
  "wr_close c s = s\<lparr>wr_closed := wr_closed s @ [c], wr_watch := (wr_watch s)(conn_fd c := None)\<rparr>"

subsection \<open>Draining the wait queue\<close>

text \<open>
  The body of the drain loop for one connection; \<open>reg\<close> says how the kernel answers the registration
  of a connection (\<open>EPOLL_CTL_ADD\<close> and, when that one exists, \<open>EPOLL_CTL_MOD\<close>).
\<close>

definition park :: "(conn_t \<Rightarrow> bool \<times> bool) \<Rightarrow> conn_t \<Rightarrow> wait_room \<Rightarrow> wait_room result" where
  "park reg c s =
     bindR (pool_add (wr_pool s) c) (\<lambda>(r, pool1).
       let s1 = s\<lparr>wr_pool := pool1\<rparr>
       in if r = 0 then
            (let (k, w) = io_watcher_add (fst (reg c)) (snd (reg c)) (wr_watch s1) (conn_fd c) (conn_fd c);
                 s2 = s1\<lparr>wr_watch := w\<rparr>
             in if k \<noteq> 0
                then bindR (pool_remove_by_fd (wr_pool s2) (conn_fd c)) (\<lambda>(_, _, pool2).
                       Inr (wr_close c (s2\<lparr>wr_pool := pool2\<rparr>)))
                else Inr s2)
          else Inr (wr_close c s1))"

text \<open>
  The loop \<open>while (queue_trypop(wait_q, &conn) != 1)\<close> with \<open>n\<close> rounds to spend: \<open>None\<close> is a loop still
  running after them.  \<open>conn\<close> is a variable of the enclosing block, not initialised at first; a round
  that pops nothing uses what it holds.
\<close>

fun drain ::
  "nat \<Rightarrow> (conn_t \<Rightarrow> bool \<times> bool) \<Rightarrow> conn_t option \<Rightarrow> wait_room \<Rightarrow> wait_room option result" where
  "drain 0 reg conn s = Inr None"
| "drain (Suc n) reg conn s =
     bindR (queue_trypop (wr_wait s)) (\<lambda>((r, popped), q).
       let s1 = s\<lparr>wr_wait := q\<rparr>; conn1 = (if popped = None then conn else popped)
       in if r = 1 then Inr (Some s1)
          else (case conn1 of
                  None \<Rightarrow> Inl Uninitialised
                | Some c \<Rightarrow> bindR (park reg c s1) (\<lambda>s2. drain n reg (Some c) s2)))"

subsection \<open>Waiting, dispatching, sweeping\<close>

definition poll_timeout :: "conn_pool_t \<Rightarrow> int \<Rightarrow> int result" where
  "poll_timeout pool now =
     bindR (pool_nearest_timeout_ms pool now) (\<lambda>t.
       Inr (if t = -1 \<or> t > MAX_TICK_MS then MAX_TICK_MS else t))"

text \<open>
  The loop over the events: \<open>Blocks\<close> is a push that waits for room on the work queue.
\<close>

fun dispatch :: "io_event_t list \<Rightarrow> wait_room \<Rightarrow> (unit, wait_room) outcome result" where
  "dispatch [] s = Inr (Returns () s)"
| "dispatch (e # es) s =
     bindR (pool_remove_by_fd (wr_pool s) (ev_userdata e)) (\<lambda>(found, active, pool).
       let s1 = s\<lparr>wr_pool := pool\<rparr>
       in (if found = 0 then dispatch es s1
           else (case active of
                   None \<Rightarrow> Inl Uninitialised
                 | Some c \<Rightarrow>
                     if ev_is_error e then dispatch es (wr_close c s1)
                     else bindR (queue_push (wr_work s1) c) (\<lambda>p.
                            (case p of
                               Blocks \<Rightarrow> Inr Blocks
                             | Returns _ q \<Rightarrow> dispatch es (s1\<lparr>wr_work := q\<rparr>))))))"

definition sweep :: "int \<Rightarrow> wait_room \<Rightarrow> wait_room result" where
  "sweep now s =
     bindR (pool_sweep_expired (wr_pool s) now) (\<lambda>(cs, pool).
       Inr (s\<lparr>wr_pool := pool, wr_closed := wr_closed s @ cs,
              wr_watch := fold (\<lambda>c w. snd (io_watcher_remove w (conn_fd c))) cs (wr_watch s)\<rparr>))"

text \<open>One turn; \<open>answer\<close> is what the poller reports (a failure reports no event), \<open>now1\<close> and \<open>now2\<close> the
  clock before and after the wait.\<close>

definition wait_room_turn ::
  "nat \<Rightarrow> (conn_t \<Rightarrow> bool \<times> bool) \<Rightarrow> (int \<times> u32) list option \<Rightarrow> int \<Rightarrow> int \<Rightarrow> wait_room
     \<Rightarrow> (unit, wait_room) outcome option result" where
  "wait_room_turn fuel reg answer now1 now2 s =
     bindR (drain fuel reg None s) (\<lambda>d.
       (case d of
          None \<Rightarrow> Inr None
        | Some s1 \<Rightarrow>
            bindR (poll_timeout (wr_pool s1) now1) (\<lambda>timeout.
            bindR (dispatch (snd (io_watcher_wait answer)) s1) (\<lambda>r.
              (case r of
                 Blocks \<Rightarrow> Inr (Some Blocks)
               | Returns _ s2 \<Rightarrow> bindR (sweep now2 s2) (\<lambda>s3. Inr (Some (Returns () s3))))))))"

subsection \<open>Every descriptor is in one place\<close>

text \<open>The descriptors in a state: waiting, parked, handed back, closed.\<close>

definition wr_fds :: "wait_room \<Rightarrow> int multiset" where
  "wr_fds s = image_mset conn_fd (mset (wq_list (wr_wait s)) + mset (pool_list (wr_pool s))
     + mset (wq_list (wr_work s)) + mset (wr_closed s))"

definition wr_inv :: "wait_room \<Rightarrow> bool" where
  "wr_inv s \<longleftrightarrow> wq_inv (wr_wait s) \<and> wq_inv (wr_work s) \<and> pool_inv (wr_pool s)"

lemma pool_add_spec:
  assumes "pool_inv pool"
  shows "\<exists>r pool'. pool_add pool c = Inr (r, pool') \<and> pool_inv pool'
     \<and> pool_capacity pool' = pool_capacity pool \<and> (r = 0 \<or> r = -1)
     \<and> pool_list pool' = (if r = 0 then pool_list pool @ [c] else pool_list pool)"
  using pool_add_list [OF assms, of c] assms
  by (cases "pool_count pool < pool_capacity pool") auto

lemma pool_remove_added:
  assumes "pool_inv pool" "pool_list pool = xs @ [c]"
  shows "\<exists>d pool'. pool_remove_by_fd pool (conn_fd c) = Inr (1, Some d, pool') \<and> conn_fd d = conn_fd c
     \<and> pool_inv pool' \<and> pool_capacity pool' = pool_capacity pool
     \<and> image_mset conn_fd (mset (pool_list pool')) = image_mset conn_fd (mset xs)
     \<and> set (pool_list pool') \<subseteq> insert c (set xs)"
proof -
  obtain d pool' where d: "pool_remove_by_fd pool (conn_fd c) = Inr (1, Some d, pool')" "conn_fd d = conn_fd c"
      "pool_inv pool'" "pool_capacity pool' = pool_capacity pool"
      "add_mset d (mset (pool_list pool')) = mset (pool_list pool)"
    using remove_by_fd_from_list [OF assms(1), of 0 "conn_fd c"] assms(2)
    by (auto simp: pool_remove_by_fd_def split: if_splits)
  have "add_mset (conn_fd c) (image_mset conn_fd (mset (pool_list pool'))) = image_mset conn_fd (mset (xs @ [c]))"
    using arg_cong [OF d(5), of "image_mset conn_fd"] d(2) assms(2) by simp
  then have "image_mset conn_fd (mset (pool_list pool')) = image_mset conn_fd (mset xs)" by simp
  moreover have "set (pool_list pool') \<subseteq> insert c (set xs)"
    using arg_cong [OF d(5), of set_mset] assms(2) by auto
  ultimately show ?thesis using d by blast
qed

lemma park_keeps:
  assumes "wr_inv s"
  shows "\<exists>s'. park reg c s = Inr s' \<and> wr_inv s' \<and> wr_fds s' = add_mset (conn_fd c) (wr_fds s)
     \<and> wr_wait s' = wr_wait s \<and> wr_work s' = wr_work s
     \<and> pool_capacity (wr_pool s') = pool_capacity (wr_pool s)
     \<and> set (pool_list (wr_pool s')) \<subseteq> insert c (set (pool_list (wr_pool s)))"
proof -
  have pinv: "pool_inv (wr_pool s)" using assms by (simp add: wr_inv_def)
  obtain r p1 where p1: "pool_add (wr_pool s) c = Inr (r, p1)" "pool_inv p1"
      "pool_capacity p1 = pool_capacity (wr_pool s)" "r = 0 \<or> r = -1"
      "pool_list p1 = (if r = 0 then pool_list (wr_pool s) @ [c] else pool_list (wr_pool s))"
    using pool_add_spec [OF pinv] by blast
  show ?thesis
  proof (cases "r = 0")
    case False
    then show ?thesis
      using p1 assms by (auto simp: park_def wr_close_def wr_inv_def wr_fds_def)
  next
    case True
    then have pl: "pool_list p1 = pool_list (wr_pool s) @ [c]" using p1(5) by simp
    obtain k w where kw: "io_watcher_add (fst (reg c)) (snd (reg c)) (wr_watch s) (conn_fd c) (conn_fd c) = (k, w)"
      by (cases "io_watcher_add (fst (reg c)) (snd (reg c)) (wr_watch s) (conn_fd c) (conn_fd c)")
    obtain d p2 where p2: "pool_remove_by_fd p1 (conn_fd c) = Inr (1, Some d, p2)" "pool_inv p2"
        "pool_capacity p2 = pool_capacity p1"
        "image_mset conn_fd (mset (pool_list p2)) = image_mset conn_fd (mset (pool_list (wr_pool s)))"
        "set (pool_list p2) \<subseteq> insert c (set (pool_list (wr_pool s)))"
      using pool_remove_added [OF p1(2) pl] by blast
    show ?thesis
      using True p1 pl p2 kw assms
      by (cases "k = 0") (auto simp: park_def wr_close_def wr_inv_def wr_fds_def)
  qed
qed

lemma trypop_cases:
  assumes "wq_inv q"
  shows "wq_list q = [] \<Longrightarrow> queue_trypop q = Inr ((if wq_shutting_down q then -1 else 1, None), q)"
    "wq_list q = x # xs \<Longrightarrow> \<exists>q'. queue_trypop q = Inr ((0, Some x), q') \<and> wq_inv q' \<and> wq_list q' = xs
       \<and> wq_shutting_down q' = wq_shutting_down q \<and> wq_capacity q' = wq_capacity q"
proof -
  show "queue_trypop q = Inr ((if wq_shutting_down q then -1 else 1, None), q)" if "wq_list q = []"
    using that by (simp add: wq_list_Nil queue_trypop_def)
  show "\<exists>q'. queue_trypop q = Inr ((0, Some x), q') \<and> wq_inv q' \<and> wq_list q' = xs
      \<and> wq_shutting_down q' = wq_shutting_down q \<and> wq_capacity q' = wq_capacity q"
    if "wq_list q = x # xs"
  proof -
    have ne: "0 < wq_count q"
      using that by (metis length_wq_list length_greater_0_conv list.distinct(1))
    obtain y q' where "take_head q = Inr (y, q')" "wq_inv q'" "wq_list q = y # wq_list q'"
        "wq_shutting_down q' = wq_shutting_down q" "wq_capacity q' = wq_capacity q"
      using take_head_item [OF assms ne] by metis
    then show ?thesis using that ne by (simp add: queue_trypop_def)
  qed
qed

lemma wr_fds_pop:
  "wq_list (wr_wait s) = x # wq_list q \<Longrightarrow>
     wr_fds s = add_mset (conn_fd x) (wr_fds (s\<lparr>wr_wait := q\<rparr>))"
  by (simp add: wr_fds_def)

lemma drain_all:
  assumes "wr_inv s" "\<not> wq_shutting_down (wr_wait s)" "length (wq_list (wr_wait s)) < n"
  shows "\<exists>s'. drain n reg conn s = Inr (Some s') \<and> wr_inv s' \<and> wr_fds s' = wr_fds s
     \<and> wq_list (wr_wait s') = [] \<and> wr_work s' = wr_work s
     \<and> pool_capacity (wr_pool s') = pool_capacity (wr_pool s)
     \<and> set (pool_list (wr_pool s')) \<subseteq> set (wq_list (wr_wait s)) \<union> set (pool_list (wr_pool s))"
  using assms
proof (induction n arbitrary: conn s)
  case (Suc n)
  have qi: "wq_inv (wr_wait s)" using Suc.prems by (simp add: wr_inv_def)
  show ?case
  proof (cases "wq_list (wr_wait s)")
    case Nil
    then show ?thesis using trypop_cases(1) [OF qi] Suc.prems by simp
  next
    case (Cons x xs)
    obtain q where q: "queue_trypop (wr_wait s) = Inr ((0, Some x), q)" "wq_inv q" "wq_list q = xs"
        "\<not> wq_shutting_down q"
      using trypop_cases(2) [OF qi Cons] Suc.prems(2) by auto
    let ?s1 = "s\<lparr>wr_wait := q\<rparr>"
    have inv1: "wr_inv ?s1" using Suc.prems(1) q(2) by (simp add: wr_inv_def)
    obtain s2 where s2: "park reg x ?s1 = Inr s2" "wr_inv s2" "wr_fds s2 = add_mset (conn_fd x) (wr_fds ?s1)"
        "wr_wait s2 = q" "wr_work s2 = wr_work s" "pool_capacity (wr_pool s2) = pool_capacity (wr_pool s)"
        "set (pool_list (wr_pool s2)) \<subseteq> insert x (set (pool_list (wr_pool s)))"
      using park_keeps [OF inv1, of reg x] by auto
    have "wr_fds s2 = wr_fds s" using s2(3) wr_fds_pop [of s x q] Cons q(3) by simp
    moreover have "length (wq_list (wr_wait s2)) < n" using Suc.prems(3) Cons s2(4) q(3) by simp
    ultimately obtain s' where "drain n reg (Some x) s2 = Inr (Some s')" "wr_inv s'" "wr_fds s' = wr_fds s"
        "wq_list (wr_wait s') = []" "wr_work s' = wr_work s"
        "pool_capacity (wr_pool s') = pool_capacity (wr_pool s)"
        "set (pool_list (wr_pool s')) \<subseteq> set xs \<union> set (pool_list (wr_pool s2))"
      using Suc.IH [OF s2(2), of "Some x"] q(3,4) s2(4,5,6) by auto
    then show ?thesis using q(1) s2(1,7) Cons by auto
  qed
qed simp

text \<open>On an empty queue that is shutting down the loop never leaves.\<close>

lemma drain_stuck:
  assumes "wr_inv s" "wq_shutting_down (wr_wait s)" "wq_list (wr_wait s) = []"
  shows "drain n reg (Some c) s = Inr None"
  using assms
proof (induction n arbitrary: s)
  case (Suc n)
  have qi: "wq_inv (wr_wait s)" using Suc.prems by (simp add: wr_inv_def)
  obtain s2 where s2: "park reg c s = Inr s2" "wr_inv s2" "wr_wait s2 = wr_wait s"
    using park_keeps [OF Suc.prems(1)] by blast
  have "s\<lparr>wr_wait := wr_wait s\<rparr> = s" by simp
  then show ?case
    using trypop_cases(1) [OF qi Suc.prems(3)] s2 Suc.IH [OF s2(2)] Suc.prems by simp
qed simp

lemma drain_shutdown:
  assumes "wr_inv s" "wq_shutting_down (wr_wait s)" "wq_list (wr_wait s) \<noteq> [] \<or> conn \<noteq> None"
  shows "drain n reg conn s = Inr None"
  using assms
proof (induction n arbitrary: conn s)
  case (Suc n)
  have qi: "wq_inv (wr_wait s)" using Suc.prems by (simp add: wr_inv_def)
  show ?case
  proof (cases "wq_list (wr_wait s)")
    case Nil
    then obtain c where "conn = Some c" using Suc.prems(3) by auto
    then show ?thesis using drain_stuck [OF Suc.prems(1,2) Nil] by metis
  next
    case (Cons x xs)
    obtain q where q: "queue_trypop (wr_wait s) = Inr ((0, Some x), q)" "wq_inv q" "wq_shutting_down q"
      using trypop_cases(2) [OF qi Cons] Suc.prems(2) by auto
    have "wr_inv (s\<lparr>wr_wait := q\<rparr>)" using Suc.prems(1) q(2) by (simp add: wr_inv_def)
    then obtain s2 where s2: "park reg x (s\<lparr>wr_wait := q\<rparr>) = Inr s2" "wr_inv s2" "wr_wait s2 = q"
      using park_keeps [of "s\<lparr>wr_wait := q\<rparr>" reg x] by auto
    then show ?thesis using q Suc.IH [OF s2(2)] by simp
  qed
qed simp

lemma dispatch_keeps:
  assumes "wr_inv s"
  shows "dispatch es s = Inr Blocks \<or>
     (\<exists>s'. dispatch es s = Inr (Returns () s') \<and> wr_inv s' \<and> wr_fds s' = wr_fds s)"
  using assms
proof (induction es arbitrary: s)
  case (Cons e es)
  have pinv: "pool_inv (wr_pool s)" and wq: "wq_inv (wr_work s)" using Cons.prems by (simp_all add: wr_inv_def)
  show ?case
  proof (cases "\<exists>c \<in> set (pool_list (wr_pool s)). conn_fd c = ev_userdata e")
    case False
    then have "pool_remove_by_fd (wr_pool s) (ev_userdata e) = Inr (0, None, wr_pool s)"
      using remove_by_fd_from_list [OF pinv, of 0 "ev_userdata e"] by (simp add: pool_remove_by_fd_def)
    then show ?thesis using Cons by simp
  next
    case True
    then obtain c p where p: "pool_remove_by_fd (wr_pool s) (ev_userdata e) = Inr (1, Some c, p)" "pool_inv p"
        "add_mset c (mset (pool_list p)) = mset (pool_list (wr_pool s))"
      using remove_by_fd_from_list [OF pinv, of 0 "ev_userdata e"] by (auto simp: pool_remove_by_fd_def)
    let ?s1 = "s\<lparr>wr_pool := p\<rparr>"
    have inv1: "wr_inv ?s1" using Cons.prems p(2) by (simp add: wr_inv_def)
    have fds: "wr_fds s = add_mset (conn_fd c) (wr_fds ?s1)" by (simp add: wr_fds_def flip: p(3))
    show ?thesis
    proof (cases "ev_is_error e")
      case True
      have "wr_inv (wr_close c ?s1)" "wr_fds (wr_close c ?s1) = wr_fds s"
        using inv1 fds by (simp_all add: wr_close_def wr_inv_def wr_fds_def)
      then show ?thesis using Cons.IH [of "wr_close c ?s1"] p(1) True by simp
    next
      case ok: False
      show ?thesis
      proof (cases "wq_count (wr_work s) < wq_capacity (wr_work s)")
        case False
        then have "queue_push (wr_work s) c = Inr Blocks"
          using wq_invD(5) [OF wq] by (simp add: queue_push_def)
        then show ?thesis using p(1) ok by simp
      next
        case True
        obtain q where q: "queue_push (wr_work s) c = Inr (Returns () q)" "wq_inv q" "wq_list q = wq_list (wr_work s) @ [c]"
          using queue_push_room [OF wq True, of c] by metis
        have "wr_inv (?s1\<lparr>wr_work := q\<rparr>)" "wr_fds (?s1\<lparr>wr_work := q\<rparr>) = wr_fds s"
          using inv1 fds q(2,3) by (simp_all add: wr_inv_def wr_fds_def)
        then show ?thesis using Cons.IH [of "?s1\<lparr>wr_work := q\<rparr>"] p(1) ok q(1) by simp
      qed
    qed
  qed
qed simp

lemma sweep_keeps:
  assumes "wr_inv s"
  shows "\<exists>s'. sweep now s = Inr s' \<and> wr_inv s' \<and> wr_fds s' = wr_fds s
     \<and> (\<forall>c \<in> set (pool_list (wr_pool s')). now < conn_keepalive_deadline c)"
proof -
  have pinv: "pool_inv (wr_pool s)" using assms by (simp add: wr_inv_def)
  obtain cs p where r: "pool_sweep_expired (wr_pool s) now = Inr (cs, p)" "pool_inv p"
      "mset cs + mset (pool_list p) = mset (pool_list (wr_pool s))"
      "\<forall>c \<in> set (pool_list p). now < conn_keepalive_deadline c"
    using sweep_from_list [OF pinv, of 0 now] by (auto simp: pool_sweep_expired_def)
  then show ?thesis
    using assms by (simp add: sweep_def wr_inv_def wr_fds_def flip: r(3))
qed

subsection \<open>Properties\<close>

text \<open>Deadlines as the workers set them: at most a \<open>uint16_t\<close> of seconds ahead.\<close>

definition deadlines_ok :: "int \<Rightarrow> conn_t set \<Rightarrow> bool" where
  "deadlines_ok now C \<longleftrightarrow>
     (\<forall>c \<in> C. now - 2 ^ 31 \<le> conn_keepalive_deadline c \<and> conn_keepalive_deadline c \<le> now + 65535)"

lemma poll_timeout_range:
  assumes "pool_inv pool" "deadlines_ok now (set (pool_list pool))"
  shows "\<exists>t. poll_timeout pool now = Inr t \<and> 0 \<le> t \<and> t \<le> MAX_TICK_MS
     \<and> (\<forall>c \<in> set (pool_list pool). now < conn_keepalive_deadline c \<longrightarrow>
          t \<le> (conn_keepalive_deadline c - now) * 1000)"
proof -
  let ?D = "conn_keepalive_deadline ` set (pool_list pool)"
  let ?t = "if pool_list pool = [] then -1 else max 0 ((Min ?D - now) * 1000)"
  have t: "pool_nearest_timeout_ms pool now = Inr ?t"
    using assms by (intro pool_nearest_timeout_value) (simp_all add: deadlines_ok_def)
  have "max 0 ((Min ?D - now) * 1000) \<le> (conn_keepalive_deadline c - now) * 1000"
    if "c \<in> set (pool_list pool)" "now < conn_keepalive_deadline c" for c
  proof -
    have "Min ?D \<le> conn_keepalive_deadline c" using that(1) by (intro Min_le) auto
    with that(2) show ?thesis by simp
  qed
  then show ?thesis unfolding poll_timeout_def t by (auto simp: MAX_TICK_MS_def)
qed

text \<open>
  The wait is never unbounded: the timeout handed to the poller is between 0 and 200 ms,
  and never longer than the time left to any parked connection whose deadline is still ahead.
\<close>

theorem poll_timeout_bounds:
  assumes "pool_inv pool" "deadlines_ok now (set (pool_list pool))"
  shows "\<exists>t. poll_timeout pool now = Inr t \<and> 0 \<le> t \<and> t \<le> 200
     \<and> (\<forall>c \<in> set (pool_list pool). now < conn_keepalive_deadline c \<longrightarrow>
          t \<le> (conn_keepalive_deadline c - now) * 1000)"
  using poll_timeout_range [OF assms] by (simp add: MAX_TICK_MS_def)

theorem poll_timeout_bounds_witness:
  "\<exists>t. poll_timeout example_pool 99 = Inr t \<and> t \<le> 200"
  using poll_timeout_bounds [OF example_pool_inv, of 99]
  by (auto simp: deadlines_ok_def example_pool_list example_conn_def)

lemma turn_conserves:
  assumes "wr_inv s" "\<not> wq_shutting_down (wr_wait s)" "length (wq_list (wr_wait s)) < fuel"
    "deadlines_ok now1 (set (wq_list (wr_wait s)) \<union> set (pool_list (wr_pool s)))"
  shows "wait_room_turn fuel reg answer now1 now2 s = Inr (Some Blocks) \<or>
     (\<exists>s'. wait_room_turn fuel reg answer now1 now2 s = Inr (Some (Returns () s'))
        \<and> wr_inv s' \<and> wr_fds s' = wr_fds s
        \<and> (\<forall>c \<in> set (pool_list (wr_pool s')). now2 < conn_keepalive_deadline c))"
proof -
  obtain s1 where s1: "drain fuel reg None s = Inr (Some s1)" "wr_inv s1" "wr_fds s1 = wr_fds s"
      "set (pool_list (wr_pool s1)) \<subseteq> set (wq_list (wr_wait s)) \<union> set (pool_list (wr_pool s))"
    using drain_all [OF assms(1-3)] by blast
  have "deadlines_ok now1 (set (pool_list (wr_pool s1)))" using assms(4) s1(4) by (auto simp: deadlines_ok_def)
  then obtain t where t: "poll_timeout (wr_pool s1) now1 = Inr t"
    using poll_timeout_range s1(2) unfolding wr_inv_def by metis
  consider "dispatch (snd (io_watcher_wait answer)) s1 = Inr Blocks"
    | s2 where "dispatch (snd (io_watcher_wait answer)) s1 = Inr (Returns () s2)" "wr_inv s2" "wr_fds s2 = wr_fds s1"
    using dispatch_keeps [OF s1(2)] by blast
  then show ?thesis
  proof cases
    case 1
    then show ?thesis by (simp add: wait_room_turn_def s1(1) t)
  next
    case 2
    obtain s3 where "sweep now2 s2 = Inr s3" "wr_inv s3" "wr_fds s3 = wr_fds s2"
        "\<forall>c \<in> set (pool_list (wr_pool s3)). now2 < conn_keepalive_deadline c"
      using sweep_keeps [OF 2(2)] by blast
    with 2 s1(3) show ?thesis by (simp add: wait_room_turn_def s1(1) t)
  qed
qed


definition example_wait_room :: wait_room where
  "example_wait_room = \<lparr>
     wr_wait = \<lparr>wq_buf = [Some (example_conn 9 130)], wq_capacity = 1, wq_head = 0, wq_tail = 0, wq_count = 1,
       wq_shutting_down = False\<rparr>,
     wr_work = \<lparr>wq_buf = [None], wq_capacity = 1, wq_head = 0, wq_tail = 0, wq_count = 0,
       wq_shutting_down = False\<rparr>,
     wr_pool = example_pool, wr_watch = (\<lambda>_. None), wr_closed = []\<rparr>"

lemma example_wait_room_inv:
  "wr_inv example_wait_room" "wq_list (wr_wait example_wait_room) = [example_conn 9 130]"
  "\<not> wq_shutting_down (wr_wait example_wait_room)"
  by (simp_all add: example_wait_room_def wr_inv_def example_pool_inv wq_inv_def wq_list_def wq_cells_def ring_seg_def)




end
