(* ===== verification/System.thy ===== *)
theory System
  imports Worker WaitRoom
begin

text \<open>
  The thread pool as a whole (\<open>src/threadpool.c\<close>): listener, worker and wait-room threads around the
  two connection queues, in any interleaving.  The steps are the operations of theories \<open>Socket\<close>,
  \<open>ConnQueue\<close>, \<open>Worker\<close> and \<open>WaitRoom\<close>; the invariant follows every accepted descriptor to the one
  place where it is.
\<close>

subsection \<open>The listener\<close>

datatype listener_next =
    Pushed conn_t        \<comment> \<open>on the work queue\<close>
  | Slept conn_t         \<comment> \<open>\<open>accept_connection\<close> failed: sleep and go on\<close>
  | Stopped conn_t bool  \<comment> \<open>shutting down; whether the descriptor was closed\<close>

text \<open>
  One round of \<open>listener_thread\<close>; the first flag is \<open>shutting_down\<close> as \<open>accept_connection\<close> reads it, the
  second as the thread reads it afterwards.
\<close>

definition listener_round ::
  "bool \<Rightarrow> bool \<Rightarrow> int \<Rightarrow> peer \<Rightarrow> bool \<Rightarrow> nat option \<Rightarrow> bool \<Rightarrow> conn_t work_queue_t
     \<Rightarrow> (listener_next, conn_t work_queue_t) outcome result" where
  "listener_round shut1 shut2 fd peer is_tls ssl_new set_fd_ok q =
     (let (rv, conn, msgs) = accept_connection shut1 fd peer is_tls ssl_new set_fd_ok zero_conn
      in if shut2 then Inr (Returns (Stopped conn (conn_fd conn > 0)) q)
         else if rv \<noteq> 0 then Inr (Returns (Slept conn) q)
         else bindR (queue_push q conn) (\<lambda>r.
                (case r of
                   Blocks \<Rightarrow> Inr Blocks
                 | Returns _ q' \<Rightarrow> Inr (Returns (Pushed conn) q'))))"

lemma accepted_fd:
  "accept_connection shut fd peer is_tls ssl_new set_fd_ok zero_conn = (rv, conn, msgs) \<Longrightarrow> 0 \<le> fd \<Longrightarrow>
     conn_fd conn = fd"
  by (auto simp: accept_connection_def Let_def split: if_splits peer.splits)

subsection \<open>The system\<close>

text \<open>
  The queues, the pool and the closed connections are those of the wait room; besides, the connections
  the workers hold, the descriptors accepted so far, and those dropped without being closed.
\<close>

record system = wait_room +
  sys_held :: "conn_t multiset"
  sys_accepted :: "int multiset"
  sys_leaked :: "int multiset"

definition room_of :: "system \<Rightarrow> wait_room" where
  "room_of s = wait_room.truncate s"

definition with_room :: "system \<Rightarrow> wait_room \<Rightarrow> system" where
  "with_room s r = wait_room.extend r \<lparr>sys_held = sys_held s, sys_accepted = sys_accepted s, sys_leaked = sys_leaked s\<rparr>"

inductive sys_step :: "system \<Rightarrow> system \<Rightarrow> bool" where
  accept_push: "0 \<le> fd \<Longrightarrow>
     listener_round False False fd peer tls ssl ok (wr_work s) = Inr (Returns (Pushed c) q) \<Longrightarrow>
     sys_step s (s\<lparr>wr_work := q, sys_accepted := add_mset fd (sys_accepted s)\<rparr>)"
| accept_failed: "0 \<le> fd \<Longrightarrow>
     listener_round False False fd peer tls ssl ok (wr_work s) = Inr (Returns (Slept c) q) \<Longrightarrow>
     sys_step s (s\<lparr>sys_accepted := add_mset fd (sys_accepted s), sys_leaked := add_mset fd (sys_leaked s)\<rparr>)"
| accept_stop: "0 \<le> fd \<Longrightarrow>
     listener_round b True fd peer tls ssl ok (wr_work s) = Inr (Returns (Stopped c cl) q) \<Longrightarrow>
     sys_step s (if cl then s\<lparr>sys_accepted := add_mset fd (sys_accepted s), wr_closed := wr_closed s @ [c]\<rparr>
                 else s\<lparr>sys_accepted := add_mset fd (sys_accepted s), sys_leaked := add_mset fd (sys_leaked s)\<rparr>)"
| worker_take: "queue_pop (wr_work s) = Inr (Returns (0, Some c) q) \<Longrightarrow>
     sys_step s (s\<lparr>wr_work := q, sys_held := add_mset c (sys_held s)\<rparr>)"
| worker_close: "c \<in># sys_held s \<Longrightarrow> worker_round we c = Inr (Returns k acts) \<Longrightarrow> closes c acts \<Longrightarrow>
     sys_step s (s\<lparr>sys_held := sys_held s - {#c#}, wr_closed := wr_closed s @ [c]\<rparr>)"
| worker_park: "c \<in># sys_held s \<Longrightarrow> worker_round we c = Inr (Returns k acts) \<Longrightarrow>
     disposals acts = [Act_park c'] \<Longrightarrow> same_peer c c' \<Longrightarrow>
     queue_push (wr_wait s) c' = Inr (Returns () q) \<Longrightarrow>
     sys_step s (s\<lparr>sys_held := sys_held s - {#c#}, wr_wait := q\<rparr>)"
| room_turn: "wait_room_turn fuel reg answer now1 now2 (room_of s) = Inr (Some (Returns () r)) \<Longrightarrow>
     sys_step s (with_room s r)"
| flag_wait: "sys_step s (s\<lparr>wr_wait := (wr_wait s)\<lparr>wq_shutting_down := True\<rparr>\<rparr>)"
| flag_work: "sys_step s (s\<lparr>wr_work := (wr_work s)\<lparr>wq_shutting_down := True\<rparr>\<rparr>)"

subsection \<open>The invariant\<close>

definition sys_inv :: "system \<Rightarrow> bool" where
  "sys_inv s \<longleftrightarrow> wr_inv (room_of s)
     \<and> sys_accepted s = wr_fds (room_of s) + image_mset conn_fd (sys_held s) + sys_leaked s"

lemma room_of_simps [simp]:
  "wr_wait (room_of s) = wr_wait s" "wr_work (room_of s) = wr_work s" "wr_pool (room_of s) = wr_pool s"
  "wr_closed (room_of s) = wr_closed s" "wr_watch (room_of s) = wr_watch s"
  by (simp_all add: room_of_def wait_room.truncate_def)

lemma with_room_simps [simp]:
  "room_of (with_room s r) = r" "sys_held (with_room s r) = sys_held s"
  "sys_accepted (with_room s r) = sys_accepted s" "sys_leaked (with_room s r) = sys_leaked s"
  by (simp_all add: with_room_def room_of_def wait_room.truncate_def wait_room.extend_def)

lemma outcome_case_eq:
  "(case x of Blocks \<Rightarrow> b | Returns r s \<Rightarrow> f r s) = v
     \<longleftrightarrow> x = Blocks \<and> b = v \<or> (\<exists>r s. x = Returns r s \<and> f r s = v)"
  by (cases x) auto

lemma drain_some_keeps:
  assumes "wr_inv s" "drain n reg conn s = Inr (Some s')"
  shows "wr_inv s' \<and> wr_fds s' = wr_fds s"
  using assms
proof (induction n arbitrary: conn s)
  case (Suc n)
  have qi: "wq_inv (wr_wait s)" using Suc.prems by (simp add: wr_inv_def)
  show ?case
  proof (cases "wq_list (wr_wait s)")
    case Nil
    then have "\<not> wq_shutting_down (wr_wait s)"
      using Suc.prems drain_shutdown [OF Suc.prems(1), of conn "Suc n" reg] trypop_cases(1) [OF qi Nil]
      by (cases conn) auto
    then show ?thesis using Suc.prems trypop_cases(1) [OF qi Nil] by simp
  next
    case (Cons x xs)
    obtain q where q: "queue_trypop (wr_wait s) = Inr ((0, Some x), q)" "wq_inv q" "wq_list q = xs"
      using trypop_cases(2) [OF qi Cons] by auto
    let ?s1 = "s\<lparr>wr_wait := q\<rparr>"
    have inv1: "wr_inv ?s1" using Suc.prems(1) q(2) by (simp add: wr_inv_def)
    obtain s2 where s2: "park reg x ?s1 = Inr s2" "wr_inv s2" "wr_fds s2 = add_mset (conn_fd x) (wr_fds ?s1)"
      using park_keeps [OF inv1, of reg x] by auto
    have "wr_fds s2 = wr_fds s" using s2(3) wr_fds_pop [of s x q] Cons q(3) by simp
    moreover have "drain n reg (Some x) s2 = Inr (Some s')" using Suc.prems(2) q(1) s2(1) by simp
    ultimately show ?thesis using Suc.IH [OF s2(2)] by simp
  qed
qed simp

lemma turn_keeps:
  assumes "wr_inv s" "wait_room_turn fuel reg answer now1 now2 s = Inr (Some (Returns () s'))"
  shows "wr_inv s' \<and> wr_fds s' = wr_fds s"
proof -
  obtain s1 s2 where d: "drain fuel reg None s = Inr (Some s1)"
      "dispatch (snd (io_watcher_wait answer)) s1 = Inr (Returns () s2)" "sweep now2 s2 = Inr s'"
    using assms(2) by (auto simp: wait_room_turn_def bindR_Inr_iff outcome_case_eq split: option.splits)
  have 1: "wr_inv s1 \<and> wr_fds s1 = wr_fds s" by (rule drain_some_keeps [OF assms(1) d(1)])
  then have 2: "wr_inv s2 \<and> wr_fds s2 = wr_fds s"
    using dispatch_keeps [of s1 "snd (io_watcher_wait answer)"] d(2) by auto
  then show ?thesis using sweep_keeps [of s2 now2] d(3) by auto
qed

lemma queue_pop_item:
  assumes "wq_inv q" "queue_pop q = Inr (Returns (0, Some c) q')"
  shows "wq_inv q' \<and> wq_list q = c # wq_list q'"
proof (cases "wq_list q")
  case Nil
  then show ?thesis using assms by (simp add: wq_list_Nil queue_pop_def split: if_splits)
next
  case (Cons x xs)
  then have ne: "0 < wq_count q"
    by (metis length_wq_list length_greater_0_conv list.distinct(1))
  obtain y q1 where "take_head q = Inr (y, q1)" "wq_inv q1" "wq_list q = y # wq_list q1"
    using take_head_item [OF assms(1) ne] by metis
  then show ?thesis using assms(2) ne by (simp add: queue_pop_def)
qed

lemma queue_push_item:
  assumes "wq_inv q" "queue_push q c = Inr (Returns () q')"
  shows "wq_inv q' \<and> wq_list q' = wq_list q @ [c]"
proof (cases "wq_count q < wq_capacity q")
  case True
  then show ?thesis using queue_push_room [OF assms(1) True, of c] assms(2) by fastforce
next
  case False
  then show ?thesis using assms wq_invD(5) [OF assms(1)] by (simp add: queue_push_def)
qed

lemma listener_pushed:
  assumes "listener_round a b fd peer tls ssl ok q = Inr (Returns (Pushed c) q')" "0 \<le> fd"
  shows "conn_fd c = fd \<and> queue_push q c = Inr (Returns () q')"
  using assms accepted_fd [of a fd peer tls ssl ok]
  by (auto simp: listener_round_def bindR_Inr_iff outcome_case_eq Let_def split: prod.splits if_splits)

lemma listener_stopped:
  assumes "listener_round a b fd peer tls ssl ok q = Inr (Returns (Stopped c cl) q')" "0 \<le> fd"
  shows "conn_fd c = fd \<and> q' = q"
  using assms accepted_fd [of a fd peer tls ssl ok]
  by (auto simp: listener_round_def bindR_Inr_iff outcome_case_eq Let_def split: prod.splits if_splits)

lemma held_out: "c \<in># M \<Longrightarrow> image_mset conn_fd M = add_mset (conn_fd c) (image_mset conn_fd (M - {#c#}))"
  by (metis image_mset_add_mset insert_DiffM)

lemma wq_flag [simp]:
  "wq_inv (q\<lparr>wq_shutting_down := b\<rparr>) = wq_inv q" "wq_list (q\<lparr>wq_shutting_down := b\<rparr>) = wq_list q"
  by (simp_all add: wq_inv_def wq_list_def wq_cells_def)

lemma sys_inv_unfold:
  "sys_inv s \<longleftrightarrow> wq_inv (wr_wait s) \<and> wq_inv (wr_work s) \<and> pool_inv (wr_pool s)
     \<and> sys_accepted s = image_mset conn_fd (mset (wq_list (wr_wait s)) + mset (pool_list (wr_pool s))
         + mset (wq_list (wr_work s)) + mset (wr_closed s)) + image_mset conn_fd (sys_held s) + sys_leaked s"
  by (simp add: sys_inv_def wr_inv_def wr_fds_def)

lemma sys_step_inv: "sys_step s s' \<Longrightarrow> sys_inv s \<Longrightarrow> sys_inv s'"
proof (induction rule: sys_step.induct)
  case (accept_push fd peer tls ssl ok s c q)
  then show ?case
    using listener_pushed [OF accept_push(2,1)] queue_push_item [of "wr_work s" c q]
    by (simp add: sys_inv_unfold)
next
  case (accept_failed fd peer tls ssl ok s c q)
  then show ?case by (simp add: sys_inv_unfold)
next
  case (accept_stop fd b peer tls ssl ok s c cl q)
  then show ?case
    using listener_stopped [OF accept_stop(2,1)] by (simp add: sys_inv_unfold)
next
  case (worker_take s c q)
  then show ?case
    using queue_pop_item [of "wr_work s" c q] by (simp add: sys_inv_unfold)
next
  case (worker_close c s we k acts)
  then show ?case
    using held_out [OF worker_close(1)] by (simp add: sys_inv_unfold)
next
  case (worker_park c s we k acts c' q)
  then show ?case
    using held_out [OF worker_park(1)] queue_push_item [of "wr_wait s" c' q]
    by (simp add: sys_inv_unfold same_peer_def)
next
  case (room_turn fuel reg answer now1 now2 s r)
  then show ?case
    using turn_keeps [of "room_of s" fuel reg answer now1 now2 r] by (simp add: sys_inv_def)
next
  case (flag_wait s)
  then show ?case by (simp add: sys_inv_unfold)
next
  case (flag_work s)
  then show ?case by (simp add: sys_inv_unfold)
qed

lemma sys_reachable_inv: "sys_step\<^sup>*\<^sup>* s s' \<Longrightarrow> sys_inv s \<Longrightarrow> sys_inv s'"
  by (induction rule: rtranclp_induct) (auto intro: sys_step_inv)

text \<open>The state after \<open>worker_init\<close>: both queues and the pool empty.\<close>

definition started :: "system \<Rightarrow> bool" where
  "started s \<longleftrightarrow> wq_inv (wr_wait s) \<and> wq_list (wr_wait s) = [] \<and> wq_inv (wr_work s) \<and> wq_list (wr_work s) = []
     \<and> pool_inv (wr_pool s) \<and> pool_list (wr_pool s) = [] \<and> wr_closed s = []
     \<and> sys_held s = {#} \<and> sys_accepted s = {#} \<and> sys_leaked s = {#}"

lemma started_inv: "started s \<Longrightarrow> sys_inv s"
  by (simp add: started_def sys_inv_unfold)

text \<open>
  In every reachable state, under any interleaving of the listeners, any number of workers
  and the wait room, and whatever clients and kernel do, each accepted descriptor is in exactly one
  place: on the work queue, with a worker, on the wait queue, in the pool, closed - and closed no more
  often than accepted - or dropped by a failed \<open>accept_connection\<close>, which leaks it.
\<close>

theorem descriptors_in_one_place:
  assumes "started s0" "sys_step\<^sup>*\<^sup>* s0 s"
  shows "sys_accepted s = image_mset conn_fd (mset (wq_list (wr_work s)) + sys_held s
      + mset (wq_list (wr_wait s)) + mset (pool_list (wr_pool s)) + mset (wr_closed s)) + sys_leaked s"
proof -
  have "sys_inv s" by (rule sys_reachable_inv [OF assms(2) started_inv [OF assms(1)]])
  then show ?thesis by (simp add: sys_inv_unfold ac_simps)
qed

definition example_system :: system where
  "example_system = \<lparr>
     wr_wait = \<lparr>wq_buf = [None], wq_capacity = 1, wq_head = 0, wq_tail = 0, wq_count = 0, wq_shutting_down = False\<rparr>,
     wr_work = \<lparr>wq_buf = [None], wq_capacity = 1, wq_head = 0, wq_tail = 0, wq_count = 0, wq_shutting_down = False\<rparr>,
     wr_pool = \<lparr>pool_items = [None], pool_count = 0, pool_capacity = 1\<rparr>, wr_watch = (\<lambda>_. None), wr_closed = [],
     sys_held = {#}, sys_accepted = {#}, sys_leaked = {#}\<rparr>"

lemma example_started: "started example_system"
  by (simp add: started_def example_system_def wq_inv_def wq_list_def wq_cells_def pool_inv_def pool_list_def)

theorem descriptors_in_one_place_witness:
  "\<exists>s. sys_step\<^sup>*\<^sup>* example_system s \<and> sys_accepted s = {#5#}
     \<and> image_mset conn_fd (mset (wq_list (wr_work s)) + sys_held s + mset (wq_list (wr_wait s))
         + mset (pool_list (wr_pool s)) + mset (wr_closed s)) + sys_leaked s = {#5#}"
proof -
  let ?c = "zero_conn\<lparr>conn_fd := 5\<rparr>"
  let ?q = "(wr_work example_system)\<lparr>wq_buf := [Some ?c], wq_tail := 0, wq_count := 1\<rparr>"
  let ?s = "example_system\<lparr>wr_work := ?q, sys_accepted := add_mset 5 (sys_accepted example_system)\<rparr>"
  have "listener_round False False 5 Other_family False None True (wr_work example_system) = Inr (Returns (Pushed ?c) ?q)"
    by (simp add: listener_round_def accept_connection_def queue_push_def write_cell_def next_index_def
        example_system_def zero_conn_def Let_def)
  then have "sys_step example_system ?s" by (rule sys_step.accept_push [rotated]) simp
  then have r: "sys_step\<^sup>*\<^sup>* example_system ?s" by simp
  moreover have "sys_accepted ?s = {#5#}" by (simp add: example_system_def)
  ultimately show ?thesis using descriptors_in_one_place [OF example_started r] by metis
qed

subsection \<open>Shutting down\<close>

text \<open>
  What a worker pops from a queue nobody pushes to, in at most \<open>n\<close> calls; the flag says that its loop
  has ended.
\<close>

fun worker_pops :: "nat \<Rightarrow> 'a work_queue_t \<Rightarrow> ('a list \<times> bool) result" where
  "worker_pops 0 q = Inr ([], False)"
| "worker_pops (Suc n) q =
     bindR (queue_pop q) (\<lambda>r.
       (case r of
          Returns (k, Some x) q' \<Rightarrow> if k = 0 then bindR (worker_pops n q') (\<lambda>(xs, b). Inr (x # xs, b)) else Inr ([], True)
        | Returns (k, None) q' \<Rightarrow> Inr ([], True)
        | Blocks \<Rightarrow> Inr ([], False)))"

text \<open>
  Once the work queue says it is shutting down, a worker that keeps popping gets every
  connection still queued, in order, and its loop then ends: it never sleeps and drops none.
\<close>

theorem shutdown_drains_queue:
  assumes "wq_inv q" "wq_shutting_down q" "length (wq_list q) < n"
  shows "worker_pops n q = Inr (wq_list q, True)"
  using assms
proof (induction n arbitrary: q)
  case (Suc n)
  show ?case
  proof (cases "wq_list q")
    case Nil
    then have "wq_count q = 0" by (simp add: wq_list_Nil)
    with Nil show ?thesis using Suc.prems(2) by (simp add: queue_pop_def)
  next
    case (Cons x xs)
    then have ne: "0 < wq_count q"
      by (metis length_wq_list length_greater_0_conv list.distinct(1))
    obtain y q1 where q1: "take_head q = Inr (y, q1)" "wq_inv q1" "wq_list q = y # wq_list q1"
        "wq_shutting_down q1 = wq_shutting_down q"
      using take_head_item [OF Suc.prems(1) ne] by metis
    then have "worker_pops n q1 = Inr (wq_list q1, True)"
      using Suc.IH [OF q1(2)] Suc.prems by simp
    then show ?thesis using q1 ne by (simp add: queue_pop_def)
  qed
qed simp

theorem shutdown_drains_queue_witness:
  "worker_pops 5 (sample_queue\<lparr>wq_shutting_down := True\<rparr>) = Inr ([7], True)"
  using shutdown_drains_queue [of "sample_queue\<lparr>wq_shutting_down := True\<rparr>" 5] sample_queue_inv by simp

end
