(* ===== verification/Startup.thy ===== *)
theory Startup
  imports Config Paths Privileges System Logger
begin

text \<open>
  From \<open>main\<close> to the running thread pool and back: the path of the configuration file, the TLS context
  and the shutdown (\<open>src/server.c\<close>), \<open>worker_init\<close> (\<open>src/threadpool.c\<close>) and the start-up sequence
  (\<open>src/main.c\<close>).  What the system answers along the way is an argument of each operation.
\<close>

subsection \<open>The command line\<close>

text \<open>The options \<open>getopt_long\<close> delivers, in order.\<close>

datatype cli_opt = Opt_version | Opt_help | Opt_config string | Opt_verbose | Opt_unknown

text \<open>The loop over the options: an exit status, or \<open>cli_path\<close> after it.\<close>

fun scan_options :: "cli_opt list \<Rightarrow> string option \<Rightarrow> int + string option" where
  "scan_options [] cli_path = Inr cli_path"
| "scan_options (Opt_version # os) cli_path = Inl 0"
| "scan_options (Opt_help # os) cli_path = Inl 0"
| "scan_options (Opt_config p # os) cli_path = scan_options os (Some p)"
| "scan_options (Opt_verbose # os) cli_path = scan_options os cli_path"
| "scan_options (Opt_unknown # os) cli_path = Inl 1"

definition DEFAULT_CONFIG_PATH :: string where
  "DEFAULT_CONFIG_PATH = ''/etc/celeritas/celeritas.conf''"

text \<open>The text left in \<open>active_config_path\<close>, an array of \<open>PATH_MAX\<close> bytes.\<close>

definition resolve_config_path :: "cli_opt list \<Rightarrow> string option \<Rightarrow> int + string" where
  "resolve_config_path os env_path =
     (case scan_options os None of
        Inl status \<Rightarrow> Inl status
      | Inr cli_path \<Rightarrow>
          let p = (case cli_path of
                     Some c \<Rightarrow> c
                   | None \<Rightarrow> (case env_path of Some e \<Rightarrow> e | None \<Rightarrow> DEFAULT_CONFIG_PATH))
          in Inr (cstr (strncpy p (PATH_MAX - 1) @ [NUL])))"

lemma scan_options_paths:
  "\<forall>a \<in> set os. a = Opt_verbose \<or> (\<exists>p. a = Opt_config p) \<Longrightarrow>
     scan_options os d = Inr (if \<exists>p. Opt_config p \<in> set os
                              then Some (last (List.map_filter (\<lambda>a. case a of Opt_config p \<Rightarrow> Some p | _ \<Rightarrow> None) os)) else d)"
proof (induction os arbitrary: d)
  case (Cons a os)
  then consider "a = Opt_verbose" | p where "a = Opt_config p" by auto
  then show ?case
  proof cases
    case 1
    with Cons show ?thesis by (simp add: List.map_filter_def)
  next
    case 2
    have "List.map_filter (\<lambda>a. case a of Opt_config p \<Rightarrow> Some p | _ \<Rightarrow> None) os = []
      \<longleftrightarrow> \<not> (\<exists>p. Opt_config p \<in> set os)"
      by (auto simp: List.map_filter_def filter_empty_conv split: cli_opt.splits)
    with Cons 2 show ?thesis by (auto simp: List.map_filter_def)
  qed
qed simp

subsection \<open>The TLS context\<close>

datatype ssl_call = C_new | C_min_tls12 | C_certificate | C_private_key | C_check_key

text \<open>\<open>init_ssl_context\<close>: whether a context is returned, and the calls made.\<close>

definition init_ssl_context :: "bool \<Rightarrow> bool \<Rightarrow> bool \<Rightarrow> bool \<Rightarrow> bool \<times> ssl_call list" where
  "init_ssl_context new_ok cert_ok key_ok match_ok =
     (if \<not> new_ok then (False, [C_new])
      else if \<not> cert_ok then (False, [C_new, C_min_tls12, C_certificate])
      else if \<not> key_ok then (False, [C_new, C_min_tls12, C_certificate, C_private_key])
      else (match_ok, [C_new, C_min_tls12, C_certificate, C_private_key, C_check_key]))"

text \<open>A context that is returned refuses everything older than TLS 1.2 and has a matching key.\<close>

lemma init_ssl_context_safe:
  "fst (init_ssl_context a b c d) \<longleftrightarrow> a \<and> b \<and> c \<and> d"
  "fst (init_ssl_context a b c d) \<Longrightarrow> {C_min_tls12, C_check_key} \<subseteq> set (snd (init_ssl_context a b c d))"
  by (auto simp: init_ssl_context_def split: if_splits)

subsection \<open>The thread pool\<close>

record server_t =
  sv_lock_file :: string
  sv_n_workers :: nat
  sv_http_fd :: int
  sv_https_fd :: int
  sv_work_queue :: "conn_t work_queue_t"
  sv_wait_queue :: "conn_t work_queue_t"

text \<open>
  \<open>worker_init\<close>: the four allocations (each queue and its buffer), and \<open>g\<close>, what \<open>malloc\<close> leaves in a
  queue record.  \<open>None\<close> is a call of \<open>server_shutdown\<close>.  A failed buffer is only logged.
\<close>

definition worker_init ::
  "config_data \<Rightarrow> string \<Rightarrow> int \<Rightarrow> int \<Rightarrow> bool \<times> bool \<times> bool \<times> bool \<Rightarrow> conn_t work_queue_t \<Rightarrow> server_t option" where
  "worker_init conf lock http_sock https_sock mem g =
     (let cap = unat (conn_queue_size conf); n = unat (worker_threads conf);
          (work_ok, work_buf_ok, wait_ok, wait_buf_ok) = mem
      in if \<not> work_ok then None
         else
           let (r1, work) = queue_init work_buf_ok cap (g\<lparr>wq_buf := []\<rparr>)
           in if \<not> wait_ok then None
              else
                let (r2, wait) = queue_init wait_buf_ok cap (g\<lparr>wq_buf := []\<rparr>)
                in Some \<lparr>sv_lock_file = take (PATH_MAX - 1) lock, sv_n_workers = n, sv_http_fd = http_sock,
                         sv_https_fd = https_sock, sv_work_queue = work, sv_wait_queue = wait\<rparr>)"

subsection \<open>Signals and shutdown\<close>

datatype thread_id = T_http_listener | T_https_listener | T_wait_room | T_worker nat

datatype shut_act =
    Sh_set_flag | Sh_close int | Sh_join thread_id
  | Sh_flag_wait | Sh_signal_wait | Sh_flag_work | Sh_broadcast_work
  | Sh_free_queues | Sh_unlink string | Sh_cleanup_config | Sh_logger_shutdown | Sh_exit int
  | Sh_log string

definition server_shutdown :: "server_t \<Rightarrow> int \<Rightarrow> shut_act list" where
  "server_shutdown sv status =
     [Sh_log ''server shutdown starting'', Sh_set_flag,
      Sh_close (sv_http_fd sv), Sh_close (sv_https_fd sv), Sh_join T_http_listener, Sh_join T_https_listener,
      Sh_flag_wait, Sh_signal_wait, Sh_join T_wait_room, Sh_flag_work, Sh_broadcast_work]
     @ map (\<lambda>i. Sh_join (T_worker i)) [0..<sv_n_workers sv]
     @ [Sh_free_queues, Sh_unlink (sv_lock_file sv), Sh_cleanup_config,
        Sh_log ''server shutdown complete'', Sh_logger_shutdown, Sh_exit status]"

datatype signal_no = SIGHUP | SIGTERM | Other_signal int

datatype signal_act = Sig_reload | Sig_shutdown int | Sig_log string

text \<open>
  \<open>thr_sig_handler\<close> against what \<open>sigwait\<close> returns and delivers, one pair per round;
  \<open>server_shutdown\<close> does not return.
\<close>

fun thr_sig_handler :: "(int \<times> signal_no) list \<Rightarrow> signal_act list" where
  "thr_sig_handler [] = []"
| "thr_sig_handler ((ret, s) # rest) =
     (if ret \<noteq> 0 then [Sig_log ''sigwait failed'', Sig_shutdown 1]
      else (case s of
              SIGHUP \<Rightarrow> Sig_log ''server received SIGHUP'' # Sig_reload # thr_sig_handler rest
            | SIGTERM \<Rightarrow> [Sig_log ''server received SIGTERM'', Sig_shutdown 0]
            | Other_signal n \<Rightarrow> Sig_log ''unexpected signal'' # thr_sig_handler rest))"

subsection \<open>The main program\<close>

record main_env =
  me_options :: "cli_opt list"
  me_env_conf :: "string option"
  me_config :: "bool \<times> bool \<times> bool"
  me_file :: "string \<Rightarrow> string option"      \<comment> \<open>the configuration file's bytes, if it can be opened\<close>
  me_strerror :: string
  me_nprocs :: int
  me_argv0 :: string
  me_ssl :: "bool \<times> bool \<times> bool \<times> bool"
  me_paths :: path_env
  me_event_fd :: int
  me_access_fd :: int
  me_http :: "bool \<times> addr_answer list \<times> bool"
  me_https :: "bool \<times> addr_answer list \<times> bool"
  me_daemon :: "int \<times> int \<times> bool \<times> int"
  me_lock_fd :: int
  me_lock :: lock_answer
  me_lock_io :: "bool \<times> bool"
  me_pid :: int
  me_cred :: cred
  me_groups :: "nat option"
  me_users :: "nat option"
  me_member_of :: "nat set"
  me_logger :: "bool \<times> bool \<times> bool"
  me_sig_thread :: bool
  me_mem :: "bool \<times> bool \<times> bool \<times> bool"
  me_garbage :: "conn_t work_queue_t"

datatype main_end =
    Ended int
  | Broken fault
  | Shut_down int                        \<comment> \<open>\<open>server_shutdown\<close> called before the threads exist\<close>
  | Running server_t logger_t cred config_data

text \<open>The program's name, for the lock file: what follows the last slash of \<open>argv[0]\<close>.\<close>

definition program_name :: "string \<Rightarrow> string" where
  "program_name argv0 = (case strrchr argv0 (CHR ''/'') of None \<Rightarrow> argv0 | Some s \<Rightarrow> tl s)"

definition lock_path :: "config_data \<Rightarrow> string \<Rightarrow> string" where
  "lock_path conf cmd = lock_file_path conf @ ''/'' @ cmd @ ''.pid''"

text \<open>The last part of \<open>main\<close>, in the daemon, once it has the lock and its final credentials.\<close>

definition start_threads :: "main_env \<Rightarrow> config_data \<Rightarrow> int \<Rightarrow> int \<Rightarrow> cred \<Rightarrow> main_end" where
  "start_threads me conf http_sock https_sock c =
     (let (ring_ok, entries_ok, thread_ok) = me_logger me
      in (case logger_init (log_queue_size conf) (me_access_fd me) (me_event_fd me) ring_ok entries_ok thread_ok of
            None \<Rightarrow> Ended 1
          | Some lg \<Rightarrow>
              let lg1 = lg\<lparr>lg_server_pid := me_pid me\<rparr>
              in if \<not> me_sig_thread me then Shut_down 1
                 else (case worker_init conf (lock_path conf (program_name (me_argv0 me))) http_sock https_sock
                              (me_mem me) (me_garbage me) of
                         None \<Rightarrow> Shut_down 1
                       | Some sv \<Rightarrow> Running sv lg1 c conf)))"

text \<open>From the lock file to the credentials.\<close>

definition guard_process :: "main_env \<Rightarrow> config_data \<Rightarrow> int \<Rightarrow> int \<Rightarrow> main_end" where
  "guard_process me conf http_sock https_sock =
     (if PATH_MAX \<le> snprintf_ret (lock_path conf (program_name (me_argv0 me))) then Ended 1
      else if fst (already_running (me_lock_fd me) (me_lock me) (fst (me_lock_io me)) (snd (me_lock_io me)) (me_pid me)) \<noteq> 0
      then Ended 1
      else if c_uid (me_cred me) = 0
      then (let (ret, c) = drop_privileges (me_groups me) (me_users me) (me_member_of me) (me_cred me)
            in if ret < 0 then Ended 1 else start_threads me conf http_sock https_sock c)
      else start_threads me conf http_sock https_sock (me_cred me))"

definition call_listener :: "bool \<times> addr_answer list \<times> bool \<Rightarrow> int" where
  "call_listener a = (case a of (gai_ok, addrs, listen_ok) \<Rightarrow> fst (create_listener gai_ok addrs listen_ok))"

definition main_program :: "main_env \<Rightarrow> main_end" where
  "main_program me =
     (case resolve_config_path (me_options me) (me_env_conf me) of
        Inl status \<Rightarrow> Ended status
      | Inr path \<Rightarrow> (case init_config (me_config me) path (me_file me path) (me_strerror me) (me_nprocs me) of
          Exits n m \<Rightarrow> Ended n
        | Faults f \<Rightarrow> Broken f
        | Continues conf \<Rightarrow>
            (let (s1, s2, s3, s4) = me_ssl me
             in if \<not> fst (init_ssl_context s1 s2 s3 s4) then Ended 1
             else if snd (validate_path (me_paths me) (event_log conf)) \<noteq> None then Ended 1
             else if snd (validate_path (me_paths me) (access_log conf)) \<noteq> None then Ended 1
             else if me_event_fd me < 0 \<or> me_access_fd me < 0 then Ended 1
             else
               let http_sock = call_listener (me_http me); https_sock = call_listener (me_https me)
               in if http_sock < 0 \<or> https_sock < 0 then Ended 1
               else
                 let (f1, f2, cd, dn) = me_daemon me
                 in (case snd (daemonize f1 f2 cd dn) of
                       Exits_with n \<Rightarrow> Ended n
                     | Is_daemon \<Rightarrow> guard_process me conf http_sock https_sock))))"

subsection \<open>What holds once the server runs\<close>

lemma start_threads_running:
  "start_threads me conf h t c = Running sv lg c' conf' \<Longrightarrow> c' = c \<and> conf' = conf
     \<and> sv_http_fd sv = h \<and> sv_https_fd sv = t \<and> sv_n_workers sv = unat (worker_threads conf)
     \<and> sv_lock_file sv = take (PATH_MAX - 1) (lock_path conf (program_name (me_argv0 me)))
     \<and> lg_event_fd lg = me_event_fd me \<and> lg_access_fd lg = me_access_fd me
     \<and> worker_init conf (lock_path conf (program_name (me_argv0 me))) h t (me_mem me) (me_garbage me) = Some sv"
  by (auto simp: start_threads_def logger_init_def worker_init_def Let_def
      split: prod.splits option.splits if_splits)

lemma guard_process_running:
  assumes "guard_process me conf h t = Running sv lg c conf'"
  shows "length (lock_path conf (program_name (me_argv0 me))) < PATH_MAX"
    and "0 \<le> me_lock_fd me \<and> me_lock me = Lock_taken"
    and "c_uid (me_cred me) = 0 \<Longrightarrow> \<exists>ug. drop_privileges (me_groups me) (me_users me) (me_member_of me) (me_cred me) = (ug, c) \<and> 0 \<le> ug"
    and "c_uid (me_cred me) \<noteq> 0 \<Longrightarrow> c = me_cred me"
    and "start_threads me conf h t c = Running sv lg c conf'"
  using assms
  by (auto simp: guard_process_def snprintf_ret_def already_running_zero Let_def not_le
      split: if_splits prod.splits dest: start_threads_running)

lemma drop_privileges_user:
  "drop_privileges grp pwd ms c0 = (r, c) \<Longrightarrow> 0 \<le> r \<Longrightarrow> r = 0 \<and> c_uid c \<noteq> 0 \<and> pwd = Some (c_uid c) \<and> grp = Some (c_gid c)"
  by (auto simp: drop_privileges_def k_initgroups_def k_setgid_def k_setuid_def split: option.splits if_splits)

lemma main_program_running:
  assumes "main_program me = Running sv lg c conf"
  obtains path where "resolve_config_path (me_options me) (me_env_conf me) = Inr path"
    "init_config (me_config me) path (me_file me path) (me_strerror me) (me_nprocs me) = Continues conf"
    "fst (case me_ssl me of (s1, s2, s3, s4) \<Rightarrow> init_ssl_context s1 s2 s3 s4)"
    "snd (validate_path (me_paths me) (event_log conf)) = None"
    "snd (validate_path (me_paths me) (access_log conf)) = None"
    "0 \<le> me_event_fd me" "0 \<le> me_access_fd me"
    "0 \<le> call_listener (me_http me)" "0 \<le> call_listener (me_https me)"
    "snd (case me_daemon me of (f1, f2, cd, dn) \<Rightarrow> daemonize f1 f2 cd dn) = Is_daemon"
    "guard_process me conf (call_listener (me_http me)) (call_listener (me_https me)) = Running sv lg c conf"
proof -
  have conf: "guard_process me k h t = Running sv lg c conf \<Longrightarrow> k = conf" for k h t
    by (metis guard_process_running(5) start_threads_running)
  show thesis
    using assms
    by (auto simp: main_program_def Let_def not_less
        split: sum.splits proc.splits prod.splits if_splits daemon_end.splits
        dest: conf intro!: that)
qed

lemma running_user:
  assumes "main_program me = Running sv lg c conf"
  shows "c_uid c \<noteq> 0 \<and> (c_uid (me_cred me) = 0 \<longrightarrow> me_users me = Some (c_uid c) \<and> me_groups me = Some (c_gid c))"
  by (rule main_program_running [OF assms]) (metis guard_process_running(3,4) drop_privileges_user)

lemma running_worker_init:
  assumes "main_program me = Running sv lg c conf"
  shows "worker_init conf (lock_path conf (program_name (me_argv0 me))) (call_listener (me_http me))
           (call_listener (me_https me)) (me_mem me) (me_garbage me) = Some sv"
  by (rule main_program_running [OF assms]) (metis guard_process_running(5) start_threads_running)

text \<open>
  C21. If \<open>main\<close> reaches the point where it only waits, then the process never runs as root: when it was
  started as root it has the configured user and group.  It is the daemon, it holds the lock on a lock
  file whose path was not cut, both listening sockets are open, both log paths passed
  \<open>validate_path\<close> and both log files are open, and the TLS context has a matching certificate and key.
\<close>

theorem startup_guards:
  assumes "main_program me = Running sv lg c conf"
  shows "c_uid c \<noteq> 0
    \<and> (c_uid (me_cred me) = 0 \<longrightarrow> me_users me = Some (c_uid c) \<and> me_groups me = Some (c_gid c))
    \<and> me_lock me = Lock_taken \<and> sv_lock_file sv = lock_path conf (program_name (me_argv0 me))
    \<and> snd (case me_daemon me of (f1, f2, cd, dn) \<Rightarrow> daemonize f1 f2 cd dn) = Is_daemon
    \<and> 0 \<le> sv_http_fd sv \<and> 0 \<le> sv_https_fd sv
    \<and> snd (validate_path (me_paths me) (event_log conf)) = None
    \<and> snd (validate_path (me_paths me) (access_log conf)) = None
    \<and> 0 \<le> lg_event_fd lg \<and> 0 \<le> lg_access_fd lg \<and> me_ssl me = (True, True, True, True)
    \<and> sv_n_workers sv = unat (worker_threads conf)"
proof -
  obtain path where r: "fst (case me_ssl me of (s1, s2, s3, s4) \<Rightarrow> init_ssl_context s1 s2 s3 s4)"
    "snd (validate_path (me_paths me) (event_log conf)) = None"
    "snd (validate_path (me_paths me) (access_log conf)) = None"
    "0 \<le> me_event_fd me" "0 \<le> me_access_fd me"
    "0 \<le> call_listener (me_http me)" "0 \<le> call_listener (me_https me)"
    "snd (case me_daemon me of (f1, f2, cd, dn) \<Rightarrow> daemonize f1 f2 cd dn) = Is_daemon"
    and g: "guard_process me conf (call_listener (me_http me)) (call_listener (me_https me)) = Running sv lg c conf"
    by (rule main_program_running [OF assms])
  note G = guard_process_running [OF g] and S = start_threads_running [OF guard_process_running(5) [OF g]]
  have ssl: "me_ssl me = (True, True, True, True)"
    using r(1) by (cases "me_ssl me") (auto simp: init_ssl_context_safe(1))
  show ?thesis
    using running_user [OF assms] ssl G(1,2) S r by simp
qed

text \<open>A start as root with an empty configuration file.\<close>

definition example_main :: main_env where
  "example_main = \<lparr>me_options = [Opt_config ''a'', Opt_verbose, Opt_config ''b''], me_env_conf = Some ''c'', me_config = (True, True, True),
     me_file = (\<lambda>p. if p = ''b'' then Some [] else None), me_strerror = [], me_nprocs = 2,
     me_argv0 = ''/usr/sbin/celeritas'', me_ssl = (True, True, True, True),
     me_paths = \<lparr>pe_stat = (\<lambda>_. Is_regular), pe_rw = (\<lambda>_. True), pe_wx = (\<lambda>_. True), pe_mkdir = (\<lambda>_. Mkdir_ok)\<rparr>,
     me_event_fd = 4, me_access_fd = 5,
     me_http = (True, [\<lparr>aa_inet6 = True, aa_socket = 6, aa_bind_ok = True\<rparr>], True),
     me_https = (True, [\<lparr>aa_inet6 = True, aa_socket = 7, aa_bind_ok = True\<rparr>], True),
     me_daemon = (0, 0, True, 3), me_lock_fd = 8, me_lock = Lock_taken, me_lock_io = (True, True), me_pid = 99,
     me_cred = \<lparr>c_uid = 0, c_gid = 0, c_groups = {0}\<rparr>, me_groups = Some 33, me_users = Some 33, me_member_of = {},
     me_logger = (True, True, True), me_sig_thread = True, me_mem = (True, True, True, True),
     me_garbage = \<lparr>wq_buf = [], wq_capacity = 0, wq_head = 0, wq_tail = 0, wq_count = 0, wq_shutting_down = False\<rparr>\<rparr>"

lemma example_path: "resolve_config_path (me_options example_main) (me_env_conf example_main) = Inr ''b''"
proof -
  have "cstr (strncpy ''b'' (PATH_MAX - 1) @ [NUL]) = ''b''"
    by (simp add: strncpy_def cstr_def PATH_MAX_def)
  then show ?thesis by (simp add: resolve_config_path_def example_main_def)
qed

lemma next_power_of_2_256: "next_power_of_2 256 = 256"
  by code_simp

lemma example_config:
  obtains conf where "init_config (True, True, True) ''b'' (Some []) why 2 = Continues conf"
    "lock_file_path conf = ''/var/run/''" "event_log conf = ''/var/log/celeritas/event_log''"
    "access_log conf = ''/var/log/celeritas/access_log''" "worker_threads conf = 4" "conn_queue_size conf = 256"
  by (simp add: init_config_def parse_and_validate_config_file_def post_process_def load_config_defaults_def
      get_ncpu_def Let_def zero_config_def next_power_of_2_256)

lemma example_runs: "\<exists>sv lg c conf. main_program example_main = Running sv lg c conf \<and> worker_threads conf = 4
     \<and> conn_queue_size conf = 256"
proof -
  obtain conf where conf: "init_config (True, True, True) ''b'' (Some []) [] 2 = Continues conf" "lock_file_path conf = ''/var/run/''"
     "event_log conf = ''/var/log/celeritas/event_log''" "access_log conf = ''/var/log/celeritas/access_log''"
     "worker_threads conf = 4" "conn_queue_size conf = 256"
    by (rule example_config)
  have p: "resolve_config_path [Opt_config ''a'', Opt_verbose, Opt_config ''b''] (Some ''c'') = Inr ''b''"
    using example_path by (simp add: example_main_def)
  have n: "lock_path conf (program_name ''/usr/sbin/celeritas'') = ''/var/run//celeritas.pid''"
  proof -
    have "program_name ''/usr/sbin/celeritas'' = ''celeritas''" by code_simp
    then show ?thesis by (simp add: lock_path_def conf(2))
  qed
  show ?thesis using conf n
    by (simp add: main_program_def example_main_def p init_ssl_context_def validate_path_def call_listener_def
       create_listener_def daemonize_def guard_process_def snprintf_ret_def PATH_MAX_def already_running_def
       drop_privileges_def k_initgroups_def k_setgid_def k_setuid_def start_threads_def logger_init_def worker_init_def
       queue_init_def Let_def)
qed

theorem startup_guards_witness:
  "\<exists>sv lg c conf. main_program example_main = Running sv lg c conf \<and> c_uid c = 33 \<and> c_gid c = 33 \<and> sv_n_workers sv = 4"
proof -
  obtain sv lg c conf where r: "main_program example_main = Running sv lg c conf" "worker_threads conf = 4"
    using example_runs by blast
  from startup_guards [OF r(1)] r show ?thesis by (simp add: example_main_def)
qed

subsection \<open>The queues the configuration gives\<close>

text \<open>The state the threads start from.\<close>

definition system_of :: "server_t \<Rightarrow> conn_pool_t \<Rightarrow> system" where
  "system_of sv pool = \<lparr>wr_wait = sv_wait_queue sv, wr_work = sv_work_queue sv, wr_pool = pool,
     wr_watch = (\<lambda>_. None), wr_closed = [], sys_held = {#}, sys_accepted = {#}, sys_leaked = {#}\<rparr>"

lemma worker_init_queues:
  assumes "worker_init conf lock h t mem g = Some sv" "snd (snd (snd mem))" "fst (snd mem)"
  shows "sv_work_queue sv = snd (queue_init True (unat (conn_queue_size conf)) (g\<lparr>wq_buf := []\<rparr>))
     \<and> sv_wait_queue sv = sv_work_queue sv"
  using assms by (auto simp: worker_init_def Let_def queue_init_def split: prod.splits if_splits)

lemma worker_init_started:
  assumes init: "worker_init conf lock h t (True, True, True, True) g = Some sv"
    and cap: "0 < unat (conn_queue_size conf)"
    and pool: "pool_init True (unat (conn_queue_size conf)) p0 = (r, pool)"
  shows "started (system_of sv pool) \<and> wq_capacity (sv_work_queue sv) = unat (conn_queue_size conf)"
proof -
  have q: "sv_work_queue sv = snd (queue_init True (unat (conn_queue_size conf)) (g\<lparr>wq_buf := []\<rparr>))"
     "sv_wait_queue sv = sv_work_queue sv"
    using worker_init_queues [OF init] by auto
  obtain rq where i: "queue_init True (unat (conn_queue_size conf)) (g\<lparr>wq_buf := []\<rparr>) = (rq, sv_work_queue sv)"
    using q(1) by (metis prod.collapse)
  have "wq_inv (sv_work_queue sv)" "wq_list (sv_work_queue sv) = []"
    using queue_init_inv [OF cap i] by auto
  then show ?thesis using pool_init_inv [OF pool] q by (simp add: started_def system_of_def queue_init_def)
qed

text \<open>
  With the memory it asks for, the thread pool of a configuration that asked for at most 32768
  connections starts from two empty queues and an empty pool of the least power of two that is large
  enough, so every state it reaches accounts for each descriptor.  A configuration that asked for more
  gets queues of capacity 0: the first connection accepted blocks its listener for ever.
\<close>

theorem configured_queues:
  assumes conf: "post_process conf0 = Continues conf"
    and init: "worker_init conf lock h t (True, True, True, True) g = Some sv"
    and pool: "pool_init True (unat (conn_queue_size conf)) p0 = (r, pool)"
    and fd: "0 \<le> fd"
  shows "if unat (conn_queue_size conf0) \<le> 32768
         then started (system_of sv pool)
            \<and> (\<exists>k \<le> 15. wq_capacity (sv_work_queue sv) = 2 ^ k \<and> wq_capacity (sv_wait_queue sv) = 2 ^ k
                 \<and> pool_capacity pool = 2 ^ k \<and> unat (conn_queue_size conf0) \<le> 2 ^ k)
         else wq_capacity (sv_work_queue sv) = 0 \<and> wq_capacity (sv_wait_queue sv) = 0
            \<and> listener_round False False fd peer False None True (sv_work_queue sv) = Inr Blocks"
proof -
  have r: "rounded_size (conn_queue_size conf0) (conn_queue_size conf)"
    using conf by (auto simp: post_process_def Let_def rounded_next_power split: if_splits)
  have q: "sv_work_queue sv = snd (queue_init True (unat (conn_queue_size conf)) (g\<lparr>wq_buf := []\<rparr>))"
     "sv_wait_queue sv = sv_work_queue sv"
    using worker_init_queues [OF init] by auto
  note P = pool_init_inv [OF pool]
  show ?thesis
  proof (cases "unat (conn_queue_size conf0) \<le> 32768")
    case True
    obtain k where k: "k \<le> 15" "unat (conn_queue_size conf) = 2 ^ k" "unat (conn_queue_size conf0) \<le> 2 ^ k"
      using r True that [of 0] by (auto simp: rounded_size_def split: if_splits)
    have "started (system_of sv pool) \<and> wq_capacity (sv_work_queue sv) = 2 ^ k"
      using worker_init_started [OF init _ pool] k(2) by simp
    then show ?thesis using P k q(2) True by auto
  next
    case False
    then have "conn_queue_size conf = 0" using r by (auto simp: rounded_size_def split: if_splits)
    then show ?thesis using q False fd
      by (simp add: queue_init_def listener_round_def accept_connection_def queue_push_def Let_def)
  qed
qed

theorem configured_queues_witness:
  "\<exists>conf sv. post_process (zero_config\<lparr>conn_queue_size := 40000, lock_file_path := ''/run/''\<rparr>) = Continues conf
     \<and> worker_init conf [] 6 7 (True, True, True, True)
           \<lparr>wq_buf = [], wq_capacity = 0, wq_head = 0, wq_tail = 0, wq_count = 0, wq_shutting_down = False\<rparr> = Some sv
     \<and> listener_round False False 9 (Inet ''127.0.0.1'' 8080) False None True (sv_work_queue sv) = Inr Blocks"
proof -
  let ?c = "zero_config\<lparr>conn_queue_size := 40000, lock_file_path := ''/run/''\<rparr>"
  let ?g = "\<lparr>wq_buf = [], wq_capacity = 0, wq_head = 0, wq_tail = 0, wq_count = 0, wq_shutting_down = False\<rparr>"
  obtain conf where conf: "post_process ?c = Continues conf" by (simp add: post_process_def Let_def)
  obtain sv where sv: "worker_init conf [] 6 7 (True, True, True, True) ?g = Some sv"
    by (simp add: worker_init_def queue_init_def Let_def)
  obtain r pool where p: "pool_init True (unat (conn_queue_size conf)) \<lparr>pool_items = [], pool_count = 0, pool_capacity = 0\<rparr> = (r, pool)"
    by (cases "pool_init True (unat (conn_queue_size conf)) \<lparr>pool_items = [], pool_count = 0, pool_capacity = 0\<rparr>")
  have "listener_round False False 9 (Inet ''127.0.0.1'' 8080) False None True (sv_work_queue sv) = Inr Blocks"
    using configured_queues [OF conf sv p, of 9 "Inet ''127.0.0.1'' 8080"] by simp
  with conf sv show ?thesis by (intro exI conjI)
qed
text \<open>
  The signal thread reloads once for every SIGHUP that comes before the first SIGTERM or failure of
  \<open>sigwait\<close>, and shuts the server down at most once, as its last act.
\<close>

lemma thr_sig_handler_acts:
  "let before = takeWhile (\<lambda>(ret, s). ret = 0 \<and> s \<noteq> SIGTERM) ss
   in filter (\<lambda>a. a = Sig_reload) (thr_sig_handler ss) = replicate (length (filter (\<lambda>(ret, s). s = SIGHUP) before)) Sig_reload
    \<and> (before \<noteq> ss \<longrightarrow> (\<exists>as n. thr_sig_handler ss = as @ [Sig_shutdown n] \<and> (\<forall>m. Sig_shutdown m \<notin> set as)))
    \<and> (before = ss \<longrightarrow> (\<forall>m. Sig_shutdown m \<notin> set (thr_sig_handler ss)))"
proof (induction ss rule: thr_sig_handler.induct)
  case (2 ret s rest)
  show ?case
  proof (cases "ret \<noteq> 0 \<or> s = SIGTERM")
    case True
    then show ?thesis by (cases s) (auto intro: exI [of _ "[_]"])
  next
    case False
    show ?thesis
    proof (cases s)
      case SIGHUP
      then show ?thesis using 2 False by (auto simp: Let_def intro: exI [of _ "_ # _"])
    next
      case (Other_signal n)
      then show ?thesis using 2 False by (auto simp: Let_def intro: exI [of _ "_ # _"])
    qed (use False in simp)
  qed
qed simp
end
