(* ===== verification/Lifecycle.thy ===== *)
theory Lifecycle
  imports Prelude
begin

text \<open>
  What the server promises about connections, without queues and threads: every descriptor accepted is
  in one of nine places and moves along the edges of a small graph.  The threads of \<open>src/threadpool.c\<close>
  implement this specification (theory \<open>Threads\<close>).
\<close>

subsection \<open>Simulation\<close>

text \<open>A step of the implementation is a sequence of steps, possibly empty, of the specification.\<close>

locale simulation =
  fixes cstep :: "'c \<Rightarrow> 'c \<Rightarrow> bool"
    and astep :: "'a \<Rightarrow> 'a \<Rightarrow> bool"
    and abs :: "'c \<Rightarrow> 'a"
    and inv :: "'c \<Rightarrow> bool"
  assumes inv_step: "inv s \<Longrightarrow> cstep s s' \<Longrightarrow> inv s'"
    and sim_step: "inv s \<Longrightarrow> cstep s s' \<Longrightarrow> astep\<^sup>*\<^sup>* (abs s) (abs s')"
begin

lemma inv_run: "cstep\<^sup>*\<^sup>* s s' \<Longrightarrow> inv s \<Longrightarrow> inv s'"
  by (induction rule: rtranclp_induct) (auto intro: inv_step)

lemma sim_run: "cstep\<^sup>*\<^sup>* s s' \<Longrightarrow> inv s \<Longrightarrow> astep\<^sup>*\<^sup>* (abs s) (abs s')"
proof (induction rule: rtranclp_induct)
  case (step t u)
  then show ?case using inv_run sim_step by (meson rtranclp_trans)
qed simp

text \<open>An invariant of the specification holds of the implementation's states.\<close>

lemma transfer:
  assumes "cstep\<^sup>*\<^sup>* s s'" "inv s" "P (abs s)" "\<And>a a'. P a \<Longrightarrow> astep a a' \<Longrightarrow> P a'"
  shows "P (abs s')"
  using sim_run [OF assms(1,2)] assms(3,4) by (induction rule: rtranclp_induct) auto

end

subsection \<open>Places and moves\<close>

datatype place =
    Arriving    \<comment> \<open>in a listener's hands\<close>
  | Queued      \<comment> \<open>on the work queue\<close>
  | Served      \<comment> \<open>being served by a worker\<close>
  | Leaving     \<comment> \<open>served and kept, in the worker's hands\<close>
  | Waiting     \<comment> \<open>on the wait queue\<close>
  | Parked      \<comment> \<open>in the pool of the wait room\<close>
  | Ready       \<comment> \<open>readable, in the wait room's hands\<close>
  | Closed
  | Lost        \<comment> \<open>accepted and forgotten\<close>

type_synonym places = "place \<Rightarrow> int multiset"

fun edge :: "place \<Rightarrow> place \<Rightarrow> bool" where
  "edge Arriving Queued = True"
| "edge Queued Served = True"
| "edge Served Leaving = True"
| "edge Served Closed = True"
| "edge Leaving Waiting = True"
| "edge Waiting Parked = True"
| "edge Waiting Closed = True"
| "edge Parked Ready = True"
| "edge Parked Closed = True"
| "edge Ready Queued = True"
| "edge _ _ = False"

definition entry :: "place \<Rightarrow> bool" where
  "entry p \<longleftrightarrow> p = Arriving \<or> p = Closed \<or> p = Lost"

inductive lc_step :: "places \<Rightarrow> places \<Rightarrow> bool" where
  enter: "entry p \<Longrightarrow> lc_step m (m(p := add_mset fd (m p)))"
| move: "edge p q \<Longrightarrow> fd \<in># m p \<Longrightarrow> lc_step m (m(p := m p - {#fd#}, q := add_mset fd (m q)))"

inductive_cases lc_step_cases: "lc_step m m'"

definition all_places :: "place list" where
  "all_places = [Arriving, Queued, Served, Leaving, Waiting, Parked, Ready, Closed, Lost]"

definition everything :: "places \<Rightarrow> int multiset" where
  "everything m = sum_list (map m all_places)"

definition still_open :: "places \<Rightarrow> int multiset" where
  "still_open m = m Arriving + m Queued + m Served + m Leaving + m Waiting + m Parked + m Ready"

lemma edge_irrefl: "edge p q \<Longrightarrow> p \<noteq> q"
  by (cases "(p, q)" rule: edge.cases) auto

lemma everything_open: "everything m = still_open m + m Closed + m Lost"
  by (simp add: everything_def all_places_def still_open_def ac_simps)

text \<open>Moving conserves descriptors; entering adds one.  What is closed or lost stays so.\<close>

lemma lc_step_everything:
  assumes "lc_step m m'"
  shows "everything m' = everything m \<or> (\<exists>fd. everything m' = add_mset fd (everything m))"
  using assms
proof (cases rule: lc_step.cases)
  case (enter p fd)
  then show ?thesis by (cases p) (auto simp: everything_def all_places_def entry_def)
next
  case (move p q fd)
  obtain M where M: "m p = add_mset fd M" using move(3) by (metis insert_DiffM)
  have "everything m' = everything m"
    using move(1,2) M by (cases p; cases q) (auto simp: everything_def all_places_def ac_simps)
  then show ?thesis ..
qed

lemma lc_step_final:
  "lc_step m m' \<Longrightarrow> m Closed \<subseteq># m' Closed \<and> m Lost \<subseteq># m' Lost"
proof (cases rule: lc_step.cases, assumption)
  fix p q fd
  assume "m' = m(p := m p - {#fd#}, q := add_mset fd (m q))" "edge p q"
  then show ?thesis by (cases p; cases q) auto
qed (auto split: if_splits)

subsection \<open>Moves by their effect\<close>

lemma lc_moveI:
  assumes "edge p q" "m p = add_mset fd (m' p)" "m' q = add_mset fd (m q)" "\<And>r. r \<noteq> p \<Longrightarrow> r \<noteq> q \<Longrightarrow> m' r = m r"
  shows "lc_step m m'"
proof -
  have "m' = m(p := m p - {#fd#}, q := add_mset fd (m q))"
    using assms edge_irrefl [OF assms(1)] by (auto simp: fun_eq_iff)
  then show ?thesis using lc_step.move [OF assms(1), of fd m] assms(2) by simp
qed

lemma lc_enterI:
  assumes "entry p" "m' p = add_mset fd (m p)" "\<And>r. r \<noteq> p \<Longrightarrow> m' r = m r"
  shows "lc_step m m'"
proof -
  have "m' = m(p := add_mset fd (m p))" using assms by (auto simp: fun_eq_iff)
  then show ?thesis using lc_step.enter [OF assms(1), of m fd] by simp
qed

lemma lc_movesI:
  assumes "edge p q" "m p = D + m' p" "m' q = D + m q" "\<And>r. r \<noteq> p \<Longrightarrow> r \<noteq> q \<Longrightarrow> m' r = m r"
  shows "lc_step\<^sup>*\<^sup>* m m'"
  using assms(2-4)
proof (induction D arbitrary: m)
  case empty
  then have "m = m'" by (metis add_0 ext)
  then show ?case by simp
next
  case (add fd D)
  let ?m1 = "m(p := D + m' p, q := add_mset fd (m q))"
  have pq: "p \<noteq> q" by (rule edge_irrefl [OF assms(1)])
  have "lc_step m ?m1" using add.prems pq by (intro lc_moveI [OF assms(1)]) auto
  moreover have "lc_step\<^sup>*\<^sup>* ?m1 m'" using add.prems pq by (intro add.IH) auto
  ultimately show ?case by (meson converse_rtranclp_into_rtranclp)
qed

subsection \<open>What threads hold\<close>

definition hold :: "('a \<Rightarrow> int multiset) \<Rightarrow> 'a list \<Rightarrow> int multiset" where
  "hold f xs = sum_list (map f xs)"

lemma hold_swap: "i < length xs \<Longrightarrow> f (xs ! i) + hold f (xs[i := x]) = f x + hold f xs"
proof (induction xs arbitrary: i)
  case (Cons y ys)
  show ?case
  proof (cases i)
    case (Suc j)
    then have "f (ys ! j) + hold f (ys[j := x]) = f x + hold f ys" using Cons by simp
    then show ?thesis using Suc by (simp add: hold_def)
  qed (simp add: hold_def ac_simps)
qed simp

lemma hold_empty: "\<forall>x \<in> set xs. f x = {#} \<Longrightarrow> hold f xs = {#}"
  unfolding hold_def by (induction xs) simp_all
end
