(* ===== verification/Threads.thy ===== *)
theory Threads
  imports System Lifecycle
begin

text \<open>
  The running thread pool of \<open>src/threadpool.c\<close> at the grain of its queue operations: each thread has a
  program counter and the connection it holds, and any thread that is not blocked may move next.  The
  shutdown of \<open>server_shutdown\<close> (\<open>src/server.c\<close>) is one more thread.  The theory shows that every
  interleaving implements the life cycle of theory \<open>Lifecycle\<close>.
\<close>

subsection \<open>Threads and their program counters\<close>

datatype worker_pc =
    W_pop              \<comment> \<open>at \<open>queue_pop(work_queue)\<close>\<close>
  | W_serve conn_t     \<comment> \<open>in the body of the loop\<close>
  | W_park conn_t      \<comment> \<open>at \<open>queue_push(wait_queue)\<close>\<close>
  | W_done

datatype listener_pc =
    L_accept
  | L_push conn_t
  | L_done

datatype room_pc =
    R_top
  | R_drain "conn_t option"              \<comment> \<open>at \<open>queue_trypop\<close>, with what \<open>conn\<close> holds\<close>
  | R_poll
  | R_dispatch "io_event_t list"
  | R_push conn_t "io_event_t list"      \<comment> \<open>at \<open>queue_push(work_q)\<close>\<close>
  | R_done

datatype shut_pc =
    Sh_idle | Sh_join_listeners | Sh_join_room | Sh_join_workers | Sh_end

record threads =
  th_wr :: wait_room
  th_workers :: "worker_pc list"
  th_listeners :: "listener_pc list"
  th_room :: room_pc
  th_flag :: bool            \<comment> \<open>the global \<open>shutting_down\<close>\<close>
  th_shut :: shut_pc
  th_lost :: "int list"      \<comment> \<open>descriptors \<open>accept_connection\<close> gave up without closing\<close>

definition worker_at :: "threads \<Rightarrow> nat \<Rightarrow> worker_pc \<Rightarrow> bool" where
  "worker_at s i pc \<longleftrightarrow> i < length (th_workers s) \<and> th_workers s ! i = pc"

definition listener_at :: "threads \<Rightarrow> nat \<Rightarrow> listener_pc \<Rightarrow> bool" where
  "listener_at s j pc \<longleftrightarrow> j < length (th_listeners s) \<and> th_listeners s ! j = pc"

definition set_worker :: "nat \<Rightarrow> worker_pc \<Rightarrow> threads \<Rightarrow> threads" where
  "set_worker i pc s = s\<lparr>th_workers := (th_workers s)[i := pc]\<rparr>"

definition set_listener :: "nat \<Rightarrow> listener_pc \<Rightarrow> threads \<Rightarrow> threads" where
  "set_listener j pc s = s\<lparr>th_listeners := (th_listeners s)[j := pc]\<rparr>"

definition set_wr :: "wait_room \<Rightarrow> threads \<Rightarrow> threads" where
  "set_wr r s = s\<lparr>th_wr := r\<rparr>"

definition set_room :: "room_pc \<Rightarrow> wait_room \<Rightarrow> threads \<Rightarrow> threads" where
  "set_room pc r s = s\<lparr>th_room := pc, th_wr := r\<rparr>"

text \<open>The calls on the two queues.\<close>

abbreviation work_of :: "threads \<Rightarrow> conn_t work_queue_t" where
  "work_of s \<equiv> wr_work (th_wr s)"

abbreviation wait_of :: "threads \<Rightarrow> conn_t work_queue_t" where
  "wait_of s \<equiv> wr_wait (th_wr s)"

subsection \<open>Steps\<close>

text \<open>
  A worker (\<open>worker_thread\<close>): its environment's flag is the one it reads at the end of the round.
\<close>

inductive worker_step :: "threads \<Rightarrow> threads \<Rightarrow> bool" where
  pop: "worker_at s i W_pop \<Longrightarrow> queue_pop (work_of s) = Inr (Returns (0, Some c) q) \<Longrightarrow>
     worker_step s (set_worker i (W_serve c) (set_wr ((th_wr s)\<lparr>wr_work := q\<rparr>) s))"
| pop_end: "worker_at s i W_pop \<Longrightarrow> queue_pop (work_of s) = Inr (Returns (k, x) q) \<Longrightarrow> k \<noteq> 0 \<Longrightarrow>
     worker_step s (set_worker i W_done (set_wr ((th_wr s)\<lparr>wr_work := q\<rparr>) s))"
| round_close: "worker_at s i (W_serve c) \<Longrightarrow> we_shutting_down we = th_flag s \<Longrightarrow>
     worker_round we c = Inr (Returns k acts) \<Longrightarrow> closes c acts \<Longrightarrow>
     worker_step s (set_worker i (if k = Stop_thread then W_done else W_pop) (set_wr (wr_close c (th_wr s)) s))"
| round_park: "worker_at s i (W_serve c) \<Longrightarrow> we_shutting_down we = th_flag s \<Longrightarrow>
     worker_round we c = Inr (Returns k acts) \<Longrightarrow> disposals acts = [Act_park c'] \<Longrightarrow> same_peer c c' \<Longrightarrow>
     worker_step s (set_worker i (W_park c') s)"
| push: "worker_at s i (W_park c) \<Longrightarrow> queue_push (wait_of s) c = Inr (Returns () q) \<Longrightarrow>
     worker_step s (set_worker i W_pop (set_wr ((th_wr s)\<lparr>wr_wait := q\<rparr>) s))"

text \<open>
  A listener (\<open>listener_thread\<close>): \<open>accept\<close> answers \<open>fd\<close>; \<open>b\<close> is the flag as \<open>accept_connection\<close> read it,
  before the thread reads it itself.
\<close>

inductive listener_step :: "threads \<Rightarrow> threads \<Rightarrow> bool" where
  stop: "listener_at s j L_accept \<Longrightarrow> th_flag s \<Longrightarrow>
     accept_connection b fd peer tls ssl ok zero_conn = (rv, c, msgs) \<Longrightarrow>
     listener_step s (set_listener j L_done
       (if conn_fd c > 0 then s\<lparr>th_wr := (th_wr s)\<lparr>wr_closed := wr_closed (th_wr s) @ [c]\<rparr>\<rparr>
        else s\<lparr>th_lost := th_lost s @ (if 0 \<le> fd then [fd] else [])\<rparr>))"
| failed: "listener_at s j L_accept \<Longrightarrow> \<not> th_flag s \<Longrightarrow>
     accept_connection False fd peer tls ssl ok zero_conn = (rv, c, msgs) \<Longrightarrow> rv \<noteq> 0 \<Longrightarrow>
     listener_step s (s\<lparr>th_lost := th_lost s @ (if 0 \<le> fd then [fd] else [])\<rparr>)"
| accepted: "listener_at s j L_accept \<Longrightarrow> \<not> th_flag s \<Longrightarrow>
     accept_connection False fd peer tls ssl ok zero_conn = (0, c, msgs) \<Longrightarrow>
     listener_step s (set_listener j (L_push c) s)"
| push: "listener_at s j (L_push c) \<Longrightarrow> queue_push (work_of s) c = Inr (Returns () q) \<Longrightarrow>
     listener_step s (set_listener j (if th_flag s then L_done else L_accept)
       (set_wr ((th_wr s)\<lparr>wr_work := q\<rparr>) s))"

text \<open>The wait room (\<open>wait_room_thread\<close>), with the same operations as \<open>wait_room_turn\<close>, one at a time.\<close>

inductive room_step :: "threads \<Rightarrow> threads \<Rightarrow> bool" where
  leave: "th_room s = R_top \<Longrightarrow> th_flag s \<Longrightarrow> room_step s (set_room R_done (th_wr s) s)"
| turn: "th_room s = R_top \<Longrightarrow> \<not> th_flag s \<Longrightarrow> room_step s (set_room (R_drain None) (th_wr s) s)"
| drain_one: "th_room s = R_drain conn \<Longrightarrow> queue_trypop (wait_of s) = Inr ((r, popped), q) \<Longrightarrow> r \<noteq> 1 \<Longrightarrow>
     (if popped = None then conn else popped) = Some c \<Longrightarrow> park reg c ((th_wr s)\<lparr>wr_wait := q\<rparr>) = Inr w \<Longrightarrow>
     room_step s (set_room (R_drain (Some c)) w s)"
| drained: "th_room s = R_drain conn \<Longrightarrow> queue_trypop (wait_of s) = Inr ((1, popped), q) \<Longrightarrow>
     room_step s (set_room R_poll ((th_wr s)\<lparr>wr_wait := q\<rparr>) s)"
| polled: "th_room s = R_poll \<Longrightarrow> room_step s (set_room (R_dispatch (snd (io_watcher_wait answer))) (th_wr s) s)"
| unknown: "th_room s = R_dispatch (e # es) \<Longrightarrow>
     pool_remove_by_fd (wr_pool (th_wr s)) (ev_userdata e) = Inr (0, active, pool) \<Longrightarrow>
     room_step s (set_room (R_dispatch es) ((th_wr s)\<lparr>wr_pool := pool\<rparr>) s)"
| error_event: "th_room s = R_dispatch (e # es) \<Longrightarrow>
     pool_remove_by_fd (wr_pool (th_wr s)) (ev_userdata e) = Inr (k, Some c, pool) \<Longrightarrow> k \<noteq> 0 \<Longrightarrow> ev_is_error e \<Longrightarrow>
     room_step s (set_room (R_dispatch es) (wr_close c ((th_wr s)\<lparr>wr_pool := pool\<rparr>)) s)"
| readable: "th_room s = R_dispatch (e # es) \<Longrightarrow>
     pool_remove_by_fd (wr_pool (th_wr s)) (ev_userdata e) = Inr (k, Some c, pool) \<Longrightarrow> k \<noteq> 0 \<Longrightarrow> \<not> ev_is_error e \<Longrightarrow>
     room_step s (set_room (R_push c es) ((th_wr s)\<lparr>wr_pool := pool\<rparr>) s)"
| hand_back: "th_room s = R_push c es \<Longrightarrow> queue_push (work_of s) c = Inr (Returns () q) \<Longrightarrow>
     room_step s (set_room (R_dispatch es) ((th_wr s)\<lparr>wr_work := q\<rparr>) s)"
| swept: "th_room s = R_dispatch [] \<Longrightarrow> sweep now (th_wr s) = Inr w \<Longrightarrow>
     room_step s (set_room R_top w s)"

text \<open>\<open>server_shutdown\<close>: the flag, then each group of threads is joined before the next is told.\<close>

definition flag_queue :: "'a work_queue_t \<Rightarrow> 'a work_queue_t" where
  "flag_queue q = q\<lparr>wq_shutting_down := True\<rparr>"

inductive shutdown_step :: "threads \<Rightarrow> threads \<Rightarrow> bool" where
  begin_shutdown: "th_shut s = Sh_idle \<Longrightarrow> shutdown_step s (s\<lparr>th_flag := True, th_shut := Sh_join_listeners\<rparr>)"
| listeners_joined: "th_shut s = Sh_join_listeners \<Longrightarrow> \<forall>pc \<in> set (th_listeners s). pc = L_done \<Longrightarrow>
     shutdown_step s (s\<lparr>th_wr := (th_wr s)\<lparr>wr_wait := flag_queue (wait_of s)\<rparr>, th_shut := Sh_join_room\<rparr>)"
| room_joined: "th_shut s = Sh_join_room \<Longrightarrow> th_room s = R_done \<Longrightarrow>
     shutdown_step s (s\<lparr>th_wr := (th_wr s)\<lparr>wr_work := flag_queue (work_of s)\<rparr>, th_shut := Sh_join_workers\<rparr>)"
| workers_joined: "th_shut s = Sh_join_workers \<Longrightarrow> \<forall>pc \<in> set (th_workers s). pc = W_done \<Longrightarrow>
     shutdown_step s (s\<lparr>th_shut := Sh_end\<rparr>)"

inductive th_step :: "threads \<Rightarrow> threads \<Rightarrow> bool" where
  worker: "worker_step s s' \<Longrightarrow> th_step s s'"
| listener: "listener_step s s' \<Longrightarrow> th_step s s'"
| room: "room_step s s' \<Longrightarrow> th_step s s'"
| shutdown: "shutdown_step s s' \<Longrightarrow> th_step s s'"

subsection \<open>The places of the connections\<close>

fun arriving :: "listener_pc \<Rightarrow> int multiset" where
  "arriving (L_push c) = {#conn_fd c#}"
| "arriving _ = {#}"

fun serving :: "worker_pc \<Rightarrow> int multiset" where
  "serving (W_serve c) = {#conn_fd c#}"
| "serving _ = {#}"

fun parking :: "worker_pc \<Rightarrow> int multiset" where
  "parking (W_park c) = {#conn_fd c#}"
| "parking _ = {#}"

fun handing_back :: "room_pc \<Rightarrow> int multiset" where
  "handing_back (R_push c es) = {#conn_fd c#}"
| "handing_back _ = {#}"

definition fds :: "conn_t list \<Rightarrow> int multiset" where
  "fds cs = image_mset conn_fd (mset cs)"

lemma fds_simps [simp]: "fds [] = {#}" "fds (c # cs) = add_mset (conn_fd c) (fds cs)" "fds (cs @ ds) = fds cs + fds ds"
  by (simp_all add: fds_def)

fun places_of :: "threads \<Rightarrow> places" where
  "places_of s Arriving = hold arriving (th_listeners s)"
| "places_of s Queued = fds (wq_list (work_of s))"
| "places_of s Served = hold serving (th_workers s)"
| "places_of s Leaving = hold parking (th_workers s)"
| "places_of s Waiting = fds (wq_list (wait_of s))"
| "places_of s Parked = fds (pool_list (wr_pool (th_wr s)))"
| "places_of s Ready = handing_back (th_room s)"
| "places_of s Closed = fds (wr_closed (th_wr s))"
| "places_of s Lost = mset (th_lost s)"

text \<open>
  The wait room drains a queue that is shutting down: it never leaves that loop again, parking and
  closing one connection over and over (\<open>drain_spins_on_shutdown\<close>).
\<close>

definition spinning :: "threads \<Rightarrow> bool" where
  "spinning s \<longleftrightarrow> wq_shutting_down (wait_of s) \<and> (\<exists>c. th_room s = R_drain c)"

definition th_inv :: "threads \<Rightarrow> bool" where
  "th_inv s \<longleftrightarrow> wr_inv (th_wr s) \<and> (wq_shutting_down (wait_of s) \<longrightarrow> th_flag s)
     \<and> (th_shut s \<noteq> Sh_idle \<longrightarrow> th_flag s) \<and> \<not> spinning s"

definition live_step :: "threads \<Rightarrow> threads \<Rightarrow> bool" where
  "live_step s s' \<longleftrightarrow> th_step s s' \<and> \<not> spinning s'"

definition same_elsewhere :: "place set \<Rightarrow> threads \<Rightarrow> threads \<Rightarrow> bool" where
  "same_elsewhere P s s' \<longleftrightarrow> list_all (\<lambda>r. r \<in> P \<or> places_of s' r = places_of s r) all_places"

lemma same_elsewhereD: "same_elsewhere P s s' \<Longrightarrow> r \<notin> P \<Longrightarrow> places_of s' r = places_of s r"
  by (cases r) (auto simp: same_elsewhere_def all_places_def)

lemmas elsewhere = same_elsewhere_def all_places_def

lemma moved:
  assumes "edge p q" "places_of s p = add_mset fd (places_of s' p)" "places_of s' q = add_mset fd (places_of s q)"
    "same_elsewhere {p, q} s s'"
  shows "lc_step\<^sup>*\<^sup>* (places_of s) (places_of s')"
  using assms by (intro r_into_rtranclp lc_moveI) (auto dest: same_elsewhereD)

lemma moved_many:
  assumes "edge p q" "places_of s p = D + places_of s' p" "places_of s' q = D + places_of s q"
    "same_elsewhere {p, q} s s'"
  shows "lc_step\<^sup>*\<^sup>* (places_of s) (places_of s')"
  using assms by (intro lc_movesI) (auto dest: same_elsewhereD)

lemma stayed: "same_elsewhere {} s s' \<Longrightarrow> lc_step\<^sup>*\<^sup>* (places_of s) (places_of s')"
proof -
  assume "same_elsewhere {} s s'"
  then have "places_of s' = places_of s" by (auto simp: fun_eq_iff dest: same_elsewhereD)
  then show ?thesis by simp
qed

lemma entered:
  assumes "entry p" "places_of s' p = add_mset fd (places_of s p)" "same_elsewhere {p} s s'"
  shows "lc_step\<^sup>*\<^sup>* (places_of s) (places_of s')"
  using assms by (intro r_into_rtranclp lc_enterI) (auto dest: same_elsewhereD)

lemma worker_swap:
  assumes "worker_at s i pc"
  shows "serving pc + hold serving ((th_workers s)[i := pc']) = serving pc' + hold serving (th_workers s)"
    "parking pc + hold parking ((th_workers s)[i := pc']) = parking pc' + hold parking (th_workers s)"
  using assms hold_swap [of i "th_workers s" serving pc'] hold_swap [of i "th_workers s" parking pc']
  by (auto simp: worker_at_def)

lemma listener_swap:
  assumes "listener_at s j pc"
  shows "arriving pc + hold arriving ((th_listeners s)[j := pc']) = arriving pc' + hold arriving (th_listeners s)"
  using assms hold_swap [of j "th_listeners s" arriving pc'] by (auto simp: listener_at_def)

lemmas th_updates = set_worker_def set_listener_def set_wr_def set_room_def wr_close_def flag_queue_def
subsection \<open>Workers and listeners implement the life cycle\<close>

lemma queue_push_flag: "queue_push q c = Inr (Returns () q') \<Longrightarrow> wq_shutting_down q' = wq_shutting_down q"
  by (auto simp: queue_push_def bindR_Inr_iff split: if_splits)

lemma queue_pop_end: "queue_pop q = Inr (Returns (k, x) q') \<Longrightarrow> k \<noteq> 0 \<Longrightarrow> q' = q \<and> wq_count q = 0 \<and> wq_shutting_down q"
  by (auto simp: queue_pop_def bindR_Inr_iff split: if_splits)

lemma worker_sim:
  assumes "worker_step s s'" "th_inv s"
  shows "th_inv s' \<and> lc_step\<^sup>*\<^sup>* (places_of s) (places_of s')"
  using assms(1)
proof cases
  case (pop i c q)
  have q: "wq_inv q" "wq_list (work_of s) = c # wq_list q"
    using queue_pop_item [OF _ pop(3)] assms(2) by (auto simp: th_inv_def wr_inv_def)
  have "lc_step\<^sup>*\<^sup>* (places_of s) (places_of s')"
    using worker_swap [OF pop(2), of "W_serve c"] q(2)
    by (intro moved [of Queued Served _ "conn_fd c"]) (simp_all add: pop(1) th_updates elsewhere)
  then show ?thesis using assms(2) q(1) by (auto simp: pop(1) th_inv_def wr_inv_def spinning_def th_updates)
next
  case (pop_end i k x q)
  have q: "q = work_of s" using queue_pop_end [OF pop_end(3,4)] by simp
  have "lc_step\<^sup>*\<^sup>* (places_of s) (places_of s')"
    using worker_swap [OF pop_end(2), of W_done]
    by (intro stayed) (simp add: pop_end(1) th_updates q elsewhere)
  then show ?thesis using assms(2) by (auto simp: pop_end(1) th_inv_def wr_inv_def spinning_def th_updates q)
next
  case (round_close i c we k acts)
  let ?pc = "if k = Stop_thread then W_done else W_pop"
  have "lc_step\<^sup>*\<^sup>* (places_of s) (places_of s')"
    using worker_swap [OF round_close(2), of ?pc]
    by (intro moved [of Served Closed _ "conn_fd c"])
      (simp_all add: round_close(1) th_updates elsewhere split: if_splits)
  then show ?thesis using assms(2) by (auto simp: round_close(1) th_inv_def wr_inv_def spinning_def th_updates)
next
  case (round_park i c we k acts c')
  have "conn_fd c' = conn_fd c" using round_park(6) by (simp add: same_peer_def)
  then have "lc_step\<^sup>*\<^sup>* (places_of s) (places_of s')"
    using worker_swap [OF round_park(2), of "W_park c'"]
    by (intro moved [of Served Leaving _ "conn_fd c"]) (simp_all add: round_park(1) th_updates elsewhere)
  then show ?thesis using assms(2) by (auto simp: round_park(1) th_inv_def wr_inv_def spinning_def th_updates)
next
  case (push i c q)
  have q: "wq_inv q" "wq_list q = wq_list (wait_of s) @ [c]"
    using queue_push_item [OF _ push(3)] assms(2) by (auto simp: th_inv_def wr_inv_def)
  have "lc_step\<^sup>*\<^sup>* (places_of s) (places_of s')"
    using worker_swap [OF push(2), of W_pop] q(2)
    by (intro moved [of Leaving Waiting _ "conn_fd c"]) (simp_all add: push(1) th_updates elsewhere)
  then show ?thesis using assms(2) q(1) queue_push_flag [OF push(3)]
    by (auto simp: push(1) th_inv_def wr_inv_def spinning_def th_updates)
qed

lemma accepted_fd_any:
  assumes "accept_connection b fd peer tls ssl ok zero_conn = (rv, c, msgs)"
  shows "0 \<le> fd \<Longrightarrow> conn_fd c = fd" "fd < 0 \<Longrightarrow> conn_fd c = 0" "fd < 0 \<Longrightarrow> \<not> b \<Longrightarrow> rv \<noteq> 0"
  using assms by (auto simp: accept_connection_def zero_conn_def Let_def split: if_splits peer.splits)

lemma listener_sim:
  assumes "listener_step s s'" "th_inv s"
  shows "th_inv s' \<and> lc_step\<^sup>*\<^sup>* (places_of s) (places_of s')"
  using assms(1)
proof cases
  case (stop j b fd peer tls ssl ok rv c msgs)
  note sw = listener_swap [OF stop(2), of L_done]
  consider "conn_fd c > 0" | "conn_fd c \<le> 0" "0 \<le> fd" | "conn_fd c \<le> 0" "fd < 0" by linarith
  then have "lc_step\<^sup>*\<^sup>* (places_of s) (places_of s')"
  proof cases
    case 1
    then show ?thesis using sw
      by (intro entered [of Closed _ "conn_fd c"]) (simp_all add: stop(1) th_updates elsewhere entry_def)
  next
    case 2
    then show ?thesis using sw
      by (intro entered [of Lost _ fd]) (simp_all add: stop(1) th_updates elsewhere entry_def)
  next
    case 3
    then show ?thesis using sw by (intro stayed) (simp add: stop(1) th_updates elsewhere)
  qed
  then show ?thesis using assms(2) by (auto simp: stop(1) th_inv_def wr_inv_def spinning_def th_updates)
next
  case (failed j fd peer tls ssl ok rv c msgs)
  have "lc_step\<^sup>*\<^sup>* (places_of s) (places_of s')"
  proof (cases "0 \<le> fd")
    case True
    then show ?thesis by (intro entered [of Lost _ fd]) (simp_all add: failed(1) elsewhere entry_def)
  next
    case False
    then show ?thesis by (intro stayed) (simp add: failed(1) elsewhere)
  qed
  then show ?thesis using assms(2) by (auto simp: failed(1) th_inv_def wr_inv_def spinning_def)
next
  case (accepted j fd peer tls ssl ok c msgs)
  have "lc_step\<^sup>*\<^sup>* (places_of s) (places_of s')"
    using listener_swap [OF accepted(2), of "L_push c"]
    by (intro entered [of Arriving _ "conn_fd c"]) (simp_all add: accepted(1) th_updates elsewhere entry_def)
  then show ?thesis using assms(2) by (auto simp: accepted(1) th_inv_def wr_inv_def spinning_def th_updates)
next
  case (push j c q)
  have q: "wq_inv q" "wq_list q = wq_list (work_of s) @ [c]"
    using queue_push_item [OF _ push(3)] assms(2) by (auto simp: th_inv_def wr_inv_def)
  have "lc_step\<^sup>*\<^sup>* (places_of s) (places_of s')"
    using listener_swap [OF push(2), of "if th_flag s then L_done else L_accept"] q(2)
    by (intro moved [of Arriving Queued _ "conn_fd c"]) (simp_all add: push(1) th_updates elsewhere split: if_splits)
  then show ?thesis using assms(2) q(1)
    by (auto simp: push(1) th_inv_def wr_inv_def spinning_def th_updates)
qed

subsection \<open>The wait room implements the life cycle\<close>

text \<open>A connection handed to \<open>park\<close> ends in the pool or closed.\<close>

lemma park_where:
  assumes "wr_inv w" "park reg c w = Inr w'"
  shows "wr_inv w' \<and> wr_wait w' = wr_wait w \<and> wr_work w' = wr_work w
     \<and> (fds (pool_list (wr_pool w')) = add_mset (conn_fd c) (fds (pool_list (wr_pool w)))
          \<and> wr_closed w' = wr_closed w
        \<or> fds (pool_list (wr_pool w')) = fds (pool_list (wr_pool w)) \<and> wr_closed w' = wr_closed w @ [c])"
proof -
  have pinv: "pool_inv (wr_pool w)" using assms(1) by (simp add: wr_inv_def)
  obtain r p1 where p1: "pool_add (wr_pool w) c = Inr (r, p1)" "pool_inv p1" "r = 0 \<or> r = -1"
      "pool_list p1 = (if r = 0 then pool_list (wr_pool w) @ [c] else pool_list (wr_pool w))"
    using pool_add_spec [OF pinv] by blast
  show ?thesis
  proof (cases "r = 0")
    case False
    then show ?thesis using p1 assms by (auto simp: park_def wr_close_def wr_inv_def fds_def)
  next
    case True
    then have pl: "pool_list p1 = pool_list (wr_pool w) @ [c]" using p1(4) by simp
    obtain k x where kx: "io_watcher_add (fst (reg c)) (snd (reg c)) (wr_watch w) (conn_fd c) (conn_fd c) = (k, x)"
      by (cases "io_watcher_add (fst (reg c)) (snd (reg c)) (wr_watch w) (conn_fd c) (conn_fd c)")
    obtain d p2 where p2: "pool_remove_by_fd p1 (conn_fd c) = Inr (1, Some d, p2)" "pool_inv p2"
        "image_mset conn_fd (mset (pool_list p2)) = image_mset conn_fd (mset (pool_list (wr_pool w)))"
      using pool_remove_added [OF p1(2) pl] by blast
    show ?thesis
      using True p1 pl p2 kx assms
      by (cases "k = 0") (auto simp: park_def wr_close_def wr_inv_def fds_def)
  qed
qed

lemma room_moved:
  assumes "pool_inv pool" "pool_remove_by_fd pool fd = Inr (k, out_c, pool')"
  shows "k = 0 \<Longrightarrow> pool' = pool"
    "k \<noteq> 0 \<Longrightarrow> out_c = Some c \<Longrightarrow> pool_inv pool' \<and> fds (pool_list pool) = add_mset (conn_fd c) (fds (pool_list pool'))"
proof -
  note r = remove_by_fd_from_list [OF assms(1), of 0 fd]
  show "k = 0 \<Longrightarrow> pool' = pool"
    using r assms(2) by (auto simp: pool_remove_by_fd_def split: if_splits)
  assume "k \<noteq> 0" "out_c = Some c"
  then have "pool_inv pool'" "add_mset c (mset (pool_list pool')) = mset (pool_list pool)"
    using r assms(2) by (auto simp: pool_remove_by_fd_def split: if_splits)
  then show "pool_inv pool' \<and> fds (pool_list pool) = add_mset (conn_fd c) (fds (pool_list pool'))"
    by (simp add: fds_def flip: image_mset_add_mset)
qed

lemma room_sim:
  assumes "room_step s s'" "th_inv s" "\<not> spinning s'"
  shows "th_inv s' \<and> lc_step\<^sup>*\<^sup>* (places_of s) (places_of s')"
  using assms(1)
proof cases
  case leave
  have "lc_step\<^sup>*\<^sup>* (places_of s) (places_of s')"
    by (intro stayed) (simp add: leave th_updates elsewhere)
  then show ?thesis using assms(2) by (auto simp: leave th_inv_def wr_inv_def spinning_def th_updates)
next
  case turn
  have "lc_step\<^sup>*\<^sup>* (places_of s) (places_of s')"
    by (intro stayed) (simp add: turn th_updates elsewhere)
  then show ?thesis using assms(2) turn(3) by (auto simp: turn(1,2) th_inv_def wr_inv_def spinning_def th_updates)
next
  case (drain_one conn r popped q c reg w)
  have inv: "wr_inv (th_wr s)" "\<not> wq_shutting_down (wait_of s)" "wq_inv (wait_of s)"
    using assms(2) drain_one(2) by (auto simp: th_inv_def spinning_def wr_inv_def)
  obtain x xs where x: "wq_list (wait_of s) = x # xs"
    using trypop_cases(1) [OF inv(3)] inv(2) drain_one(3,4) by (cases "wq_list (wait_of s)") auto
  then have q: "popped = Some x" "wq_inv q" "wq_list q = xs" "\<not> wq_shutting_down q"
    using trypop_cases(2) [OF inv(3) x] drain_one(3) inv(2) by auto
  then have c: "c = x" using drain_one(5) by simp
  have "wr_inv ((th_wr s)\<lparr>wr_wait := q\<rparr>)" using inv(1) q(2) by (simp add: wr_inv_def)
  note pk = park_where [OF this drain_one(6)]
  then consider "fds (pool_list (wr_pool w)) = add_mset (conn_fd c) (fds (pool_list (wr_pool (th_wr s))))" "wr_closed w = wr_closed (th_wr s)"
    | "fds (pool_list (wr_pool w)) = fds (pool_list (wr_pool (th_wr s)))" "wr_closed w = wr_closed (th_wr s) @ [c]"
    by auto
  then have "lc_step\<^sup>*\<^sup>* (places_of s) (places_of s')"
  proof cases
    case 1
    then show ?thesis using pk x q(3) c
      by (intro moved [of Waiting Parked _ "conn_fd c"]) (simp_all add: drain_one(1,2) th_updates elsewhere)
  next
    case 2
    then show ?thesis using pk x q(3) c
      by (intro moved [of Waiting Closed _ "conn_fd c"]) (simp_all add: drain_one(1,2) th_updates elsewhere)
  qed
  then show ?thesis using assms(2) pk q by (auto simp: drain_one(1) th_inv_def spinning_def th_updates)
next
  case (drained conn popped q)
  have inv: "wr_inv (th_wr s)" "wq_inv (wait_of s)" using assms(2) by (auto simp: th_inv_def wr_inv_def)
  have q: "q = wait_of s"
    using trypop_cases(1) [OF inv(2)] trypop_cases(2) [OF inv(2)] drained(3)
    by (cases "wq_list (wait_of s)") (auto split: if_splits)
  have "lc_step\<^sup>*\<^sup>* (places_of s) (places_of s')"
    by (intro stayed) (simp add: drained(1,2) q th_updates elsewhere)
  then show ?thesis using assms(2) by (auto simp: drained(1) q th_inv_def wr_inv_def spinning_def th_updates)
next
  case (polled answer)
  have "lc_step\<^sup>*\<^sup>* (places_of s) (places_of s')"
    by (intro stayed) (simp add: polled th_updates elsewhere)
  then show ?thesis using assms(2) by (auto simp: polled th_inv_def wr_inv_def spinning_def th_updates)
next
  case (unknown e es active pool)
  have "pool_inv (wr_pool (th_wr s))" using assms(2) by (simp add: th_inv_def wr_inv_def)
  then have p: "pool = wr_pool (th_wr s)" using room_moved(1) [OF _ unknown(3)] by simp
  have "lc_step\<^sup>*\<^sup>* (places_of s) (places_of s')"
    by (intro stayed) (simp add: unknown(1,2) p th_updates elsewhere)
  then show ?thesis using assms(2) by (auto simp: unknown(1) p th_inv_def wr_inv_def spinning_def th_updates)
next
  case (error_event e es k c pool)
  have "pool_inv (wr_pool (th_wr s))" using assms(2) by (simp add: th_inv_def wr_inv_def)
  note p = room_moved(2) [OF this error_event(3,4) refl]
  have "lc_step\<^sup>*\<^sup>* (places_of s) (places_of s')"
    using p by (intro moved [of Parked Closed _ "conn_fd c"]) (simp_all add: error_event(1,2) th_updates elsewhere)
  then show ?thesis using assms(2) p by (auto simp: error_event(1) th_inv_def wr_inv_def spinning_def th_updates)
next
  case (readable e es k c pool)
  have "pool_inv (wr_pool (th_wr s))" using assms(2) by (simp add: th_inv_def wr_inv_def)
  note p = room_moved(2) [OF this readable(3,4) refl]
  have "lc_step\<^sup>*\<^sup>* (places_of s) (places_of s')"
    using p by (intro moved [of Parked Ready _ "conn_fd c"]) (simp_all add: readable(1,2) th_updates elsewhere)
  then show ?thesis using assms(2) p by (auto simp: readable(1) th_inv_def wr_inv_def spinning_def th_updates)
next
  case (hand_back c es q)
  have q: "wq_inv q" "wq_list q = wq_list (work_of s) @ [c]"
    using queue_push_item [OF _ hand_back(3)] assms(2) by (auto simp: th_inv_def wr_inv_def)
  have "lc_step\<^sup>*\<^sup>* (places_of s) (places_of s')"
    using q by (intro moved [of Ready Queued _ "conn_fd c"]) (simp_all add: hand_back(1,2) th_updates elsewhere)
  then show ?thesis using assms(2) q by (auto simp: hand_back(1) th_inv_def wr_inv_def spinning_def th_updates)
next
  case (swept now w)
  have "pool_inv (wr_pool (th_wr s))" using assms(2) by (simp add: th_inv_def wr_inv_def)
  then obtain cs pool where p: "pool_sweep_expired (wr_pool (th_wr s)) now = Inr (cs, pool)" "pool_inv pool"
      "mset cs + mset (pool_list pool) = mset (pool_list (wr_pool (th_wr s)))"
    using sweep_from_list [of "wr_pool (th_wr s)" 0 now] by (auto simp: pool_sweep_expired_def)
  have f: "fds (pool_list (wr_pool (th_wr s))) = fds cs + fds (pool_list pool)"
    by (simp add: fds_def flip: p(3))
  have w: "wr_pool w = pool" "wr_closed w = wr_closed (th_wr s) @ cs" "wr_work w = work_of s" "wr_wait w = wait_of s"
    using swept(3) p(1) by (auto simp: sweep_def)
  have "lc_step\<^sup>*\<^sup>* (places_of s) (places_of s')"
    using f w by (intro moved_many [of Parked Closed _ "fds cs"]) (simp_all add: swept(1,2) th_updates elsewhere)
  then show ?thesis using assms(2) p(2) w by (auto simp: swept(1) th_inv_def wr_inv_def spinning_def th_updates)
qed
lemma wq_flag_queue [simp]:
  "wq_inv (flag_queue q) = wq_inv q" "wq_list (flag_queue q) = wq_list q" "wq_shutting_down (flag_queue q)"
  by (simp_all add: flag_queue_def)

lemma shutdown_sim:
  assumes "shutdown_step s s'" "th_inv s" "\<not> spinning s'"
  shows "th_inv s' \<and> lc_step\<^sup>*\<^sup>* (places_of s) (places_of s')"
proof -
  have "same_elsewhere {} s s'" using assms(1) by cases (simp_all add: elsewhere)
  moreover have "th_inv s'"
    using assms(1) by cases (use assms(2,3) in \<open>auto simp: th_inv_def wr_inv_def spinning_def\<close>)
  ultimately show ?thesis using stayed by blast
qed

subsection \<open>The threads implement the specification\<close>

lemma th_sim:
  assumes "th_step s s'" "th_inv s" "\<not> spinning s'"
  shows "th_inv s' \<and> lc_step\<^sup>*\<^sup>* (places_of s) (places_of s')"
  using assms worker_sim listener_sim room_sim shutdown_sim by (auto elim: th_step.cases)

interpretation pool: simulation live_step lc_step places_of th_inv
  using th_sim by unfold_locales (auto simp: live_step_def)

text \<open>Spinning is for ever, so a run that does not end in it is free of it.\<close>

lemma queue_trypop_flag:
  "queue_trypop q = Inr ((r, x), q') \<Longrightarrow> wq_shutting_down q' = wq_shutting_down q \<and> (r = 1 \<longrightarrow> \<not> wq_shutting_down q)"
  by (auto simp: queue_trypop_def take_head_def bindR_Inr_iff split: if_splits)

lemma park_wait: "park reg c w = Inr w' \<Longrightarrow> wr_wait w' = wr_wait w"
  by (auto simp: park_def wr_close_def bindR_Inr_iff Let_def split: if_splits prod.splits)

lemma spinning_stays:
  assumes "th_step s s'" "spinning s"
  shows "spinning s'"
  using assms(1)
proof cases
  case worker
  then show ?thesis using assms(2)
    by cases (auto simp: spinning_def th_updates dest: queue_push_flag)
next
  case listener
  then show ?thesis using assms(2) by cases (auto simp: spinning_def th_updates)
next
  case room
  then show ?thesis using assms(2)
    by cases (auto simp: spinning_def th_updates dest!: queue_trypop_flag park_wait)
next
  case shutdown
  then show ?thesis using assms(2) by cases (auto simp: spinning_def th_updates)
qed

lemma live_run:
  assumes "th_step\<^sup>*\<^sup>* s s'" "\<not> spinning s'"
  shows "live_step\<^sup>*\<^sup>* s s'"
  using assms
proof (induction rule: rtranclp_induct)
  case (step t u)
  then have "\<not> spinning t" using spinning_stays by blast
  with step show ?case by (meson live_step_def rtranclp.rtrancl_into_rtrancl)
qed simp

definition th_start :: "threads \<Rightarrow> bool" where
  "th_start s \<longleftrightarrow> wr_inv (th_wr s) \<and> wq_list (work_of s) = [] \<and> wq_list (wait_of s) = [] \<and> pool_list (wr_pool (th_wr s)) = []
     \<and> wr_closed (th_wr s) = [] \<and> \<not> wq_shutting_down (work_of s) \<and> \<not> wq_shutting_down (wait_of s)
     \<and> (\<forall>pc \<in> set (th_workers s). pc = W_pop) \<and> (\<forall>pc \<in> set (th_listeners s). pc = L_accept) \<and> th_room s = R_top
     \<and> \<not> th_flag s \<and> th_shut s = Sh_idle \<and> th_lost s = []"

lemma th_start_inv: "th_start s \<Longrightarrow> th_inv s"
  by (simp add: th_start_def th_inv_def spinning_def)

lemma th_start_places:
  assumes "th_start s"
  shows "places_of s = (\<lambda>_. {#})"
proof -
  have "hold arriving (th_listeners s) = {#}" "hold serving (th_workers s) = {#}" "hold parking (th_workers s) = {#}"
    using assms by (auto simp: th_start_def intro!: hold_empty)
  then have "places_of s p = {#}" for p using assms by (cases p) (simp_all add: th_start_def)
  then show ?thesis by blast
qed

lemma run_inv: "th_start s0 \<Longrightarrow> th_step\<^sup>*\<^sup>* s0 s \<Longrightarrow> \<not> spinning s \<Longrightarrow> th_inv s"
  using pool.inv_run live_run th_start_inv by blast

lemma run_lifecycle:
  "th_start s0 \<Longrightarrow> th_step\<^sup>*\<^sup>* s0 s \<Longrightarrow> \<not> spinning s \<Longrightarrow> lc_step\<^sup>*\<^sup>* (\<lambda>_. {#}) (places_of s)"
  using pool.sim_run [OF live_run [of s0 s] th_start_inv [of s0]] th_start_places [of s0] by simp

end
