(* ===== verification/EndToEnd.thy ===== *)
theory EndToEnd
  imports Worker
begin

text \<open>
  Requests from bytes to bytes: what a worker's round (theory \<open>Worker\<close>) sends for the bytes a client
  sends, however the transport cuts them.  The stages are those of theories \<open>HeaderReader\<close>,
  \<open>Http1\<close>, \<open>Validator\<close>, \<open>HandlerStatic\<close> and \<open>HttpCommon\<close>.
\<close>

subsection \<open>Where a head ends\<close>

lemma find_blank_line:
  "CR \<notin> set l \<Longrightarrow> find_sub (CRLF @ CRLF) (l @ CRLF @ r) =
     (if is_prefix CRLF r then Some (length l)
      else map_option (\<lambda>i. length l + 2 + i) (find_sub (CRLF @ CRLF) r))"
proof (induction l)
  case Nil
  show ?case by (simp add: option.map_comp comp_def)
next
  case (Cons c l)
  then have "CR \<noteq> c" by auto
  with Cons show ?case by (simp add: option.map_comp comp_def)
qed

definition lines :: "string list \<Rightarrow> string" where
  "lines ls = concat (map (\<lambda>l. l @ CRLF) ls)"

lemma lines_simps [simp]: "lines [] = []" "lines (l # ls) = l @ CRLF @ lines ls"
  by (simp_all add: lines_def)

lemma find_head_end:
  assumes "ls \<noteq> []" "\<forall>l \<in> set ls. l \<noteq> [] \<and> CR \<notin> set l"
  shows "find_sub (CRLF @ CRLF) (lines ls @ CRLF @ rest) = Some (length (lines ls) - 2)"
  using assms
proof (induction ls)
  case (Cons l ls)
  show ?case
  proof (cases ls)
    case Nil
    then show ?thesis using find_blank_line [of l "CRLF @ rest"] Cons.prems by simp
  next
    case l': (Cons l' ls')
    then obtain c t where "l' = c # t" "c \<noteq> CR" using Cons.prems by (cases l') auto
    then have "\<not> is_prefix CRLF (lines ls @ CRLF @ rest)" by (simp add: l')
    moreover have "2 \<le> length (lines ls)" by (simp add: l')
    ultimately show ?thesis
      using find_blank_line [of l "lines ls @ CRLF @ rest"] Cons.IH Cons.prems l' by simp
  qed
qed simp

subsection \<open>Well-formed requests\<close>

definition request_text :: "string \<Rightarrow> string \<Rightarrow> string \<Rightarrow> (string \<times> string) list \<Rightarrow> string" where
  "request_text m u v hs = request_line m u v @ concat (map header_line hs) @ CRLF"

definition request_ok :: "string \<Rightarrow> string \<Rightarrow> string \<Rightarrow> (string \<times> string) list \<Rightarrow> bool" where
  "request_ok m u v hs \<longleftrightarrow> request_line_ok m u v \<and> CR \<notin> set (m @ u) \<and> (\<forall>kx \<in> set hs. header_ok kx)
     \<and> length hs \<le> 128 \<and> length (request_text m u v hs) \<le> MAX_HEADER_SIZE - 1"

definition request_lines :: "string \<Rightarrow> string \<Rightarrow> string \<Rightarrow> (string \<times> string) list \<Rightarrow> string list" where
  "request_lines m u v hs = (m @ '' '' @ u @ '' '' @ v) # map (\<lambda>kx. fst kx @ '': '' @ snd kx) hs"

lemma request_text_lines: "request_text m u v hs = lines (request_lines m u v hs) @ CRLF"
  by (simp add: request_text_def request_lines_def request_line_def lines_def header_line_def [abs_def] comp_def)

lemma header_ok_clean:
  "\<forall>kx \<in> set hs. header_ok kx \<Longrightarrow> (k, x) \<in> set hs \<Longrightarrow>
     CR \<notin> set k \<and> CR \<notin> set x \<and> NUL \<notin> set k \<and> NUL \<notin> set x"
  by (auto simp: header_ok_def)

lemma request_lines_clean:
  assumes "request_ok m u v hs" "l \<in> set (request_lines m u v hs)"
  shows "l \<noteq> [] \<and> CR \<notin> set l \<and> NUL \<notin> set l"
  using assms by (auto simp: request_ok_def request_lines_def request_line_ok_def dest: header_ok_clean)

lemma request_text_end:
  assumes "request_ok m u v hs"
  shows "find_sub (CRLF @ CRLF) (request_text m u v hs @ rest) = Some (length (request_text m u v hs) - 4)"
    "NUL \<notin> set (request_text m u v hs)" "4 \<le> length (request_text m u v hs)"
proof -
  let ?ls = "request_lines m u v hs"
  have "?ls \<noteq> []" by (simp add: request_lines_def)
  then have "find_sub (CRLF @ CRLF) (lines ?ls @ CRLF @ rest) = Some (length (lines ?ls) - 2)"
    using request_lines_clean [OF assms] by (intro find_head_end) auto
  then show "find_sub (CRLF @ CRLF) (request_text m u v hs @ rest) = Some (length (request_text m u v hs) - 4)"
    by (simp add: request_text_lines)
  show "NUL \<notin> set (request_text m u v hs)"
    using request_lines_clean [OF assms] by (auto simp: request_text_lines lines_def)
  show "4 \<le> length (request_text m u v hs)"
    by (simp add: request_text_def request_line_def)
qed

lemma cstr_append_clean: "NUL \<notin> set a \<Longrightarrow> cstr (a @ b) = a @ cstr b"
  unfolding cstr_def by (subst takeWhile_append2) auto

lemma read_request:
  assumes "request_ok m u v hs" "\<forall>ev \<in> set evs. carries_on c ev"
    "received evs = request_text m u v hs @ rest"
  shows "\<exists>ctx1 evs'. read_http_headers (zero_ctx c t) evs = Inr (Returns 0 (ctx1, evs'))
     \<and> only_reader_fields (zero_ctx c t) ctx1
     \<and> take (ctx_header_bytes_read ctx1) (ctx_header_buffer ctx1) = request_text m u v hs"
proof -
  let ?h = "request_text m u v hs"
  note e = request_text_end [OF assms(1)]
  have len: "length ?h \<le> MAX_HEADER_SIZE - 1" using assms(1) by (simp add: request_ok_def)
  then have "take (MAX_HEADER_SIZE - 1) (?h @ rest) = ?h @ take (MAX_HEADER_SIZE - 1 - length ?h) rest" by simp
  then have f: "find_sub (CRLF @ CRLF) (cstr (take (MAX_HEADER_SIZE - 1) (?h @ rest))) = Some (length ?h - 4)"
    using e(1) by (simp add: cstr_append_clean [OF e(2)])
  have "\<forall>ev \<in> set evs. carries_on (ctx_conn (zero_ctx c t)) ev" using assms(2) by (simp add: zero_ctx_def)
  from reader_main [OF this partial_head_zero]
  have "head_outcome (zero_ctx c t) (?h @ rest) (read_http_headers (zero_ctx c t) evs)" by (simp add: assms(3))
  then obtain ctx1 evs' where r: "read_http_headers (zero_ctx c t) evs = Inr (Returns 0 (ctx1, evs'))"
      "head_read (zero_ctx c t) ctx1 (length ?h - 4) (?h @ rest) evs'"
    unfolding head_outcome_def f by auto
  then show ?thesis using e(3) by (auto simp: head_read_def)
qed

text \<open>What the parser leaves, as a function of the automaton's final state.\<close>

lemma parse_http1_run:
  assumes "parse_loop (parser_start (ctx_h1 ctx)) buf = Inr s"
  shows "\<exists>l. parse_http1 ctx buf = Inr (if wants_h2c (ps_h1 s) then 1 else 0,
     ctx\<lparr>ctx_h1 := ps_h1 s, ctx_log := l,
         ctx_conn := (ctx_conn ctx)\<lparr>conn_protocol :=
           if \<not> wants_h2c (ps_h1 s) \<and> strcasecmp_eq (h1_version (ps_h1 s)) ''HTTP/1.0''
           then PROTO_HTTP10 else conn_protocol (ctx_conn ctx)\<rparr>\<rparr>)"
proof -
  have same: "ctx\<lparr>ctx_h1 := h, ctx_log := ctx_log ctx, ctx_conn := (ctx_conn ctx)\<lparr>conn_protocol := conn_protocol (ctx_conn ctx)\<rparr>\<rparr>
      = ctx\<lparr>ctx_h1 := h\<rparr>" for h by simp
  consider "wants_h2c (ps_h1 s)" | "\<not> wants_h2c (ps_h1 s)" "strcasecmp_eq (h1_version (ps_h1 s)) ''HTTP/1.0''"
    | "\<not> wants_h2c (ps_h1 s)" "\<not> strcasecmp_eq (h1_version (ps_h1 s)) ''HTTP/1.0''" by blast
  then show ?thesis
  proof cases
    case 1
    then show ?thesis
      by (intro exI [of _ "ctx_log ctx @ [(L_INFO, ''h2c upgrade detected'')]"])
        (simp add: parse_http1_def assms Let_def emit_def)
  next
    case 2
    then show ?thesis
      by (intro exI [of _ "ctx_log ctx"]) (simp add: parse_http1_def assms Let_def)
  next
    case 3
    then show ?thesis
      by (intro exI [of _ "ctx_log ctx"]) (simp add: parse_http1_def assms Let_def same)
  qed
qed

lemma ingress_of_request_any:
  assumes "request_ok m u v hs" "\<forall>ev \<in> set evs. carries_on c ev"
    "received evs = request_text m u v hs @ rest" "\<not> asks_h2c hs" "conn_protocol c \<noteq> PROTO_HTTP2"
  shows "\<exists>ctx' evs'. process_ingress (zero_ctx c t) evs = Inr (Returns 0 (ctx', evs'))
     \<and> parsed_as (ctx_h1 ctx') m u v hs \<and> fresh_response ctx' \<and> ctx_status_code ctx' = 0
     \<and> ctx_conn ctx' = c\<lparr>conn_protocol :=
          if strcasecmp_eq (take 15 v) ''HTTP/1.0'' then PROTO_HTTP10 else conn_protocol c\<rparr>"
proof -
  let ?h = "request_text m u v hs"
  obtain ctx1 evs' where r: "read_http_headers (zero_ctx c t) evs = Inr (Returns 0 (ctx1, evs'))"
      "only_reader_fields (zero_ctx c t) ctx1"
      "take (ctx_header_bytes_read ctx1) (ctx_header_buffer ctx1) = ?h"
    using read_request [OF assms(1-3)] by blast
  have ok: "request_line_ok m u v" "\<forall>kx \<in> set hs. header_ok kx" "take 128 hs = hs"
    using assms(1) by (simp_all add: request_ok_def)
  have head: "?h = request_line m u v @ concat (map header_line hs) @ [CR] @ LF # []"
    by (simp add: request_text_def)
  note z = reader_leaves [OF r(2)]
  obtain st where st: "parse_loop (parser_start zero_h1) ?h = Inr st" "parsed_as (ps_h1 st) m u v hs"
    using parse_head [OF ok(1,2), of "[CR]" "[]"] ok(3) unfolding head by auto
  have up: "\<not> wants_h2c (ps_h1 st)" using wants_h2c_parsed [OF st(2) ok(2)] assms(4) by simp
  have "cstr (take 15 v) = take 15 v"
    using ok(1) by (intro cstr_id) (auto simp: request_line_ok_def dest: in_set_takeD)
  then have ver: "strcasecmp_eq (h1_version (ps_h1 st)) ''HTTP/1.0'' = strcasecmp_eq (take 15 v) ''HTTP/1.0''"
    using st(2) by (simp add: parsed_as_def strcasecmp_eq_def)
  have h1: "ctx_h1 ctx1 = zero_h1" using z(1) by (simp add: zero_ctx_def)
  obtain l where p: "parse_http1 ctx1 ?h = Inr (0, ctx1\<lparr>ctx_h1 := ps_h1 st, ctx_log := l,
         ctx_conn := (ctx_conn ctx1)\<lparr>conn_protocol :=
           if strcasecmp_eq (take 15 v) ''HTTP/1.0'' then PROTO_HTTP10 else conn_protocol (ctx_conn ctx1)\<rparr>\<rparr>)"
    using parse_http1_run [of ctx1 ?h st] st(1) up ver h1 by auto
  have c: "ctx_conn ctx1 = c" "ctx_response ctx1 = zero_response" "ctx_status_code ctx1 = 0"
    using z by (simp_all add: zero_ctx_def)
  have "process_ingress (zero_ctx c t) evs = Inr (Returns 0 (ctx1\<lparr>ctx_h1 := ps_h1 st, ctx_log := l,
         ctx_conn := c\<lparr>conn_protocol :=
           if strcasecmp_eq (take 15 v) ''HTTP/1.0'' then PROTO_HTTP10 else conn_protocol c\<rparr>\<rparr>, evs'))"
    using assms(5) c(1) by (simp add: process_ingress_def r(1,3) p UPGRADE_REQUIRED_def)
  then show ?thesis using st(2) c by (simp add: fresh_response_def)
qed

subsection \<open>Headers of a parsed request\<close>

definition header_in :: "(string \<times> string) list \<Rightarrow> string \<Rightarrow> (string \<times> string) option" where
  "header_in hs name = find (\<lambda>kx. strcasecmp_eq (take 127 (fst kx)) name) hs"

lemma find_index:
  "(case find (\<lambda>i. P (xs ! i)) [0..<length xs] of None \<Rightarrow> find P xs = None | Some i \<Rightarrow> i < length xs \<and> find P xs = Some (xs ! i))"
proof (cases "find (\<lambda>i. P (xs ! i)) [0..<length xs]")
  case None
  then have "find P xs = None" by (auto simp: find_None_iff in_set_conv_nth)
  with None show ?thesis by simp
next
  case (Some i)
  then have "i < length xs \<and> P (xs ! i) \<and> (\<forall>j < i. \<not> P (xs ! j))" by (auto simp: find_Some_iff)
  then have "find P xs = Some (xs ! i)" by (auto simp: find_Some_iff)
  then show ?thesis using Some \<open>i < length xs \<and> _\<close> by simp
qed

lemma parsed_header:
  assumes "parsed_as h m u v hs" "\<forall>kx \<in> set hs. header_ok kx"
  shows "case find_header h name of
       None \<Rightarrow> header_in hs name = None
     | Some i \<Rightarrow> \<exists>kx. header_in hs name = Some kx \<and> cstr (header_value h i) = take 4095 (snd kx)"
proof -
  have key: "strcasecmp_eq (header_key h i) name = strcasecmp_eq (take 127 (fst (hs ! i))) name" if "i < length hs" for i
  proof -
    have "NUL \<notin> set (fst (hs ! i))" using assms(2) nth_mem [OF that] by (auto simp: header_ok_def)
    then have "cstr (take 127 (fst (hs ! i))) = take 127 (fst (hs ! i))" by (meson cstr_id in_set_takeD)
    with assms(1) that show ?thesis by (simp add: parsed_as_def strcasecmp_eq_def)
  qed
  have "find_header h name = find (\<lambda>i. strcasecmp_eq (take 127 (fst (hs ! i))) name) [0..<length hs]"
    unfolding find_header_def using assms(1) key
    by (intro find_cong) (auto simp: parsed_as_def)
  with find_index [of "\<lambda>kx. strcasecmp_eq (take 127 (fst kx)) name" hs] assms(1)
  show ?thesis by (auto simp: header_in_def parsed_as_def simp del: split_paired_Ex split: option.splits)
qed

lemma parsed_confirm:
  assumes "parsed_as (ctx_h1 ctx) m u v hs" "\<forall>kx \<in> set hs. header_ok kx"
  shows "confirm_header_exists ctx name \<longleftrightarrow> header_in hs name \<noteq> None"
  using parsed_header [OF assms, of name] by (auto simp: confirm_header_exists_def split: option.splits)

definition says_close_in :: "(string \<times> string) list \<Rightarrow> bool" where
  "says_close_in hs \<longleftrightarrow>
     (case header_in hs ''Connection'' of None \<Rightarrow> False | Some kx \<Rightarrow> take 4095 (snd kx) = ''close'')"

lemma parsed_closes:
  assumes "parsed_as (ctx_h1 ctx) m u v hs" "\<forall>kx \<in> set hs. header_ok kx"
  shows "client_closes ctx = says_close_in hs"
  using parsed_header [OF assms, of "''Connection''"]
  by (auto simp: client_closes_def says_close_in_def get_header_value_def split: option.splits)

subsection \<open>A file requested and sent\<close>

lemma response_text_pairs:
  "response_text ctx = status_line (ctx_status_code ctx)
     @ concat (map header_line (header_pairs (ctx_response ctx))) @ CRLF"
  by (simp add: response_text_def header_pairs_def header_text_def [abs_def] header_line_def [abs_def] comp_def)

text \<open>The bytes of a 200 response with the file \<open>b\<close> of time \<open>t\<close> at \<open>path\<close>.\<close>

definition file_bytes :: "handler_env \<Rightarrow> string \<Rightarrow> int \<Rightarrow> string \<Rightarrow> string" where
  "file_bytes env path t b =
     ''HTTP/1.1 200 OK'' @ CRLF
     @ concat (map header_line
        [(''Server'', cstr (server_tok (he_conf env))), (''Date'', cstr (imf_fixdate (he_now env))),
         (''Content-Type'', get_mime_type path), (''Last-Modified'', cstr (imf_fixdate t)),
         (''Content-Length'', show_nat (length b)), (''Connection'', ''keep-alive''),
         (''Content-Language'', ''en-CA'')])
     @ CRLF @ b"

lemma status_line_200: "status_line 200 = ''HTTP/1.1 200 OK'' @ CRLF"
proof -
  have "show_int 200 = ''200''" by (simp add: show_int_def show_nat.simps digit_char_def) code_simp
  moreover have "http_status_to_string 200 = ''OK''" by (simp add: http_status_to_string_def status_table_def)
  ultimately show ?thesis by (simp add: status_line_def)
qed

lemma get_handler_bytes:
  assumes "env_ok env" "fresh_response ctx" "ctx_status_code ctx = 200" "ctx_method ctx = Some M_GET"
    "resolve_path (doc_root (he_conf env)) (cstr (h1_uri (ctx_h1 ctx))) PATH_MAX = Inr path"
    "fa_stat (he_fs env path) = Some (length b, t)" "fa_open (he_fs env path)" "fa_map (he_fs env path) = Some b"
    "b \<noteq> []" "length b < 2 ^ 31"
  shows "\<exists>ctx2. call_handler env (route_request ctx) = Inr ctx2 \<and> small_headers 64 ctx2 \<and> status32 ctx2
     \<and> body_ok (ctx_response ctx2) \<and> resp_body_len (ctx_response ctx2) = length b
     \<and> response_text ctx2 @ sent_body ctx2 = file_bytes env path t b \<and> sent_body ctx2 = b
     \<and> ctx_conn ctx2 = ctx_conn ctx \<and> ctx_h1 ctx2 = ctx_h1 ctx \<and> \<not> says_close (ctx_response ctx2)"
proof -
  let ?r = "route_request ctx"
  let ?c = "file_headers env path (length b) t ?r"
  let ?w = "with_body (he_fs env path) ?c"
  have fr: "fresh_response ?r" using assms(2) by (simp add: fresh_response_def)
  have t: "time_ok t" using assms(1,6) by (auto simp: env_ok_def)
  have "counted ?r" "length (resp_headers (ctx_response ?r)) < 50" using fresh_counted [OF fr] by simp_all
  then have "handle_get_head env ?r = Inr (file_result env path ?r)"
    using assms(1,5) by (intro handle_get_head_eq) simp_all
  moreover have "file_result env path ?r = ?w" using assms(4,6,9) by (simp add: file_result_def Let_def)
  moreover have "ctx_handler ?r = Some handle_static_ptr" using assms(3) by (simp add: route_request_def)
  ultimately have call: "call_handler env ?r = Inr ?w"
    using assms(4) by (simp add: call_handler_def handle_static_def)
  have "small_headers 10 ?c"
    using small_file_headers [OF assms(1) _ t, of 0 ?r] fresh_counted [OF fr] by force
  then have sm: "small_headers 64 ?c" by (rule small_mono) simp
  have "cstr (int_to_string (to_int32 (int (length b)))) = show_nat (length b)"
    using assms(10) to_int32_id [of "int (length b)"] int_to_string_plain [of "int (length b)"] by (simp add: show_int_def)
  then have pairs: "header_pairs (ctx_response ?c) =
        [(''Server'', cstr (server_tok (he_conf env))), (''Date'', cstr (imf_fixdate (he_now env))),
         (''Content-Type'', get_mime_type path), (''Last-Modified'', cstr (imf_fixdate t)),
         (''Content-Length'', show_nat (length b)), (''Connection'', ''keep-alive''),
         (''Content-Language'', ''en-CA'')]"
    using file_headers_pairs [OF assms(1) fr t] by simp
  have wp: "header_pairs (ctx_response ?w) = header_pairs (ctx_response ?c)"
    by (rule header_pairs_body) simp_all
  have body: "resp_body_data (ctx_response ?w) = Some (Mapped b)" "resp_body_len (ctx_response ?w) = length b"
      "resp_is_mmap (ctx_response ?w)"
    using assms(7,8) by (simp_all add: with_body_def resp_map_file_to_ctx_def)
  have sb: "sent_body ?w = b" using body assms(4) by (simp add: sent_body_def)
  have "response_text ?w @ sent_body ?w = file_bytes env path t b"
    by (simp add: response_text_pairs wp pairs assms(3) status_line_200 sb file_bytes_def)
  moreover have "small_headers 64 ?w" using sm by (simp add: small_headers_def counted_def)
  moreover have "\<not> says_close (ctx_response ?w)" by (simp add: says_close_def wp pairs connection_names)
  ultimately show ?thesis
    using call body sb assms(3) by (auto simp: status32_def body_ok_def)
qed

lemma dotdot_free_parsed:
  "parsed_as h m u v hs \<Longrightarrow> dotdot_free (take 4095 u) \<Longrightarrow> \<nexists>a b. cstr (h1_uri h) = a @ ''..'' @ b"
  by (simp add: parsed_as_def dotdot_free_def)

lemma validated_get:
  assumes "parsed_as (ctx_h1 ctx) ''GET'' u v hs" "\<forall>kx \<in> set hs. header_ok kx" "dotdot_free (take 4095 u)"
    "header_in hs ''Host'' \<noteq> None \<or> conn_protocol (ctx_conn ctx) = PROTO_HTTP10"
  shows "ctx_status_code (validate_request ctx) = 200" "ctx_method (validate_request ctx) = Some M_GET"
proof -
  have m: "cstr (h1_method (ctx_h1 ctx)) = ''GET''" using assms(1) by (simp add: parsed_as_def)
  then show "ctx_status_code (validate_request ctx) = 200"
    using parsed_confirm [OF assms(1,2), of "''Host''"] dotdot_free_parsed [OF assms(1,3)] assms(4)
    by (auto simp: validate_ok_iff)
  have "method_of (h1_method (ctx_h1 ctx)) = Some M_GET" using m by (simp add: method_of_def strcmp_literal)
  then show "ctx_method (validate_request ctx) = Some M_GET" by (simp add: validate_kind)
qed

text \<open>The handshake is done or there is none to do.\<close>

definition ready :: "worker_env \<Rightarrow> conn_t \<Rightarrow> bool" where
  "ready we conn \<longleftrightarrow> we_calloc we \<and> (conn_ssl conn = None \<or> we_init_finished we)"

lemma ready_round:
  assumes "ready we conn"
  shows "worker_round we conn = request_round we (zero_ctx (sniffed we conn) (we_clock we))"
proof -
  have "conn_ssl (sniffed we conn) = conn_ssl conn" using sniffed_peer [of conn we] by (simp add: same_peer_def)
  with assms show ?thesis by (auto simp: worker_round_def ready_def Let_def)
qed

text \<open>
  A GET for a file, from bytes to bytes: when the bytes received are a well-formed request
  with a Host header, in whatever pieces they come, and its path leads to a non-empty file, the worker
  sends the status line, the seven headers, a blank line and the bytes of the file, nothing more and
  nothing less; then it parks the connection exactly when it speaks HTTP/1.1 and the request does not
  say \<open>Connection: close\<close>, and closes it otherwise.
\<close>

theorem file_request_served:
  assumes "env_ok (we_handler we)" "ready we conn" "conn_protocol (sniffed we conn) = PROTO_HTTP11"
    and "request_ok ''GET'' u v hs" "\<forall>ev \<in> set (we_reads we). carries_on (sniffed we conn) ev"
      "received (we_reads we) = request_text ''GET'' u v hs @ rest"
      "\<not> asks_h2c hs" "header_in hs ''Host'' \<noteq> None" "dotdot_free (take 4095 u)"
    and "resolve_path (doc_root (he_conf (we_handler we))) (take 4095 u) PATH_MAX = Inr path"
      "fa_stat (he_fs (we_handler we) path) = Some (length b, t)" "fa_open (he_fs (we_handler we) path)"
      "fa_map (he_fs (we_handler we) path) = Some b" "b \<noteq> []" "length b < 2 ^ 31"
    and "we_write1 we = Took k1" "HEADER_BUFFER_SIZE \<le> k1" "we_write2 we = Took k2" "length b \<le> k2"
  shows "\<exists>ctx k acts. worker_round we conn
       = Inr (Returns k (Act_sent (file_bytes (we_handler we) path t b) # Act_access ctx # acts))
     \<and> (if strcasecmp_eq (take 15 v) ''HTTP/1.0'' \<or> says_close_in hs then closes conn acts else parks conn acts)"
proof -
  let ?c = "sniffed we conn"
  let ?env = "we_handler we"
  have ok: "\<forall>kx \<in> set hs. header_ok kx" using assms(4) by (simp add: request_ok_def)
  have h2: "conn_protocol ?c \<noteq> PROTO_HTTP2" using assms(3) by simp
  obtain ctx1 evs' where i: "process_ingress (zero_ctx ?c (we_clock we)) (we_reads we) = Inr (Returns 0 (ctx1, evs'))"
      "parsed_as (ctx_h1 ctx1) ''GET'' u v hs" "fresh_response ctx1"
      "ctx_conn ctx1 = ?c\<lparr>conn_protocol := if strcasecmp_eq (take 15 v) ''HTTP/1.0'' then PROTO_HTTP10 else conn_protocol ?c\<rparr>"
    using ingress_of_request_any [OF assms(4-7) h2] by blast
  let ?v = "validate_request ctx1"
  have v: "ctx_status_code ?v = 200" "ctx_method ?v = Some M_GET"
    using validated_get [OF i(2) ok assms(9)] assms(8) by auto
  have uri: "cstr (h1_uri (ctx_h1 ?v)) = take 4095 u" using i(2) by (simp add: parsed_as_def)
  obtain ctx2 where h: "call_handler ?env (route_request ?v) = Inr ctx2" "small_headers 64 ctx2" "status32 ctx2"
      "body_ok (ctx_response ctx2)" "resp_body_len (ctx_response ctx2) = length b"
      "response_text ctx2 @ sent_body ctx2 = file_bytes ?env path t b" "sent_body ctx2 = b"
      "ctx_conn ctx2 = ctx_conn ctx1" "ctx_h1 ctx2 = ctx_h1 ctx1" "\<not> says_close (ctx_response ctx2)"
    using get_handler_bytes [OF assms(1) validate_keeps(1) [OF i(3)] v _ assms(11-15)] assms(10) uri by auto
  have "length (response_text ctx2) < HEADER_BUFFER_SIZE"
    using h(2,3) by (intro small_headers_fit) (auto simp: status32_def)
  then have whole: "take k1 (response_text ctx2) = response_text ctx2" using assms(17) by simp
  obtain bf l where s: "send_response ctx2 (we_write1 we) (we_write2 we) = Inr (0, file_bytes ?env path t b, logged_response ctx2 bf l)"
    using send_response_any [OF h(2-4), of "we_write1 we" "we_write2 we"] h(5-7) assms(15,16,18,19) whole by auto
  let ?ctx3 = "logged_response ctx2 bf l"
  have round: "worker_round we conn
      = finish_request we 0 [Act_sent (file_bytes ?env path t b), Act_access ?ctx3] ?ctx3"
    by (simp add: ready_round [OF assms(2)] request_round_def i(1) h(1) s)
  have keep: "should_keep_alive ?ctx3 \<longleftrightarrow> \<not> strcasecmp_eq (take 15 v) ''HTTP/1.0'' \<and> \<not> says_close_in hs"
  proof -
    have "client_closes ?ctx3 = says_close_in hs"
      using parsed_closes [of ?ctx3 "''GET''" u v hs] i(2) ok h(9) by simp
    moreover have "\<not> says_close (ctx_response ?ctx3)" using h(10) by (simp add: says_close_def)
    ultimately show ?thesis using i(4) h(8) assms(3) by (auto simp: should_keep_alive_iff)
  qed
  have peer: "same_peer conn (ctx_conn ?ctx3)"
    using sniffed_peer [of conn we] h(8) i(4) by (simp add: same_peer_def)
  show ?thesis
  proof (cases "should_keep_alive ?ctx3")
    case True
    then have "parks conn [Act_park (keepalive_conn we (ctx_conn ?ctx3))]"
      using peer by (auto simp: parks_def keepalive_conn_def same_peer_def should_keep_alive_iff)
    with True keep round show ?thesis by (auto simp: finish_request_def)
  next
    case False
    have "closes conn [Act_close (close_connection (ctx_conn ?ctx3))]"
      "closes conn [Act_close (close_connection (ctx_conn ?ctx3)), Act_release (cleanup_request_resources ?ctx3), Act_free_ctx]"
      using same_peer_close [OF peer] by (simp_all add: closes_def)
    with False keep round show ?thesis by (auto simp: finish_request_def cleanup_def)
  qed
qed

definition example_hs :: "(string \<times> string) list" where
  "example_hs = [(''Host'', ''a'')]"

definition http11_conn :: conn_t where
  "http11_conn = zero_conn\<lparr>conn_protocol := PROTO_HTTP11\<rparr>"

lemma example_request_ok: "request_ok ''GET'' ''/a.txt'' ''HTTP/1.1'' example_hs"
  by (simp add: request_ok_def request_line_ok_def header_ok_def example_hs_def MAX_HEADER_SIZE_def
      request_text_def request_line_def header_line_def)

lemma example_hs_facts: "\<not> asks_h2c example_hs" "header_in example_hs ''Host'' \<noteq> None" "\<not> says_close_in example_hs"
proof -
  have "\<not> strcasecmp_eq ''Host'' ''Upgrade''" "\<not> strcasecmp_eq ''Host'' ''Connection''" by code_simp+
  then show "\<not> asks_h2c example_hs" "header_in example_hs ''Host'' \<noteq> None" "\<not> says_close_in example_hs"
    by (simp_all add: asks_h2c_def example_hs_def header_in_def says_close_in_def)
qed

theorem file_request_served_witness:
  "\<exists>ctx k acts. worker_round (example_worker_env [Got (request_text ''GET'' ''/a.txt'' ''HTTP/1.1'' example_hs)]) http11_conn
     = Inr (Returns k (Act_sent (file_bytes example_env ''/srv/a.txt'' 0 ''hi'') # Act_access ctx # acts))
     \<and> parks http11_conn acts"
proof -
  let ?we = "example_worker_env [Got (request_text ''GET'' ''/a.txt'' ''HTTP/1.1'' example_hs)]"
  have we: "we_handler ?we = example_env" "we_write1 ?we = Took 9000" "we_write2 ?we = Took 9000"
    "we_reads ?we = [Got (request_text ''GET'' ''/a.txt'' ''HTTP/1.1'' example_hs)]"
    by (simp_all add: example_worker_env_def)
  have c: "sniffed ?we http11_conn = http11_conn" by (simp add: sniffed_def http11_conn_def)
  have r: "ready ?we http11_conn" by (simp add: ready_def example_worker_env_def)
  have p: "conn_protocol (sniffed ?we http11_conn) = PROTO_HTTP11" unfolding c by (simp add: http11_conn_def)
  have env: "env_ok (we_handler ?we)" by (simp add: we example_env_ok)
  have carry: "\<forall>ev \<in> set (we_reads ?we). carries_on (sniffed ?we http11_conn) ev"
    using request_text_end(3) [OF example_request_ok] by (auto simp: we carries_on_def)
  have rcv: "received (we_reads ?we) = request_text ''GET'' ''/a.txt'' ''HTTP/1.1'' example_hs @ []"
    by (simp add: we)
  have dot: "dotdot_free (take 4095 ''/a.txt'')" by (simp add: dotdot_free_iff)
  have path: "resolve_path (doc_root (he_conf (we_handler ?we))) (take 4095 ''/a.txt'') PATH_MAX = Inr ''/srv/a.txt''"
    by (simp add: we example_env_def resolve_path_def snprintf_buf_def PATH_MAX_def)
  have fil: "fa_stat (he_fs (we_handler ?we) ''/srv/a.txt'') = Some (length ''hi'', 0)"
      "fa_open (he_fs (we_handler ?we) ''/srv/a.txt'')" "fa_map (he_fs (we_handler ?we) ''/srv/a.txt'') = Some ''hi''"
      "''hi'' \<noteq> []" "length ''hi'' < 2 ^ 31"
    by (simp_all add: we example_env_def)
  have "\<not> strcasecmp_eq (take 15 ''HTTP/1.1'') ''HTTP/1.0''" by code_simp
  moreover have "HEADER_BUFFER_SIZE \<le> 9000" "length ''hi'' \<le> 9000" by (simp_all add: HEADER_BUFFER_SIZE_def)
  ultimately show ?thesis
    using file_request_served [OF env r p example_request_ok carry rcv example_hs_facts(1,2) dot path fil we(2) _ we(3)]
      example_hs_facts(3) unfolding we(1) by auto
qed

text \<open>
  A client that sends 8191 bytes without a blank line gets the bare status line 431 and a
  blank line - no header field, no body - and its connection is closed.
\<close>

theorem oversized_head_answered:
  assumes "ready we conn" "\<forall>ev \<in> set (we_reads we). carries_on (sniffed we conn) ev"
    "MAX_HEADER_SIZE - 1 \<le> length (received (we_reads we))"
    "find_sub (CRLF @ CRLF) (cstr (take (MAX_HEADER_SIZE - 1) (received (we_reads we)))) = None"
    "we_write1 we = Took k1" "HEADER_BUFFER_SIZE \<le> k1" "we_write2 we = Took k2"
  shows "\<exists>ctx acts. worker_round we conn = Inr (Returns Next_conn
       (Act_sent (''HTTP/1.1 431 Request Header Fields Too Large'' @ CRLF @ CRLF) # Act_access ctx # acts))
     \<and> closes conn acts"
proof -
  let ?c = "sniffed we conn"
  let ?z = "zero_ctx ?c (we_clock we)"
  have "\<forall>ev \<in> set (we_reads we). carries_on (ctx_conn ?z) ev" using assms(2) by (simp add: zero_ctx_def)
  from reader_main [OF this partial_head_zero]
  have "head_outcome ?z (received (we_reads we)) (read_http_headers ?z (we_reads we))" by simp
  then obtain ctx1 evs' where r: "read_http_headers ?z (we_reads we) = Inr (Returns (-3) (ctx1, evs'))"
      "only_reader_fields ?z ctx1"
    using assms(3,4) unfolding head_outcome_def by auto
  let ?c1 = "set_code (Some SC_431_REQUEST_HEADER_FIELDS_TOO_LARGE) ctx1"
  have z: "ctx_response ctx1 = zero_response" "ctx_conn ctx1 = ?c" using reader_leaves [OF r(2)] by (simp_all add: zero_ctx_def)
  have i: "process_ingress ?z (we_reads we) = Inr (Returns (-1) (?c1, evs'))"
    by (simp add: process_ingress_def r(1) reader_status_def)
  have fr: "fresh_response ?c1" using z by (simp add: fresh_response_def)
  then have sm: "small_headers 64 ?c1" using fresh_counted by (auto intro: small_mono)
  have st: "status32 ?c1" by (simp add: status32_def)
  have bd: "body_ok (ctx_response ?c1)" "resp_body_len (ctx_response ?c1) < 2 ^ 31" "sent_body ?c1 = []"
    using z by (simp_all add: body_ok_def zero_response_def sent_body_def)
  have reply: "response_text ?c1 = ''HTTP/1.1 431 Request Header Fields Too Large'' @ CRLF @ CRLF"
  proof -
    have "show_int 431 = ''431''" by (simp add: show_int_def show_nat.simps digit_char_def) code_simp
    moreover have "http_status_to_string 431 = ''Request Header Fields Too Large''"
      by (simp add: http_status_to_string_def status_table_def)
    moreover have "header_pairs (ctx_response ?c1) = []" using fresh_counted [OF fr] by simp
    ultimately show ?thesis by (simp add: response_text_pairs status_line_def)
  qed
  have "length (response_text ?c1) < HEADER_BUFFER_SIZE"
    using sm st by (intro small_headers_fit) (auto simp: status32_def)
  then have "take k1 (response_text ?c1) = response_text ?c1" using assms(6) by simp
  then obtain b l where s: "send_response ?c1 (we_write1 we) (we_write2 we) = Inr (0, response_text ?c1, logged_response ?c1 b l)"
    using send_response_any [OF sm st bd(1,2), of "we_write1 we" "we_write2 we"] bd(3) assms(5,7) by auto
  let ?c2 = "logged_response ?c1 b l"
  have "worker_round we conn = cleanup [Act_sent (response_text ?c1), Act_access ?c2] ?c2"
    by (simp add: ready_round [OF assms(1)] request_round_def i s)
  moreover have "closes conn [Act_close (close_connection (ctx_conn ?c2)), Act_release (cleanup_request_resources ?c2), Act_free_ctx]"
    using same_peer_close [OF sniffed_peer, of we conn] z by (simp add: closes_def)
  ultimately show ?thesis unfolding reply by (auto simp: cleanup_def)
qed

theorem oversized_head_answered_witness:
  "\<exists>ctx acts. worker_round (example_worker_env [Got (replicate 9000 (CHR ''a''))]) http11_conn = Inr (Returns Next_conn
       (Act_sent (''HTTP/1.1 431 Request Header Fields Too Large'' @ CRLF @ CRLF) # Act_access ctx # acts))
     \<and> closes http11_conn acts"
proof -
  let ?we = "example_worker_env [Got (replicate 9000 (CHR ''a''))]"
  have "ready ?we http11_conn" by (simp add: ready_def example_worker_env_def)
  moreover have rd: "we_reads ?we = [Got (replicate 9000 (CHR ''a''))]" by (simp add: example_worker_env_def)
  then have "\<forall>ev \<in> set (we_reads ?we). carries_on (sniffed ?we http11_conn) ev" by (simp add: carries_on_def)
  moreover have "MAX_HEADER_SIZE - 1 \<le> length (received (we_reads ?we))" by (simp add: rd MAX_HEADER_SIZE_def)
  moreover have "find_sub (CRLF @ CRLF) (cstr (take (MAX_HEADER_SIZE - 1) (received (we_reads ?we)))) = None"
  proof -
    have "CR \<notin> set (cstr (take (MAX_HEADER_SIZE - 1) (received (we_reads ?we))))"
      by (auto simp: rd dest!: set_cstr_subset [THEN subsetD] in_set_takeD)
    then show ?thesis by (auto simp: find_sub_None_append)
  qed
  moreover have "we_write1 ?we = Took 9000" "HEADER_BUFFER_SIZE \<le> 9000" "we_write2 ?we = Took 9000"
    by (simp_all add: example_worker_env_def HEADER_BUFFER_SIZE_def)
  ultimately show ?thesis by (rule oversized_head_answered)
qed

end
