(* ===== verification/Reply.thy ===== *)
theory Reply
  imports EndToEnd
begin

text \<open>
  The server as a function: which reply a request deserves (\<open>reply\<close>), stated over method, path and file
  system alone, and the proof that a worker's round sends exactly its bytes for every well-formed
  request, whatever its method and however it is cut into reads.
\<close>

subsection \<open>The reply a request deserves\<close>

definition known_methods :: "string list" where
  "known_methods = [''GET'', ''HEAD'', ''PUT'', ''DELETE'', ''TRACE'', ''POST'', ''OPTIONS'']"

text \<open>\<open>addressed\<close>: the request has a Host header or is HTTP/1.0.\<close>

definition admission :: "string \<Rightarrow> string \<Rightarrow> bool \<Rightarrow> int" where
  "admission m u addressed =
     (if m \<notin> set known_methods \<or> \<not> addressed then 400
      else if \<not> dotdot_free u then 403
      else if m \<notin> {''GET'', ''HEAD'', ''OPTIONS'', ''PUT''} then 405
      else 200)"

type_synonym reply_t = "int \<times> (string \<times> string) list \<times> string"

definition common_fields :: "handler_env \<Rightarrow> (string \<times> string) list" where
  "common_fields env = [(''Server'', cstr (server_tok (he_conf env))), (''Date'', cstr (imf_fixdate (he_now env)))]"

definition error_reply :: "handler_env \<Rightarrow> string \<Rightarrow> int \<Rightarrow> reply_t" where
  "error_reply env m c =
     (c, common_fields env @ [(''Connection'', ''close''), (''Content-Type'', ''text/html'')]
         @ (if c = 405 then [(''Allow'', ''GET, HEAD, OPTIONS'')] else [])
         @ [(''Content-Length'', show_nat (length (error_page c)))],
      if m = ''GET'' then error_page c else [])"

definition mapped_bytes :: "file_answer \<Rightarrow> string" where
  "mapped_bytes fa = (if fa_open fa then (case fa_map fa of Some b \<Rightarrow> b | None \<Rightarrow> []) else [])"

definition file_reply :: "handler_env \<Rightarrow> string \<Rightarrow> string \<Rightarrow> nat \<Rightarrow> int \<Rightarrow> reply_t" where
  "file_reply env m path n t =
     (200, common_fields env
        @ [(''Content-Type'', get_mime_type path), (''Last-Modified'', cstr (imf_fixdate t)),
           (''Content-Length'', show_nat n), (''Connection'', ''keep-alive''), (''Content-Language'', ''en-CA'')],
      if m = ''GET'' \<and> n > 0 then mapped_bytes (he_fs env path) else [])"

definition options_reply :: "handler_env \<Rightarrow> reply_t" where
  "options_reply env =
     (200, common_fields env
        @ [(''Accept-Ranges'', ''bytes''), (''Allow'', ''GET, HEAD, OPTIONS''), (''Content-Length'', ''0''),
           (''Connection'', ''keep-alive'')], [])"

definition target :: "handler_env \<Rightarrow> string \<Rightarrow> string" where
  "target env u = (case resolve_path (doc_root (he_conf env)) u PATH_MAX of Inr p \<Rightarrow> p | Inl _ \<Rightarrow> [])"

definition reply :: "handler_env \<Rightarrow> string \<Rightarrow> string \<Rightarrow> bool \<Rightarrow> reply_t" where
  "reply env m u addressed =
     (let c = admission m u addressed
      in if c \<noteq> 200 then error_reply env m c
         else if m = ''OPTIONS'' then options_reply env
         else if m = ''PUT'' then (200, [], [])
         else (case fa_stat (he_fs env (target env u)) of
                 None \<Rightarrow> error_reply env m 404
               | Some (n, t) \<Rightarrow> file_reply env m (target env u) n t))"

definition reply_bytes :: "reply_t \<Rightarrow> string" where
  "reply_bytes r = (case r of (c, hs, body) \<Rightarrow> status_line c @ concat (map header_line hs) @ CRLF @ body)"

subsection \<open>The handlers give that reply\<close>

definition gives :: "request_ctx_t \<Rightarrow> reply_t \<Rightarrow> bool" where
  "gives ctx r \<longleftrightarrow> ctx_status_code ctx = fst r \<and> header_pairs (ctx_response ctx) = fst (snd r) \<and> sent_body ctx = snd (snd r)"

lemma gives_bytes: "gives ctx r \<Longrightarrow> response_text ctx @ sent_body ctx = reply_bytes r"
  by (cases r) (simp add: gives_def reply_bytes_def response_text_pairs)

lemma method_of_cstr:
  "method_of m = (if cstr m = ''GET'' then Some M_GET else if cstr m = ''HEAD'' then Some M_HEAD
     else if cstr m = ''PUT'' then Some M_PUT else if cstr m = ''DELETE'' then Some M_DELETE
     else if cstr m = ''TRACE'' then Some M_TRACE else if cstr m = ''POST'' then Some M_POST
     else if cstr m = ''OPTIONS'' then Some M_OPTIONS else None)"
  by (simp add: method_of_def strcmp_literal)

definition addressed :: "(string \<times> string) list \<Rightarrow> protocol_t \<Rightarrow> bool" where
  "addressed hs p \<longleftrightarrow> header_in hs ''Host'' \<noteq> None \<or> p = PROTO_HTTP10"

lemma validate_admission:
  assumes "parsed_as (ctx_h1 ctx) m u v hs" "\<forall>kx \<in> set hs. header_ok kx"
  shows "ctx_status_code (validate_request ctx)
      = admission (take 15 m) (take 4095 u) (addressed hs (conn_protocol (ctx_conn ctx)))"
    "ctx_method (validate_request ctx) = Some M_GET \<longleftrightarrow> take 15 m = ''GET''"
    "ctx_method (validate_request ctx) = Some M_HEAD \<longleftrightarrow> take 15 m = ''HEAD''"
    "ctx_method (validate_request ctx) = Some M_OPTIONS \<longleftrightarrow> take 15 m = ''OPTIONS''"
    "ctx_method (validate_request ctx) = Some M_PUT \<longleftrightarrow> take 15 m = ''PUT''"
proof -
  have c: "cstr (h1_method (ctx_h1 ctx)) = take 15 m" "cstr (h1_uri (ctx_h1 ctx)) = take 4095 u"
    using assms(1) by (simp_all add: parsed_as_def)
  have dd: "strstr (h1_uri (ctx_h1 ctx)) ''..'' = None \<longleftrightarrow> dotdot_free (take 4095 u)"
    using strstr_dotdot [of "h1_uri (ctx_h1 ctx)"] c(2) by (auto simp: dotdot_free_def)
  show "ctx_status_code (validate_request ctx)
      = admission (take 15 m) (take 4095 u) (addressed hs (conn_protocol (ctx_conn ctx)))"
    using parsed_confirm [OF assms, of "''Host''"] dd
    by (simp add: validate_status method_of_cstr c(1) admission_def known_methods_def addressed_def)
  show "ctx_method (validate_request ctx) = Some M_GET \<longleftrightarrow> take 15 m = ''GET''"
    "ctx_method (validate_request ctx) = Some M_HEAD \<longleftrightarrow> take 15 m = ''HEAD''"
    "ctx_method (validate_request ctx) = Some M_OPTIONS \<longleftrightarrow> take 15 m = ''OPTIONS''"
    "ctx_method (validate_request ctx) = Some M_PUT \<longleftrightarrow> take 15 m = ''PUT''"
    by (simp_all add: validate_kind method_of_cstr c(1))
qed

definition small_files :: "handler_env \<Rightarrow> bool" where
  "small_files env \<longleftrightarrow> (\<forall>p n t. fa_stat (he_fs env p) = Some (n, t) \<longrightarrow> n < 2 ^ 31)"

lemma error_gives:
  assumes "env_ok env" "fresh_response ctx" "status32 ctx" "ctx_method ctx = Some M_GET \<longleftrightarrow> m = ''GET''"
  shows "gives (error_result env ctx) (error_reply env m (ctx_status_code ctx))"
    "resp_body_len (ctx_response (error_result env ctx)) < 2 ^ 31"
proof -
  have st: "- (2 ^ 31) \<le> ctx_status_code ctx" "ctx_status_code ctx < 2 ^ 31"
    using assms(3) by (simp_all add: status32_def)
  note r = error_result_response [OF assms(1,2) st]
  show "gives (error_result env ctx) (error_reply env m (ctx_status_code ctx))"
    using assms(4) by (auto simp: gives_def error_reply_def common_fields_def r sent_body_def)
  show "resp_body_len (ctx_response (error_result env ctx)) < 2 ^ 31"
    using length_error_page [OF st] by (simp add: r)
qed

lemma file_gives:
  assumes "env_ok env" "fresh_response ctx" "ctx_status_code ctx = 200" "ctx_method ctx = Some M_GET \<longleftrightarrow> m = ''GET''"
    "maps_whole env" "fa_stat (he_fs env path) = Some (n, t)" "n < 2 ^ 31"
  shows "gives (file_result env path ctx) (file_reply env m path n t)"
    "resp_body_len (ctx_response (file_result env path ctx)) < 2 ^ 31"
proof -
  let ?c = "file_headers env path n t ctx" and ?fa = "he_fs env path"
  let ?w = "if ctx_method ctx = Some M_GET \<and> n > 0 then with_body ?fa ?c else ?c"
  have t: "time_ok t" using assms(1,6) by (auto simp: env_ok_def)
  have w: "file_result env path ctx = ?w" using assms(6) by (simp add: file_result_def Let_def)
  have "cstr (int_to_string (to_int32 (int n))) = show_nat n"
    using assms(7) to_int32_id [of "int n"] int_to_string_plain [of "int n"] by (simp add: show_int_def)
  then have "header_pairs (ctx_response ?c) = fst (snd (file_reply env m path n t))"
    using file_headers_pairs [OF assms(1,2) t] by (simp add: file_reply_def common_fields_def)
  moreover have "header_pairs (ctx_response (with_body ?fa ?c)) = header_pairs (ctx_response ?c)"
    by (rule header_pairs_body) simp_all
  moreover have "resp_body_data (ctx_response ?c) = None"
    using assms(2) by (simp add: fresh_response_def zero_response_def)
  moreover have len: "resp_body_len (ctx_response ?w) \<le> n"
    by (simp add: with_body_def resp_map_file_to_ctx_def Let_def split: option.split)
  moreover have "resp_body_data (ctx_response (with_body ?fa ?c))
      = (if fa_open ?fa then map_option Mapped (fa_map ?fa) else None)"
    using calculation(3) by (simp add: with_body_def resp_map_file_to_ctx_def Let_def split: option.split)
  moreover have "fa_map ?fa = Some b \<Longrightarrow> length b = n" for b
    using assms(5,6) by (auto simp: maps_whole_def)
  moreover have "sent_body ?w = (if m = ''GET'' \<and> n > 0 then mapped_bytes ?fa else [])"
  proof (cases "m = ''GET'' \<and> n > 0")
    case True
    then show ?thesis
      using calculation(5,6) assms(4)
      by (cases "fa_map ?fa") (simp_all add: sent_body_def mapped_bytes_def with_body_def resp_map_file_to_ctx_def)
  next
    case False
    then show ?thesis using calculation(3) assms(4) by (auto simp: sent_body_def)
  qed
  ultimately show "gives (file_result env path ctx) (file_reply env m path n t)"
    using assms(3) unfolding w by (simp add: gives_def file_reply_def)
  show "resp_body_len (ctx_response (file_result env path ctx)) < 2 ^ 31"
    using len assms(7) unfolding w by simp
qed

lemma options_gives:
  assumes "env_ok env" "fresh_response ctx" "ctx_status_code ctx = 200"
  shows "gives (options_result env ctx) (options_reply env)" "resp_body_len (ctx_response (options_result env ctx)) < 2 ^ 31"
proof -
  have "cstr (int_to_string 0) = ''0''"
    using int_to_string_plain [of 0] by (simp add: show_int_def show_nat.simps digit_char_def) code_simp
  moreover have "resp_body_data (ctx_response (options_result env ctx)) = None" "resp_body_len (ctx_response (options_result env ctx)) = 0"
    using assms(2) by (simp_all add: options_result_def fresh_response_def zero_response_def)
  ultimately show "gives (options_result env ctx) (options_reply env)" "resp_body_len (ctx_response (options_result env ctx)) < 2 ^ 31"
    using options_pairs [OF assms(1,2)] assms(3)
    by (simp_all add: gives_def options_reply_def common_fields_def sent_body_def)
qed

lemma handler_reply:
  assumes "env_ok env" "maps_whole env" "small_files env" "parsed_as (ctx_h1 ctx) m u v hs"
    "\<forall>kx \<in> set hs. header_ok kx" "fresh_response ctx"
  shows "\<exists>ctx2. call_handler env (route_request (validate_request ctx)) = Inr ctx2
     \<and> handled env (validate_request ctx) ctx2
     \<and> gives ctx2 (reply env (take 15 m) (take 4095 u) (addressed hs (conn_protocol (ctx_conn ctx))))
     \<and> resp_body_len (ctx_response ctx2) < 2 ^ 31"
proof -
  let ?v = "validate_request ctx"
  let ?r = "route_request ?v"
  let ?c = "admission (take 15 m) (take 4095 u) (addressed hs (conn_protocol (ctx_conn ctx)))"
  note v = validate_admission [OF assms(4,5)]
  have f: "fresh_response ?v" "status32 ?v" using validate_keeps assms(6) by auto
  obtain ctx2 where h: "call_handler env ?r = Inr ctx2" "handled env ?v ctx2"
    using routed_handled [OF assms(1) f] by blast
  have r: "fresh_response ?r" "status32 ?r" "ctx_method ?r = ctx_method ?v" "ctx_status_code ?r = ?c"
    using f v(1) by (simp_all add: fresh_response_def status32_def)
  have cr: "counted ?r" "length (resp_headers (ctx_response ?r)) < 50" using fresh_counted [OF r(1)] by simp_all
  have "gives ctx2 (reply env (take 15 m) (take 4095 u) (addressed hs (conn_protocol (ctx_conn ctx))))
     \<and> resp_body_len (ctx_response ctx2) < 2 ^ 31"
  proof (cases "?c = 200")
    case False
    then have "?c \<ge> 400" by (auto simp: admission_def split: if_splits)
    then have "call_handler env ?r = Inr (error_result env ?r)"
      using handle_error_eq [OF assms(1) cr] v(1) by (simp add: call_handler_def) (simp add: route_request_def)
    with h(1) have "ctx2 = error_result env ?r" by simp
    with error_gives [OF assms(1) r(1,2), of "take 15 m"] r(3,4) v(2) False
    show ?thesis by (simp add: reply_def)
  next
    case True
    let ?p = "target env (take 4095 u)"
    have "doc_root (he_conf env) \<noteq> []" "1 < PATH_MAX"
      using assms(1) by (simp_all add: env_ok_def PATH_MAX_def)
    moreover have u: "cstr (h1_uri (ctx_h1 ?r)) = take 4095 u" using assms(4) by (simp add: parsed_as_def)
    ultimately have p: "resolve_path (doc_root (he_conf env)) (cstr (h1_uri (ctx_h1 ?r))) PATH_MAX = Inr ?p"
      using resolve_path_defined [of "doc_root (he_conf env)" PATH_MAX "take 4095 u"] by (auto simp: target_def)
    have call: "call_handler env ?r = handle_static env ?r"
      using True v(1) by (simp add: call_handler_def route_request_def)
    have m: "take 15 m \<in> {''GET'', ''HEAD'', ''OPTIONS'', ''PUT''}"
      using True by (auto simp: admission_def split: if_splits)
    have st: "ctx_status_code ?r = 200" using True r(4) by simp
    show ?thesis
    proof (cases "take 15 m = ''GET'' \<or> take 15 m = ''HEAD''")
      case get: True
      then have "ctx_method ?r = Some M_GET \<or> ctx_method ?r = Some M_HEAD" using v r(3) by auto
      then have e: "ctx2 = file_result env ?p ?r"
        using h(1) call handle_get_head_eq [OF assms(1) cr p] by (auto simp: handle_static_def)
      show ?thesis
      proof (cases "fa_stat (he_fs env ?p)")
        case None
        let ?s = "resp_set_status ?r 404"
        have "fresh_response ?s" "status32 ?s" "ctx_method ?s = Some M_GET \<longleftrightarrow> take 15 m = ''GET''"
          using r v(2) by (simp_all add: fresh_response_def status32_def resp_set_status_def)
        from error_gives [OF assms(1) this] None get True e show ?thesis
          by (auto simp: reply_def file_result_def)
      next
        case (Some nt)
        obtain n t where nt: "fa_stat (he_fs env ?p) = Some (n, t)" using Some by (cases nt) auto
        then have "n < 2 ^ 31" using assms(3) by (auto simp: small_files_def)
        from file_gives [OF assms(1) r(1) st _ assms(2) nt this, of "take 15 m"] v(2) r(3) nt get True e
        show ?thesis by (auto simp: reply_def)
      qed
    next
      case False
      then consider "take 15 m = ''OPTIONS''" | "take 15 m = ''PUT''" using m by auto
      then show ?thesis
      proof cases
        case 1
        then have "ctx2 = options_result env ?r"
          using h(1) call handle_options_eq [OF assms(1) cr] v(4) r(3) by (simp add: handle_static_def)
        with options_gives [OF assms(1) r(1) st] 1 True show ?thesis by (simp add: reply_def)
      next
        case 2
        then have "ctx2 = handle_put ?r" using h(1) call v(5) r(3) by (simp add: handle_static_def)
        then show ?thesis
          using 2 True st r(1) fresh_counted [OF r(1)]
          by (auto simp: reply_def gives_def handle_put_def emit_def sent_body_def fresh_response_def zero_response_def)
      qed
    qed
  qed
  with h show ?thesis by blast
qed

subsection \<open>A worker's round sends it\<close>

lemma sent_then_disposed:
  assumes "small_headers 64 ctx" "status32 ctx" "body_ok (ctx_response ctx)" "resp_body_len (ctx_response ctx) < 2 ^ 31"
    "gives ctx r" "same_peer conn (ctx_conn ctx)"
    "we_write1 we = Took k1" "HEADER_BUFFER_SIZE \<le> k1" "we_write2 we = Took k2" "length (snd (snd r)) \<le> k2"
  shows "\<exists>ctx' k acts.
     bindR (send_response ctx (we_write1 we) (we_write2 we))
       (\<lambda>(es, out, ctx3). finish_request we es [Act_sent out, Act_access ctx3] ctx3)
       = Inr (Returns k (Act_sent (reply_bytes r) # Act_access ctx' # acts))
     \<and> ctx_h1 ctx' = ctx_h1 ctx \<and> ctx_status_code ctx' = ctx_status_code ctx \<and> ctx_conn ctx' = ctx_conn ctx
     \<and> (if should_keep_alive ctx then parks conn acts \<and> k = Next_conn
        else closes conn acts \<and> k = (if we_shutting_down we then Stop_thread else Next_conn))"
proof -
  have "length (response_text ctx) < HEADER_BUFFER_SIZE"
    using assms(1,2) by (intro small_headers_fit) (auto simp: status32_def)
  moreover have b: "sent_body ctx = snd (snd r)" using assms(5) by (simp add: gives_def)
  ultimately obtain bf l where s: "send_response ctx (we_write1 we) (we_write2 we) = Inr (0, reply_bytes r, logged_response ctx bf l)"
    using send_response_any [OF assms(1-4), of "we_write1 we" "we_write2 we"] assms(7-10) gives_bytes [OF assms(5)] by auto
  let ?ctx3 = "logged_response ctx bf l"
  have keep: "should_keep_alive ?ctx3 = should_keep_alive ctx"
    by (simp add: should_keep_alive_iff client_closes_def get_header_value_def says_close_def)
  show ?thesis
  proof (cases "should_keep_alive ctx")
    case True
    then have "parks conn [Act_park (keepalive_conn we (ctx_conn ?ctx3))]"
      using assms(6) by (auto simp: parks_def keepalive_conn_def same_peer_def should_keep_alive_iff)
    with True keep s show ?thesis by (auto simp: finish_request_def)
  next
    case False
    have "closes conn [Act_close (close_connection (ctx_conn ?ctx3))]"
      "closes conn [Act_close (close_connection (ctx_conn ?ctx3)), Act_release (cleanup_request_resources ?ctx3), Act_free_ctx]"
      using same_peer_close [OF assms(6)] by (simp_all add: closes_def)
    with False keep s show ?thesis by (auto simp: finish_request_def cleanup_def)
  qed
qed

lemma request_round_answers:
  assumes "env_ok (we_handler we)" "maps_whole (we_handler we)" "small_files (we_handler we)" "ready we conn"
      "conn_protocol (sniffed we conn) = PROTO_HTTP11"
    and "request_ok m u v hs" "\<forall>ev \<in> set (we_reads we). carries_on (sniffed we conn) ev"
      "received (we_reads we) = request_text m u v hs @ rest" "\<not> asks_h2c hs"
    and "r = reply (we_handler we) (take 15 m) (take 4095 u)
           (header_in hs ''Host'' \<noteq> None \<or> strcasecmp_eq (take 15 v) ''HTTP/1.0'')"
    and "we_write1 we = Took k1" "HEADER_BUFFER_SIZE \<le> k1" "we_write2 we = Took k2" "length (snd (snd r)) \<le> k2"
  shows "\<exists>ctx k acts. worker_round we conn = Inr (Returns k (Act_sent (reply_bytes r) # Act_access ctx # acts))
     \<and> parsed_as (ctx_h1 ctx) m u v hs \<and> ctx_status_code ctx = fst r
     \<and> conn_remote_ip (ctx_conn ctx) = conn_remote_ip conn
     \<and> (if \<not> strcasecmp_eq (take 15 v) ''HTTP/1.0'' \<and> \<not> says_close_in hs \<and> fst r < 400
        then parks conn acts \<and> k = Next_conn
        else closes conn acts \<and> k = (if we_shutting_down we then Stop_thread else Next_conn))"
proof -
  let ?c = "sniffed we conn"
  let ?env = "we_handler we"
  have ok: "\<forall>kx \<in> set hs. header_ok kx" using assms(6) by (simp add: request_ok_def)
  have h2: "conn_protocol ?c \<noteq> PROTO_HTTP2" using assms(5) by simp
  obtain ctx1 evs' where i: "process_ingress (zero_ctx ?c (we_clock we)) (we_reads we) = Inr (Returns 0 (ctx1, evs'))"
      "parsed_as (ctx_h1 ctx1) m u v hs" "fresh_response ctx1"
      "ctx_conn ctx1 = ?c\<lparr>conn_protocol := if strcasecmp_eq (take 15 v) ''HTTP/1.0'' then PROTO_HTTP10 else conn_protocol ?c\<rparr>"
    using ingress_of_request_any [OF assms(6-9) h2] by blast
  have "addressed hs (conn_protocol (ctx_conn ctx1)) \<longleftrightarrow> header_in hs ''Host'' \<noteq> None \<or> strcasecmp_eq (take 15 v) ''HTTP/1.0''"
    using i(4) assms(5) by (auto simp: addressed_def)
  with handler_reply [OF assms(1-3) i(2) ok i(3)] obtain ctx2 where
      h: "call_handler ?env (route_request (validate_request ctx1)) = Inr ctx2"
        "handled ?env (validate_request ctx1) ctx2" "gives ctx2 r" "resp_body_len (ctx_response ctx2) < 2 ^ 31"
    unfolding assms(10) by auto
  have same: "ctx_conn ctx2 = ctx_conn ctx1" "ctx_h1 ctx2 = ctx_h1 ctx1" using h(2) by (simp_all add: handled_def)
  have bd: "body_ok (ctx_response ctx2)" using h(2) assms(2) by (simp add: handled_def)
  have peer: "same_peer conn (ctx_conn ctx2)"
    using sniffed_peer [of conn we] i(4) by (simp add: same_peer_def same)
  have "client_closes ctx2 = says_close_in hs" using parsed_closes [of ctx2 m u v hs] i(2) ok same by simp
  then have keep: "should_keep_alive ctx2 \<longleftrightarrow>
      \<not> strcasecmp_eq (take 15 v) ''HTTP/1.0'' \<and> \<not> says_close_in hs \<and> fst r < 400"
    using i(4) same assms(5) h(2,3) by (auto simp: should_keep_alive_iff handled_def gives_def)
  have ip: "conn_remote_ip (sniffed we conn) = conn_remote_ip conn"
    by (auto simp: sniffed_def demux_protocol_def Let_def split: prod.split)
  have "worker_round we conn = bindR (send_response ctx2 (we_write1 we) (we_write2 we))
       (\<lambda>(es, out, ctx3). finish_request we es [Act_sent out, Act_access ctx3] ctx3)"
    by (simp add: ready_round [OF assms(4)] request_round_def i(1) h(1))
  moreover obtain ctx k acts where c: "bindR (send_response ctx2 (we_write1 we) (we_write2 we))
       (\<lambda>(es, out, ctx3). finish_request we es [Act_sent out, Act_access ctx3] ctx3)
       = Inr (Returns k (Act_sent (reply_bytes r) # Act_access ctx # acts))"
      "ctx_h1 ctx = ctx_h1 ctx2" "ctx_status_code ctx = ctx_status_code ctx2" "ctx_conn ctx = ctx_conn ctx2"
      "if should_keep_alive ctx2 then parks conn acts \<and> k = Next_conn
        else closes conn acts \<and> k = (if we_shutting_down we then Stop_thread else Next_conn)"
    using sent_then_disposed [OF _ _ bd h(4,3) peer assms(11-14)] handled_small [OF h(2)] by blast
  moreover have "parsed_as (ctx_h1 ctx) m u v hs" "ctx_status_code ctx = fst r"
      "conn_remote_ip (ctx_conn ctx) = conn_remote_ip conn"
    using i(2,4) h(3) ip c(2-4) same by (simp_all add: gives_def)
  ultimately show ?thesis
    by (intro exI [of _ ctx] exI [of _ k] exI [of _ acts]) (simp add: keep)
qed

text \<open>
  C1. The server as a function.  For every well-formed request - any method, path, version and header fields,
  cut into any reads - that does not ask for HTTP/2, a worker's round sends exactly the bytes of
  \<open>reply\<close>: the status that method, path and Host header deserve, the header fields of that
  case in their order, and the body for GET alone.  It keeps the connection exactly when the
  request is not HTTP/1.0, does not say \<open>Connection: close\<close>, and was not answered by an error; after a
  connection it does not keep, a worker goes on unless the server is shutting down.  What it logs is the
  request as parsed and the status sent.
\<close>

theorem request_answered:
  assumes "env_ok (we_handler we)" "maps_whole (we_handler we)" "small_files (we_handler we)" "ready we conn"
      "conn_protocol (sniffed we conn) = PROTO_HTTP11"
    and "request_ok m u v hs" "\<forall>ev \<in> set (we_reads we). carries_on (sniffed we conn) ev"
      "received (we_reads we) = request_text m u v hs @ rest" "\<not> asks_h2c hs"
    and "r = reply (we_handler we) (take 15 m) (take 4095 u)
           (header_in hs ''Host'' \<noteq> None \<or> strcasecmp_eq (take 15 v) ''HTTP/1.0'')"
    and "we_write1 we = Took k1" "HEADER_BUFFER_SIZE \<le> k1" "we_write2 we = Took k2" "length (snd (snd r)) \<le> k2"
  shows "\<exists>ctx k acts. worker_round we conn = Inr (Returns k (Act_sent (reply_bytes r) # Act_access ctx # acts))
     \<and> parsed_as (ctx_h1 ctx) m u v hs \<and> ctx_status_code ctx = fst r
     \<and> (if \<not> strcasecmp_eq (take 15 v) ''HTTP/1.0'' \<and> \<not> says_close_in hs \<and> fst r < 400
        then parks conn acts \<and> k = Next_conn
        else closes conn acts \<and> k = (if we_shutting_down we then Stop_thread else Next_conn))"
  using request_round_answers [OF assms] by blast

lemma example_small: "small_files example_env"
  by (simp add: small_files_def example_env_def)

subsection \<open>Sample rounds\<close>

text \<open>A plain connection just accepted.\<close>

definition fresh :: "int \<Rightarrow> conn_t" where
  "fresh fd = zero_conn\<lparr>conn_fd := fd\<rparr>"

text \<open>A round for the request \<open>m u\<close> on a connection just accepted.\<close>

definition sample_request :: "string \<Rightarrow> string \<Rightarrow> string" where
  "sample_request m u = request_text m u ''HTTP/1.1'' example_hs"

definition fresh_env :: "string \<Rightarrow> string \<Rightarrow> bool \<Rightarrow> worker_env" where
  "fresh_env m u b = (example_worker_env [Got (sample_request m u)])\<lparr>we_recv := (24, take 24 (sample_request m u), []), we_shutting_down := b\<rparr>"

lemma fresh_env_simps [simp]:
  "we_handler (fresh_env m u b) = example_env" "we_shutting_down (fresh_env m u b) = b"
  "we_write1 (fresh_env m u b) = Took 9000" "we_write2 (fresh_env m u b) = Took 9000"
  "we_reads (fresh_env m u b) = [Got (sample_request m u)]" "we_calloc (fresh_env m u b)" "we_init_finished (fresh_env m u b)"
  by (simp_all add: fresh_env_def example_worker_env_def)

lemma fresh_env_ok:
  "env_ok (we_handler (fresh_env m u b))" "maps_whole (we_handler (fresh_env m u b))"
  "small_files (we_handler (fresh_env m u b))" "reads_ok (we_reads (fresh_env m u b))"
  "received (we_reads (fresh_env m u b)) = request_text m u ''HTTP/1.1'' example_hs @ []"
  by (simp_all add: example_env_ok example_maps example_small reads_ok_def sample_request_def)

lemma fresh_ready:
  assumes "request_ok m u ''HTTP/1.1'' example_hs" "take 24 (sample_request m u) \<noteq> http2_preface"
  shows "ready (fresh_env m u b) (fresh fd)" "conn_protocol (sniffed (fresh_env m u b) (fresh fd)) = PROTO_HTTP11"
    "\<forall>ev \<in> set (we_reads (fresh_env m u b)). carries_on (sniffed (fresh_env m u b) (fresh fd)) ev"
proof -
  show "ready (fresh_env m u b) (fresh fd)" by (simp add: ready_def)
  show "conn_protocol (sniffed (fresh_env m u b) (fresh fd)) = PROTO_HTTP11"
    using assms(2) by (simp add: sniffed_def fresh_env_def fresh_def zero_conn_def demux_protocol_def)
  show "\<forall>ev \<in> set (we_reads (fresh_env m u b)). carries_on (sniffed (fresh_env m u b) (fresh fd)) ev"
    using request_text_end(3) [OF assms(1)] by (auto simp: carries_on_def sample_request_def)
qed

text \<open>Its reply, as \<open>request_answered\<close> spells it.\<close>

lemma fresh_reply:
  "reply example_env (take 15 m) (take 4095 u) True
     = reply (we_handler (fresh_env m u b)) (take 15 m) (take 4095 u)
         (header_in example_hs ''Host'' \<noteq> None \<or> strcasecmp_eq (take 15 ''HTTP/1.1'') ''HTTP/1.0'')"
  using example_hs_facts(2) by simp

lemma writes_whole: "HEADER_BUFFER_SIZE \<le> 9000"
  by (simp add: HEADER_BUFFER_SIZE_def)

lemma fresh_round:
  assumes "request_ok m u ''HTTP/1.1'' example_hs" "take 24 (sample_request m u) \<noteq> http2_preface"
    "r = reply example_env (take 15 m) (take 4095 u) True" "length (snd (snd r)) \<le> 9000"
  shows "\<exists>k acts ctx. worker_round (fresh_env m u b) (fresh fd) = Inr (Returns k acts) \<and> Act_access ctx \<in> set acts
     \<and> (if fst r < 400 then parks (fresh fd) acts else closes (fresh fd) acts \<and> k = (if b then Stop_thread else Next_conn))"
proof -
  have ver: "\<not> strcasecmp_eq (take 15 ''HTTP/1.1'') ''HTTP/1.0''" by code_simp
  note rep = assms(3) [unfolded fresh_reply [of m u b]]
  from request_round_answers [OF fresh_env_ok(1-3) fresh_ready(1,2) [OF assms(1,2), where fd = fd] assms(1) fresh_ready(3) [OF assms(1,2)]
      fresh_env_ok(5) example_hs_facts(1) rep fresh_env_simps(3) writes_whole fresh_env_simps(4) assms(4)] ver example_hs_facts(3)
  obtain ctx k acts where "worker_round (fresh_env m u b) (fresh fd) = Inr (Returns k (Act_sent (reply_bytes r) # Act_access ctx # acts))"
      "if fst r < 400 then parks (fresh fd) acts else closes (fresh fd) acts \<and> k = (if b then Stop_thread else Next_conn)"
    by (auto split: if_splits)
  then show ?thesis
    by (intro exI [of _ k] exI [of _ "Act_sent (reply_bytes r) # Act_access ctx # acts"] exI [of _ ctx])
      (auto simp: parks_def closes_def)
qed

lemma star_facts:
  "request_ok ''OPTIONS'' ''*'' ''HTTP/1.1'' example_hs" "take 24 (sample_request ''OPTIONS'' ''*'') \<noteq> http2_preface"
  "request_ok ''TRACE'' ''*'' ''HTTP/1.1'' example_hs" "take 24 (sample_request ''TRACE'' ''*'') \<noteq> http2_preface"
  "reply example_env ''OPTIONS'' ''*'' True = options_reply example_env"
  "reply example_env ''TRACE'' ''*'' True = error_reply example_env ''TRACE'' 405"
  by (simp_all add: request_ok_def request_line_ok_def header_ok_def example_hs_def MAX_HEADER_SIZE_def sample_request_def
      request_text_def request_line_def header_line_def http2_preface_def reply_def admission_def known_methods_def dotdot_free_iff)

text \<open>A DELETE is answered by the error page for 405 without its body, and closed.\<close>

theorem request_answered_witness:
  "\<exists>ctx k acts. worker_round (fresh_env ''DELETE'' ''/a.txt'' False) (fresh 5)
     = Inr (Returns k (Act_sent (reply_bytes (error_reply example_env ''DELETE'' 405)) # Act_access ctx # acts))
     \<and> closes (fresh 5) acts \<and> k = Next_conn"
proof -
  have ok: "request_ok ''DELETE'' ''/a.txt'' ''HTTP/1.1'' example_hs"
    "take 24 (sample_request ''DELETE'' ''/a.txt'') \<noteq> http2_preface"
    by (simp_all add: request_ok_def request_line_ok_def header_ok_def example_hs_def MAX_HEADER_SIZE_def
        sample_request_def request_text_def request_line_def header_line_def http2_preface_def)
  let ?r = "error_reply example_env ''DELETE'' 405"
  have "dotdot_free (take 4095 ''/a.txt'')" by (simp add: dotdot_free_iff)
  then have "?r = reply example_env (take 15 ''DELETE'') (take 4095 ''/a.txt'') True"
    by (simp add: reply_def admission_def known_methods_def)
  note rep = this [unfolded fresh_reply [of "''DELETE''" "''/a.txt''" False]]
  have b: "length (snd (snd ?r)) \<le> 9000" "\<not> fst ?r < 400" by (simp_all add: error_reply_def)
  from request_answered [OF fresh_env_ok(1-3) fresh_ready(1,2) [OF ok, where fd = 5] ok(1) fresh_ready(3) [OF ok]
      fresh_env_ok(5) example_hs_facts(1) rep fresh_env_simps(3) writes_whole fresh_env_simps(4) b(1)] b(2)
  show ?thesis by auto
qed

end
