(* ===== verification/Progress.thy ===== *)
theory Progress
  imports Threads Reply
begin

text \<open>
  When the running thread pool of theory \<open>Threads\<close> gets on and when it does not: pushes never block while
  the open connections fit the queues; workers, wait room and listeners can block each other for ever
  once they do not; and what the shutdown of \<open>src/server.c\<close> leaves behind.
\<close>

subsection \<open>While connections are few\<close>

lemma step_capacity:
  assumes "th_step s s'"
  shows "wq_capacity (work_of s') = wq_capacity (work_of s) \<and> wq_capacity (wait_of s') = wq_capacity (wait_of s)"
proof -
  have push: "queue_push q c = Inr (Returns () q') \<Longrightarrow> wq_capacity q' = wq_capacity q" for q q' :: "conn_t work_queue_t" and c
    by (auto simp: queue_push_def bindR_Inr_iff split: if_splits)
  have pop: "queue_pop q = Inr (Returns r q') \<Longrightarrow> wq_capacity q' = wq_capacity q" for q q' :: "conn_t work_queue_t" and r
    by (auto simp: queue_pop_def take_head_def bindR_Inr_iff split: if_splits)
  have trypop: "queue_trypop q = Inr (r, q') \<Longrightarrow> wq_capacity q' = wq_capacity q" for q q' :: "conn_t work_queue_t" and r
    by (auto simp: queue_trypop_def take_head_def bindR_Inr_iff split: if_splits)
  have park: "park reg c w = Inr w' \<Longrightarrow> wr_wait w' = wr_wait w \<and> wr_work w' = wr_work w" for reg c w w'
    by (auto simp: park_def wr_close_def bindR_Inr_iff Let_def split: if_splits prod.splits)
  have sweep: "sweep now w = Inr w' \<Longrightarrow> wr_wait w' = wr_wait w \<and> wr_work w' = wr_work w" for now w w'
    by (auto simp: sweep_def bindR_Inr_iff split: prod.splits)
  show ?thesis
    using assms
  proof cases
    case worker
    then show ?thesis by cases (auto simp: th_updates dest: push pop)
  next
    case listener
    then show ?thesis by cases (auto simp: th_updates dest: push)
  next
    case room
    then show ?thesis by cases (auto simp: th_updates dest!: push trypop park sweep)
  next
    case shutdown
    then show ?thesis by cases (auto simp: th_updates)
  qed
qed

lemma run_capacity:
  "th_step\<^sup>*\<^sup>* s s' \<Longrightarrow> wq_capacity (work_of s') = wq_capacity (work_of s) \<and> wq_capacity (wait_of s') = wq_capacity (wait_of s)"
  by (induction rule: rtranclp_induct) (auto dest: step_capacity)

text \<open>A thread is at a push that does not return.\<close>

definition push_blocks :: "threads \<Rightarrow> bool" where
  "push_blocks s \<longleftrightarrow>
     (\<exists>i c. worker_at s i (W_park c) \<and> (\<nexists>q. queue_push (wait_of s) c = Inr (Returns () q)))
     \<or> (\<exists>j c. listener_at s j (L_push c) \<and> (\<nexists>q. queue_push (work_of s) c = Inr (Returns () q)))
     \<or> (\<exists>c es. th_room s = R_push c es \<and> (\<nexists>q. queue_push (work_of s) c = Inr (Returns () q)))"

lemma hold_at: "i < length xs \<Longrightarrow> x \<in># f (xs ! i) \<Longrightarrow> 0 < size (hold f xs)"
proof (induction xs arbitrary: i)
  case (Cons y ys)
  then have "hold f (y # ys) \<noteq> {#}" by (cases i) (auto simp: hold_def)
  then show ?case by (simp add: nonempty_has_size)
qed simp

lemma push_succeeds:
  assumes "wq_inv q" "0 < size M" "size (fds (wq_list q)) + size M \<le> wq_capacity q"
  shows "\<exists>q'. queue_push q c = Inr (Returns () q')"
proof -
  have "wq_count q < wq_capacity q" using assms(2,3) by (simp add: fds_def)
  then show ?thesis using queue_push_room [OF assms(1), of c] by metis
qed

lemma push_room:
  assumes "th_start s0" "th_step\<^sup>*\<^sup>* s0 s" "\<not> spinning s"
    "size (still_open (places_of s)) \<le> wq_capacity (work_of s0)" "size (still_open (places_of s)) \<le> wq_capacity (wait_of s0)"
  shows "\<not> push_blocks s"
proof -
  have cap: "size (still_open (places_of s)) \<le> wq_capacity (work_of s)" "size (still_open (places_of s)) \<le> wq_capacity (wait_of s)"
    using run_capacity [OF assms(2)] assms(4,5) by simp_all
  have inv: "wq_inv (work_of s)" "wq_inv (wait_of s)"
    using run_inv [OF assms(1-3)] by (simp_all add: th_inv_def wr_inv_def)
  have 1: "\<exists>q. queue_push (wait_of s) c = Inr (Returns () q)" if "worker_at s i (W_park c)" for i c
  proof (rule push_succeeds [OF inv(2), where M = "places_of s Leaving"])
    show "0 < size (places_of s Leaving)"
      using hold_at [of i "th_workers s" "conn_fd c" parking] that by (simp add: worker_at_def)
    show "size (fds (wq_list (wait_of s))) + size (places_of s Leaving) \<le> wq_capacity (wait_of s)"
      using cap(2) by (simp add: still_open_def)
  qed
  have 2: "\<exists>q. queue_push (work_of s) c = Inr (Returns () q)" if "listener_at s j (L_push c)" for j c
  proof (rule push_succeeds [OF inv(1), where M = "places_of s Arriving"])
    show "0 < size (places_of s Arriving)"
      using hold_at [of j "th_listeners s" "conn_fd c" arriving] that by (simp add: listener_at_def)
    show "size (fds (wq_list (work_of s))) + size (places_of s Arriving) \<le> wq_capacity (work_of s)"
      using cap(1) by (simp add: still_open_def)
  qed
  have 3: "\<exists>q. queue_push (work_of s) c = Inr (Returns () q)" if "th_room s = R_push c es" for c es
    using cap(1) that by (intro push_succeeds [OF inv(1), where M = "places_of s Ready"]) (simp_all add: still_open_def)
  show ?thesis using 1 2 3 by (auto simp: push_blocks_def)
qed

text \<open>
  C13. As long as the open connections are no more than each queue can hold, no thread ever
  waits in a push: a worker that keeps a connection, a listener that has accepted one and the wait room
  that hands one back all get on, whatever happened before.
\<close>

theorem few_connections_never_block:
  assumes "th_start s0" "th_step\<^sup>*\<^sup>* s0 s" "\<not> spinning s"
    "size (still_open (places_of s)) \<le> wq_capacity (work_of s0)" "size (still_open (places_of s)) \<le> wq_capacity (wait_of s0)"
  shows "\<not> push_blocks s"
  by (rule push_room [OF assms])

subsection \<open>Once they are many\<close>

text \<open>
  Every worker waits for room on the wait queue, which only the wait room empties; the wait room and
  every listener wait for room on the work queue, which only the workers empty.
\<close>

definition deadlocked :: "threads \<Rightarrow> bool" where
  "deadlocked s \<longleftrightarrow> th_workers s \<noteq> [] \<and> th_listeners s \<noteq> []
     \<and> (\<forall>pc \<in> set (th_workers s). \<exists>c. pc = W_park c) \<and> (\<forall>pc \<in> set (th_listeners s). \<exists>c. pc = L_push c)
     \<and> (\<exists>c es. th_room s = R_push c es)
     \<and> wq_count (work_of s) = wq_capacity (work_of s) \<and> wq_count (wait_of s) = wq_capacity (wait_of s)
     \<and> th_shut s \<in> {Sh_idle, Sh_join_listeners}"

lemma deadlock_at:
  assumes "deadlocked s"
  shows "\<not> worker_at s i W_pop" "\<not> worker_at s i (W_serve c)" "\<not> listener_at s j L_accept"
  using assms by (auto simp: deadlocked_def worker_at_def listener_at_def all_set_conv_all_nth)

lemma deadlock_push:
  assumes "deadlocked s"
  shows "queue_push (wait_of s) c = Inr Blocks" "queue_push (work_of s) c = Inr Blocks"
  using assms by (simp_all add: deadlocked_def queue_push_def)

lemma deadlock_step:
  assumes "th_step s s'" "deadlocked s"
  shows "s' = s\<lparr>th_flag := True, th_shut := Sh_join_listeners\<rparr>"
  using assms(1)
proof cases
  case worker
  then show ?thesis
    by cases (simp_all add: deadlock_at [OF assms(2)] deadlock_push [OF assms(2)])
next
  case listener
  then show ?thesis
    by cases (simp_all add: deadlock_at [OF assms(2)] deadlock_push [OF assms(2)])
next
  case room
  then show ?thesis using assms(2)
    by cases (auto simp: deadlock_push [OF assms(2)] deadlocked_def)
next
  case shutdown
  then show ?thesis
  proof cases
    case listeners_joined
    moreover obtain pc where "pc \<in> set (th_listeners s)" using assms(2) by (cases "th_listeners s") (auto simp: deadlocked_def)
    ultimately show ?thesis using assms(2) by (auto simp: deadlocked_def)
  qed (use assms(2) in \<open>auto simp: deadlocked_def\<close>)
qed

lemma deadlock_run:
  assumes "th_step\<^sup>*\<^sup>* s s'" "deadlocked s"
  shows "deadlocked s' \<and> th_wr s' = th_wr s \<and> th_workers s' = th_workers s \<and> th_listeners s' = th_listeners s
     \<and> th_room s' = th_room s"
  using assms
proof (induction rule: rtranclp_induct)
  case (step t u)
  then have u: "u = t\<lparr>th_flag := True, th_shut := Sh_join_listeners\<rparr>" using deadlock_step by blast
  have d: "deadlocked t" using step by blast
  then have "deadlocked u" unfolding u deadlocked_def by simp
  then show ?case using step.IH [OF step.prems] unfolding u by simp
qed simp

text \<open>
  C11. When every worker waits to park a connection on a full wait queue while the wait room and
  every listener wait to push one on a full work queue, no thread ever moves again: every run from
  there keeps every program counter, both queues and the pool as they are.  A shutdown can be asked
  for, and never gets past waiting for the listeners.
\<close>

theorem deadlock_is_final:
  assumes "deadlocked s" "th_step\<^sup>*\<^sup>* s s'"
  shows "th_wr s' = th_wr s \<and> th_workers s' = th_workers s \<and> th_listeners s' = th_listeners s
     \<and> th_room s' = th_room s \<and> th_shut s' \<in> {Sh_idle, Sh_join_listeners}"
  using deadlock_run [OF assms(2,1)] by (auto simp: deadlocked_def)

subsection \<open>A deadlock within reach\<close>

text \<open>One worker, one listener, queues and pool of one cell.\<close>

definition cell :: "conn_t option \<Rightarrow> nat \<Rightarrow> conn_t work_queue_t" where
  "cell x n = \<lparr>wq_buf = [x], wq_capacity = 1, wq_head = 0, wq_tail = 0, wq_count = n, wq_shutting_down = False\<rparr>"

definition parking_lot :: "conn_t option \<Rightarrow> nat \<Rightarrow> conn_pool_t" where
  "parking_lot x n = \<lparr>pool_items = [x], pool_count = n, pool_capacity = 1\<rparr>"

definition crowd :: "conn_t work_queue_t \<Rightarrow> conn_t work_queue_t \<Rightarrow> conn_pool_t \<Rightarrow> interest
    \<Rightarrow> worker_pc \<Rightarrow> listener_pc \<Rightarrow> room_pc \<Rightarrow> threads" where
  "crowd wk wt p x w l r = \<lparr>th_wr = \<lparr>wr_wait = wt, wr_work = wk, wr_pool = p, wr_watch = x, wr_closed = []\<rparr>,
     th_workers = [w], th_listeners = [l], th_room = r, th_flag = False, th_shut = Sh_idle, th_lost = []\<rparr>"

definition one_worker :: threads where
  "one_worker = crowd (cell None 0) (cell None 0) (parking_lot None 0) (\<lambda>_. None) W_pop L_accept R_top"

lemma one_worker_start: "th_start one_worker"
  by (simp add: th_start_def one_worker_def crowd_def cell_def parking_lot_def wr_inv_def wq_inv_def wq_list_def
      wq_cells_def pool_inv_def pool_list_def)

lemma crowd_accept: "0 \<le> fd \<Longrightarrow> th_step (crowd wk wt p x w L_accept r) (crowd wk wt p x w (L_push (fresh fd)) r)"
proof -
  assume "0 \<le> fd"
  then have "accept_connection False fd Other_family False None True zero_conn = (0, fresh fd, [])"
    by (simp add: accept_connection_def fresh_def zero_conn_def Let_def)
  then have "listener_step (crowd wk wt p x w L_accept r) (set_listener 0 (L_push (fresh fd)) (crowd wk wt p x w L_accept r))"
    by (intro listener_step.accepted) (simp_all add: crowd_def listener_at_def)
  then show ?thesis by (intro th_step.listener) (simp add: crowd_def set_listener_def)
qed

lemma cell_push: "queue_push (cell y 0) c = Inr (Returns () (cell (Some c) 1))"
  by (simp add: cell_def queue_push_def write_cell_def next_index_def)

lemma cell_take: "take_head (cell (Some c) 1) = Inr (c, cell (Some c) 0)"
  by (simp add: cell_def take_head_def read_cell_def next_index_def)

lemma crowd_enqueue: "th_step (crowd (cell y 0) wt p x w (L_push c) r) (crowd (cell (Some c) 1) wt p x w L_accept r)"
proof -
  let ?s = "crowd (cell y 0) wt p x w (L_push c) r"
  have "listener_step ?s (set_listener 0 (if th_flag ?s then L_done else L_accept)
       (set_wr ((th_wr ?s)\<lparr>wr_work := cell (Some c) 1\<rparr>) ?s))"
    by (rule listener_step.push) (simp_all add: crowd_def listener_at_def cell_push)
  then show ?thesis by (intro th_step.listener) (simp add: crowd_def set_listener_def set_wr_def)
qed

lemma crowd_take: "th_step (crowd (cell (Some c) 1) wt p x W_pop l r) (crowd (cell (Some c) 0) wt p x (W_serve c) l r)"
proof -
  let ?s = "crowd (cell (Some c) 1) wt p x W_pop l r"
  have "queue_pop (cell (Some c) 1) = Inr (Returns (0, Some c) (cell (Some c) 0))"
    using cell_take [of c] by (simp add: queue_pop_def) (simp add: cell_def)
  then have "worker_step ?s (set_worker 0 (W_serve c) (set_wr ((th_wr ?s)\<lparr>wr_work := cell (Some c) 0\<rparr>) ?s))"
    by (intro worker_step.pop) (simp_all add: crowd_def worker_at_def)
  then show ?thesis by (intro th_step.worker) (simp add: crowd_def set_worker_def set_wr_def)
qed

lemma crowd_kept: "th_step (crowd wk (cell y 0) p x (W_park c) l r) (crowd wk (cell (Some c) 1) p x W_pop l r)"
proof -
  let ?s = "crowd wk (cell y 0) p x (W_park c) l r"
  have "worker_step ?s (set_worker 0 W_pop (set_wr ((th_wr ?s)\<lparr>wr_wait := cell (Some c) 1\<rparr>) ?s))"
    by (rule worker_step.push) (simp_all add: crowd_def worker_at_def cell_push)
  then show ?thesis by (intro th_step.worker) (simp add: crowd_def set_worker_def set_wr_def)
qed

lemma some_round_parks:
  "\<exists>we k acts c'. we_shutting_down we = False \<and> worker_round we (fresh fd) = Inr (Returns k acts)
     \<and> disposals acts = [Act_park c'] \<and> same_peer (fresh fd) c'"
proof -
  have "we_shutting_down (fresh_env ''OPTIONS'' ''*'' False) = False" by (simp add: fresh_env_def)
  with fresh_round [OF star_facts(1,2) refl, of False fd] show ?thesis
    by (intro exI [of _ "fresh_env ''OPTIONS'' ''*'' False"]) (auto simp: star_facts(5) options_reply_def parks_def)
qed

lemma some_round_stops:
  "\<exists>we acts. we_shutting_down we = True \<and> worker_round we (fresh fd) = Inr (Returns Stop_thread acts) \<and> closes (fresh fd) acts"
proof -
  have "we_shutting_down (fresh_env ''TRACE'' ''*'' True) = True" by (simp add: fresh_env_def)
  with fresh_round [OF star_facts(3,4) refl, of True fd] show ?thesis
    by (intro exI [of _ "fresh_env ''TRACE'' ''*'' True"]) (auto simp: star_facts(6) error_reply_def)
qed

lemma crowd_serve:
  "\<exists>c'. conn_fd c' = fd \<and> th_step (crowd wk wt p x (W_serve (fresh fd)) l r) (crowd wk wt p x (W_park c') l r)"
proof -
  let ?s = "crowd wk wt p x (W_serve (fresh fd)) l r"
  obtain we k acts c' where w: "we_shutting_down we = False" "worker_round we (fresh fd) = Inr (Returns k acts)"
      "disposals acts = [Act_park c']" "same_peer (fresh fd) c'"
    using some_round_parks by blast
  have "worker_step ?s (set_worker 0 (W_park c') ?s)"
    by (rule worker_step.round_park [OF _ _ w(2-4)]) (simp_all add: crowd_def worker_at_def w(1))
  then have "th_step ?s (crowd wk wt p x (W_park c') l r)"
    by (intro th_step.worker) (simp add: crowd_def set_worker_def)
  moreover have "conn_fd c' = fd" using w(4) by (simp add: same_peer_def fresh_def)
  ultimately show ?thesis by blast
qed

lemma crowd_one:
  assumes "0 \<le> fd"
  shows "\<exists>c'. conn_fd c' = fd \<and> th_step\<^sup>*\<^sup>* (crowd (cell y 0) (cell z 0) p x W_pop L_accept r)
       (crowd (cell (Some (fresh fd)) 0) (cell (Some c') 1) p x W_pop L_accept r)"
proof -
  let ?q = "cell (Some (fresh fd))"
  obtain c' where c': "conn_fd c' = fd"
      "th_step (crowd (?q 0) (cell z 0) p x (W_serve (fresh fd)) L_accept r) (crowd (?q 0) (cell z 0) p x (W_park c') L_accept r)"
    using crowd_serve by blast
  note crowd_accept [OF assms] crowd_enqueue crowd_take c'(2) crowd_kept
  then have "th_step\<^sup>*\<^sup>* (crowd (cell y 0) (cell z 0) p x W_pop L_accept r) (crowd (?q 0) (cell (Some c') 1) p x W_pop L_accept r)"
    by (meson rtranclp.rtrancl_refl converse_rtranclp_into_rtranclp)
  with c'(1) show ?thesis by blast
qed

text \<open>The wait room takes the connection into its pool and hears that it is readable.\<close>

lemma crowd_room:
  "\<exists>x'. th_step\<^sup>*\<^sup>* (crowd wk (cell (Some c) 1) (parking_lot None 0) (\<lambda>_. None) w l R_top)
     (crowd wk (cell (Some c) 0) (parking_lot (Some c) 1) x' w l
        (R_dispatch [\<lparr>ev_userdata = conn_fd c, ev_is_error = False\<rparr>]))"
proof -
  let ?x = "(\<lambda>_. None)(conn_fd c \<mapsto> (conn_fd c, True)) :: interest"
  let ?s = "\<lambda>n p x. crowd wk (cell (Some c) n) p x w l"
  let ?e = "[\<lparr>ev_userdata = conn_fd c, ev_is_error = False\<rparr>]"
  have 1: "th_step (?s 1 (parking_lot None 0) (\<lambda>_. None) R_top) (?s 1 (parking_lot None 0) (\<lambda>_. None) (R_drain None))"
    using room_step.turn [of "?s 1 (parking_lot None 0) (\<lambda>_. None) R_top"]
    by (intro th_step.room) (simp add: crowd_def set_room_def)
  have 2: "th_step (?s 1 (parking_lot None 0) (\<lambda>_. None) (R_drain None)) (?s 0 (parking_lot (Some c) 1) ?x (R_drain (Some c)))"
  proof -
    let ?t = "?s 1 (parking_lot None 0) (\<lambda>_. None) (R_drain None)"
    have t: "queue_trypop (cell (Some c) 1) = Inr ((0, Some c), cell (Some c) 0)"
      using cell_take [of c] by (simp add: queue_trypop_def) (simp add: cell_def)
    have "park (\<lambda>_. (True, True)) c ((th_wr ?t)\<lparr>wr_wait := cell (Some c) 0\<rparr>)
        = Inr ((th_wr ?t)\<lparr>wr_wait := cell (Some c) 0, wr_pool := parking_lot (Some c) 1, wr_watch := ?x\<rparr>)"
      by (simp add: park_def pool_add_def crowd_def parking_lot_def io_watcher_add_def epoll_ctl_add_def)
    with t have "room_step ?t (set_room (R_drain (Some c))
        ((th_wr ?t)\<lparr>wr_wait := cell (Some c) 0, wr_pool := parking_lot (Some c) 1, wr_watch := ?x\<rparr>) ?t)"
      by (intro room_step.drain_one [of _ None 0 "Some c"]) (simp_all add: crowd_def)
    then show ?thesis by (intro th_step.room) (simp add: crowd_def set_room_def)
  qed
  have 3: "th_step (?s 0 (parking_lot (Some c) 1) ?x (R_drain (Some c))) (?s 0 (parking_lot (Some c) 1) ?x R_poll)"
  proof -
    let ?t = "?s 0 (parking_lot (Some c) 1) ?x (R_drain (Some c))"
    have "room_step ?t (set_room R_poll ((th_wr ?t)\<lparr>wr_wait := cell (Some c) 0\<rparr>) ?t)"
      by (rule room_step.drained [of _ "Some c" None]) (simp_all add: crowd_def queue_trypop_def cell_def)
    then show ?thesis by (intro th_step.room) (simp add: crowd_def set_room_def)
  qed
  have 4: "th_step (?s 0 (parking_lot (Some c) 1) ?x R_poll) (?s 0 (parking_lot (Some c) 1) ?x (R_dispatch ?e))"
  proof -
    have "snd (io_watcher_wait (Some [(conn_fd c, 1)])) = ?e"
      by (simp add: io_watcher_wait_def EPOLLERR_def EPOLLHUP_def)
    then show ?thesis
      using room_step.polled [of "?s 0 (parking_lot (Some c) 1) ?x R_poll" "Some [(conn_fd c, 1)]"]
      by (intro th_step.room) (simp add: crowd_def set_room_def)
  qed
  from 1 2 3 4 show ?thesis by (meson rtranclp.rtrancl_refl converse_rtranclp_into_rtranclp)
qed

lemma crowd_readable:
  "th_step (crowd wk wt (parking_lot (Some c) 1) x w l (R_dispatch [\<lparr>ev_userdata = conn_fd c, ev_is_error = False\<rparr>]))
     (crowd wk wt (parking_lot (Some c) 0) x w l (R_push c []))"
proof -
  let ?e = "\<lparr>ev_userdata = conn_fd c, ev_is_error = False\<rparr>"
  let ?s = "crowd wk wt (parking_lot (Some c) 1) x w l (R_dispatch [?e])"
  have "pool_remove_by_fd (wr_pool (th_wr ?s)) (ev_userdata ?e) = Inr (1, Some c, parking_lot (Some c) 0)"
    by (simp add: pool_remove_by_fd_def remove_by_fd_from.simps pool_cell_def overwrite_with_last_def crowd_def parking_lot_def)
  then have "room_step ?s (set_room (R_push c []) ((th_wr ?s)\<lparr>wr_pool := parking_lot (Some c) 0\<rparr>) ?s)"
    by (intro room_step.readable [where e = ?e and k = 1]) (simp_all add: crowd_def)
  then show ?thesis by (intro th_step.room) (simp add: crowd_def set_room_def)
qed

text \<open>
  Five keep-alive connections bring a server with one worker, one listener and queues of one cell there:
  the first is parked and readable, the second fills the wait queue, the worker wants to park
  the third, the fourth fills the work queue, the listener holds the fifth.
\<close>

lemma deadlock_reached: "\<exists>s. th_step\<^sup>*\<^sup>* one_worker s \<and> deadlocked s"
proof -
  let ?e = "\<lambda>c. R_dispatch [\<lparr>ev_userdata = conn_fd c, ev_is_error = False\<rparr>]"
  let ?q = "\<lambda>fd. cell (Some (fresh fd))"
  let ?x = "(\<lambda>_. None) :: interest"
  obtain c1 where 1: "th_step\<^sup>*\<^sup>* one_worker (crowd (?q 1 0) (cell (Some c1) 1) (parking_lot None 0) ?x W_pop L_accept R_top)"
    using crowd_one [of 1] unfolding one_worker_def by force
  obtain x where 2: "th_step\<^sup>*\<^sup>* (crowd (?q 1 0) (cell (Some c1) 1) (parking_lot None 0) ?x W_pop L_accept R_top)
      (crowd (?q 1 0) (cell (Some c1) 0) (parking_lot (Some c1) 1) x W_pop L_accept (?e c1))"
    using crowd_room by blast
  obtain c2 where 3: "th_step\<^sup>*\<^sup>* (crowd (?q 1 0) (cell (Some c1) 0) (parking_lot (Some c1) 1) x W_pop L_accept (?e c1))
      (crowd (?q 2 0) (cell (Some c2) 1) (parking_lot (Some c1) 1) x W_pop L_accept (?e c1))"
    using crowd_one [of 2] by force
  let ?s = "\<lambda>wk w l. crowd wk (cell (Some c2) 1) (parking_lot (Some c1) 1) x w l (?e c1)"
  obtain c3 where c3: "th_step (?s (?q 3 0) (W_serve (fresh 3)) L_accept) (?s (?q 3 0) (W_park c3) L_accept)"
    using crowd_serve by blast
  have a: "th_step (?s wk w L_accept) (?s wk w (L_push (fresh fd)))" if "0 \<le> fd" for fd wk w
    by (rule crowd_accept [OF that])
  have e: "th_step (?s (cell y 0) w (L_push c)) (?s (cell (Some c) 1) w L_accept)" for y w c
    by (rule crowd_enqueue)
  have t: "th_step (?s (?q 3 1) W_pop L_accept) (?s (?q 3 0) (W_serve (fresh 3)) L_accept)" by (rule crowd_take)
  have 4: "th_step\<^sup>*\<^sup>* (?s (?q 2 0) W_pop L_accept) (?s (?q 3 0) (W_park c3) L_accept)"
    using a [of 3 "?q 2 0" W_pop] e [of "Some (fresh 2)" W_pop "fresh 3"] t c3
    by (meson converse_rtranclp_into_rtranclp rtranclp.rtrancl_refl zero_le_numeral)
  have 5: "th_step\<^sup>*\<^sup>* (?s (?q 3 0) (W_park c3) L_accept) (?s (?q 4 1) (W_park c3) (L_push (fresh 5)))"
    using a [of 4 "?q 3 0" "W_park c3"] e [of "Some (fresh 3)" "W_park c3" "fresh 4"] a [of 5 "?q 4 1" "W_park c3"]
    by (meson converse_rtranclp_into_rtranclp rtranclp.rtrancl_refl zero_le_numeral)
  let ?final = "crowd (?q 4 1) (cell (Some c2) 1) (parking_lot (Some c1) 0) x (W_park c3) (L_push (fresh 5)) (R_push c1 [])"
  have 6: "th_step (?s (?q 4 1) (W_park c3) (L_push (fresh 5))) ?final" by (rule crowd_readable)
  have "th_step\<^sup>*\<^sup>* one_worker ?final"
    using 1 2 3 4 5 6 by (meson rtranclp_trans rtranclp.rtrancl_into_rtrancl)
  moreover have "deadlocked ?final" by (simp add: deadlocked_def crowd_def cell_def)
  ultimately show ?thesis by blast
qed
text \<open>
  Five connections are enough: from the start of a server with one worker, one listener and
  queues of one cell, a schedule leads to a deadlock.
\<close>

theorem deadlock_reachable:
  "th_start one_worker \<and> (\<exists>s. th_step\<^sup>*\<^sup>* one_worker s \<and> deadlocked s)"
  using one_worker_start deadlock_reached by blast

theorem deadlock_is_final_witness:
  "\<exists>s s'. th_step\<^sup>*\<^sup>* one_worker s \<and> deadlocked s \<and> th_step\<^sup>*\<^sup>* s s' \<and> th_flag s'
     \<and> th_workers s' = th_workers s \<and> th_listeners s' = th_listeners s \<and> th_room s' = th_room s"
proof -
  obtain s where s: "th_step\<^sup>*\<^sup>* one_worker s" "deadlocked s" using deadlock_reached by blast
  show ?thesis
  proof (cases "th_shut s = Sh_idle")
    case True
    let ?s' = "s\<lparr>th_flag := True, th_shut := Sh_join_listeners\<rparr>"
    have r: "th_step\<^sup>*\<^sup>* s ?s'" using shutdown_step.begin_shutdown [OF True] th_step.shutdown by blast
    with deadlock_is_final [OF s(2) r] s show ?thesis by (intro exI [of _ s] exI [of _ ?s']) simp
  next
    case False
    have "\<not> spinning s" using s(2) by (auto simp: deadlocked_def spinning_def)
    then have "th_flag s" using run_inv [OF one_worker_start s(1)] False by (simp add: th_inv_def)
    with deadlock_is_final [OF s(2), of s] s show ?thesis by blast
  qed
qed

theorem few_connections_never_block_witness:
  "\<exists>s. th_step\<^sup>*\<^sup>* one_worker s \<and> listener_at s 0 (L_push (fresh 5)) \<and> \<not> push_blocks s"
proof -
  let ?s = "crowd (cell None 0) (cell None 0) (parking_lot None 0) (\<lambda>_. None) W_pop (L_push (fresh 5)) R_top"
  have r: "th_step\<^sup>*\<^sup>* one_worker ?s" unfolding one_worker_def by (intro r_into_rtranclp crowd_accept) simp
  have "size (still_open (places_of ?s)) \<le> wq_capacity (work_of one_worker)"
    "size (still_open (places_of ?s)) \<le> wq_capacity (wait_of one_worker)" "\<not> spinning ?s"
    by (simp_all add: still_open_def crowd_def one_worker_def cell_def parking_lot_def hold_def wq_list_def
        wq_cells_def pool_list_def spinning_def)
  then have "\<not> push_blocks ?s" using few_connections_never_block [OF one_worker_start r] by blast
  moreover have "listener_at ?s 0 (L_push (fresh 5))" by (simp add: listener_at_def crowd_def)
  ultimately show ?thesis using r by blast
qed

end
