(* ===== verification/Shutdown.thy ===== *)
theory Shutdown
  imports Progress
begin

text \<open>
  The end of the thread pool of theory \<open>Threads\<close>: in which order \<open>server_shutdown\<close> (\<open>src/server.c\<close>) stops
  the threads, that none stops before it is asked to, and what becomes of the connections that were open.
\<close>

subsection \<open>The stages\<close>

fun stage :: "shut_pc \<Rightarrow> nat" where
  "stage Sh_idle = 0"
| "stage Sh_join_listeners = 1"
| "stage Sh_join_room = 2"
| "stage Sh_join_workers = 3"
| "stage Sh_end = 4"

text \<open>Which threads have ended and which flags are up, by the stage of the shutdown.\<close>

definition stage_ok :: "threads \<Rightarrow> bool" where
  "stage_ok s \<longleftrightarrow>
     (th_flag s \<longleftrightarrow> 1 \<le> stage (th_shut s))
     \<and> (wq_shutting_down (wait_of s) \<longleftrightarrow> 2 \<le> stage (th_shut s))
     \<and> (wq_shutting_down (work_of s) \<longleftrightarrow> 3 \<le> stage (th_shut s))
     \<and> (L_done \<in> set (th_listeners s) \<or> th_room s = R_done \<or> W_done \<in> set (th_workers s) \<longrightarrow> 1 \<le> stage (th_shut s))
     \<and> (2 \<le> stage (th_shut s) \<longrightarrow> set (th_listeners s) \<subseteq> {L_done})
     \<and> (3 \<le> stage (th_shut s) \<longrightarrow> th_room s = R_done)
     \<and> (4 \<le> stage (th_shut s) \<longrightarrow> set (th_workers s) \<subseteq> {W_done})"

lemma queue_pop_flag:
  "queue_pop q = Inr (Returns r q') \<Longrightarrow> wq_shutting_down q' = wq_shutting_down q \<and> (fst r \<noteq> 0 \<longrightarrow> wq_shutting_down q)"
  by (auto simp: queue_pop_def take_head_def bindR_Inr_iff split: if_splits)

lemma park_flags: "park reg c w = Inr w' \<Longrightarrow> wr_wait w' = wr_wait w \<and> wr_work w' = wr_work w"
  by (auto simp: park_def wr_close_def bindR_Inr_iff Let_def split: if_splits prod.splits)

lemma sweep_flags: "sweep now w = Inr w' \<Longrightarrow> wr_wait w' = wr_wait w \<and> wr_work w' = wr_work w"
  by (auto simp: sweep_def bindR_Inr_iff split: prod.splits)

lemma stop_asked:
  assumes "worker_round we c = Inr (Returns Stop_thread acts)"
  shows "we_shutting_down we"
  using assms
  by (auto simp: worker_round_def request_round_def cleanup_def finish_request_def bindR_Inr_iff Let_def
      outcome_case_eq split: if_splits option.splits prod.splits)

lemma set_update_new: "i < length xs \<Longrightarrow> xs ! i = y \<Longrightarrow> set xs \<subseteq> {d} \<Longrightarrow> y \<noteq> d \<Longrightarrow> False"
  by (metis nth_mem singletonD subsetD)

lemma stage_worker:
  assumes "worker_step s s'" "stage_ok s"
  shows "stage_ok s'"
  using assms(1)
proof cases
  case (pop i c q)
  then show ?thesis using assms(2)
    by (auto simp: stage_ok_def worker_at_def th_updates dest: set_update_new in_update dest!: queue_pop_flag)
next
  case (pop_end i k x q)
  then show ?thesis using assms(2)
    by (auto simp: stage_ok_def worker_at_def th_updates dest: set_update_new in_update dest!: queue_pop_flag)
next
  case (round_close i c we k acts)
  then show ?thesis using assms(2) stop_asked [of we c acts]
    by (auto simp: stage_ok_def worker_at_def th_updates dest: set_update_new in_update split: if_splits)
next
  case (round_park i c we k acts c')
  then show ?thesis using assms(2)
    by (auto simp: stage_ok_def worker_at_def th_updates dest: set_update_new in_update)
next
  case (push i c q)
  then show ?thesis using assms(2)
    by (auto simp: stage_ok_def worker_at_def th_updates dest: set_update_new in_update dest!: queue_push_flag)
qed

lemma stage_listener:
  assumes "listener_step s s'" "stage_ok s"
  shows "stage_ok s'"
  using assms(1)
proof cases
  case (stop j b fd peer tls ssl ok rv c msgs)
  then show ?thesis using assms(2)
    by (auto simp: stage_ok_def listener_at_def th_updates dest: set_update_new in_update)
next
  case (failed j fd peer tls ssl ok rv c msgs)
  then show ?thesis using assms(2)
    by (auto simp: stage_ok_def listener_at_def th_updates dest: set_update_new in_update)
next
  case (accepted j fd peer tls ssl ok c msgs)
  then show ?thesis using assms(2)
    by (auto simp: stage_ok_def listener_at_def th_updates dest: set_update_new in_update)
next
  case (push j c q)
  then show ?thesis using assms(2)
    by (auto simp: stage_ok_def listener_at_def th_updates dest: set_update_new in_update dest!: queue_push_flag split: if_splits)
qed

lemma stage_step:
  assumes "th_step s s'" "stage_ok s"
  shows "stage_ok s'"
  using assms(1)
proof cases
  case worker
  then show ?thesis using stage_worker assms(2) by blast
next
  case listener
  then show ?thesis using stage_listener assms(2) by blast
next
  case room
  then show ?thesis using assms(2)
    by cases (auto simp: stage_ok_def th_updates dest!: queue_trypop_flag queue_push_flag park_flags sweep_flags)
next
  case shutdown
  then show ?thesis using assms(2) by cases (auto simp: stage_ok_def flag_queue_def)
qed

lemma run_stage:
  assumes "th_start s0" "th_step\<^sup>*\<^sup>* s0 s"
  shows "stage_ok s"
  using assms(2)
proof (induction rule: rtranclp_induct)
  case base
  have "L_done \<notin> set (th_listeners s0)" "W_done \<notin> set (th_workers s0)" using assms(1) by (auto simp: th_start_def)
  then show ?case using assms(1) by (simp add: th_start_def stage_ok_def)
next
  case (step t u)
  then show ?case by (blast intro: stage_step)
qed

text \<open>
  The shutdown goes by stages, whatever the schedule: no thread ends and no flag is raised before it is
  asked for; the wait queue is told only when every listener has ended, the work queue only when the
  wait room has ended too, and the end is reached only when all workers have.
\<close>

theorem shutdown_in_stages:
  assumes "th_start s0" "th_step\<^sup>*\<^sup>* s0 s"
  shows "stage_ok s"
  by (rule run_stage [OF assms])

subsection \<open>The connections at the end\<close>

lemma stopped_places:
  assumes "th_start s0" "th_step\<^sup>*\<^sup>* s0 s" "th_shut s = Sh_end"
  shows "\<not> spinning s" "places_of s Arriving = {#}" "places_of s Served = {#}" "places_of s Leaving = {#}" "places_of s Ready = {#}"
proof -
  have "stage_ok s" by (rule run_stage [OF assms(1,2)])
  then have d: "set (th_listeners s) \<subseteq> {L_done}" "th_room s = R_done" "set (th_workers s) \<subseteq> {W_done}"
    using assms(3) by (simp_all add: stage_ok_def)
  then show "\<not> spinning s" "places_of s Ready = {#}" by (simp_all add: spinning_def)
  show "places_of s Arriving = {#}" "places_of s Served = {#}" "places_of s Leaving = {#}"
    using d by (auto intro!: hold_empty)
qed

text \<open>
  When the server has stopped, no thread holds a connection: each one accepted is closed, lost, or
  still where it lay - on the work queue, on the wait queue or in the pool.
\<close>

theorem stopped_server:
  assumes "th_start s0" "th_step\<^sup>*\<^sup>* s0 s" "th_shut s = Sh_end"
  shows "everything (places_of s) = places_of s Closed + places_of s Lost
       + places_of s Queued + places_of s Waiting + places_of s Parked"
  using stopped_places [OF assms]
  by (simp_all add: everything_open still_open_def)

text \<open>One worker serves the first connection while the second lies on the work queue; then the server is told to stop.\<close>

definition halting :: "bool \<Rightarrow> bool \<Rightarrow> bool \<Rightarrow> shut_pc \<Rightarrow> worker_pc \<Rightarrow> listener_pc \<Rightarrow> room_pc \<Rightarrow> conn_t list \<Rightarrow> threads" where
  "halting fl fwait fwork sh w l r cs =
     (crowd ((cell (Some (fresh 2)) 1)\<lparr>wq_shutting_down := fwork\<rparr>) ((cell None 0)\<lparr>wq_shutting_down := fwait\<rparr>)
        (parking_lot None 0) (\<lambda>_. None) w l r)
       \<lparr>th_flag := fl, th_shut := sh,
        th_wr := \<lparr>wr_wait = (cell None 0)\<lparr>wq_shutting_down := fwait\<rparr>,
           wr_work = (cell (Some (fresh 2)) 1)\<lparr>wq_shutting_down := fwork\<rparr>, wr_pool = parking_lot None 0,
           wr_watch = \<lambda>_. None, wr_closed = cs\<rparr>\<rparr>"

lemma halting_reached:
  "th_step\<^sup>*\<^sup>* one_worker (halting False False False Sh_idle (W_serve (fresh 1)) L_accept R_top [])"
proof -
  let ?s = "\<lambda>wk w l. crowd wk (cell None 0) (parking_lot None 0) (\<lambda>_. None) w l R_top"
  have a: "th_step (?s wk w L_accept) (?s wk w (L_push (fresh fd)))" if "0 \<le> fd" for fd wk w
    by (rule crowd_accept [OF that])
  have e: "th_step (?s (cell y 0) w (L_push c)) (?s (cell (Some c) 1) w L_accept)" for y w c
    by (rule crowd_enqueue)
  have t: "th_step (?s (cell (Some (fresh 1)) 1) W_pop L_accept) (?s (cell (Some (fresh 1)) 0) (W_serve (fresh 1)) L_accept)"
    by (rule crowd_take)
  have 1: "th_step\<^sup>*\<^sup>* (?s (cell None 0) W_pop L_accept) (?s (cell (Some (fresh 1)) 0) (W_serve (fresh 1)) L_accept)"
    using a [of 1 "cell None 0" W_pop] e [of None W_pop "fresh 1"] t
    by (meson converse_rtranclp_into_rtranclp rtranclp.rtrancl_refl zero_le_one)
  have 2: "th_step\<^sup>*\<^sup>* (?s (cell (Some (fresh 1)) 0) (W_serve (fresh 1)) L_accept) (?s (cell (Some (fresh 2)) 1) (W_serve (fresh 1)) L_accept)"
    using a [of 2 "cell (Some (fresh 1)) 0" "W_serve (fresh 1)"] e [of "Some (fresh 1)" "W_serve (fresh 1)" "fresh 2"]
    by (meson converse_rtranclp_into_rtranclp rtranclp.rtrancl_refl zero_le_numeral)
  have "halting False False False Sh_idle (W_serve (fresh 1)) L_accept R_top []
      = ?s (cell (Some (fresh 2)) 1) (W_serve (fresh 1)) L_accept"
    by (simp add: halting_def crowd_def cell_def)
  with 1 2 show ?thesis unfolding one_worker_def by simp
qed

lemma queued_dropped:
  "\<exists>s. th_step\<^sup>*\<^sup>* one_worker s \<and> th_shut s = Sh_end \<and> places_of s Queued = {#2#} \<and> places_of s Closed = {#1#}"
proof -
  let ?w = "W_serve (fresh 1)"
  have 1: "th_step (halting False False False Sh_idle ?w L_accept R_top []) (halting True False False Sh_join_listeners ?w L_accept R_top [])"
    using shutdown_step.begin_shutdown [of "halting False False False Sh_idle ?w L_accept R_top []"]
    by (intro th_step.shutdown) (simp add: halting_def crowd_def)
  have 2: "th_step (halting True False False Sh_join_listeners ?w L_accept R_top []) (halting True False False Sh_join_listeners ?w L_done R_top [])"
  proof -
    let ?s = "halting True False False Sh_join_listeners ?w L_accept R_top []"
    obtain c rv msgs where acc: "accept_connection True (-1) Other_family False None True zero_conn = (rv, c, msgs)" "\<not> 0 < conn_fd c"
      by (simp add: accept_connection_def zero_conn_def Let_def)
    have "listener_step ?s (set_listener 0 L_done
       (if conn_fd c > 0 then ?s\<lparr>th_wr := (th_wr ?s)\<lparr>wr_closed := wr_closed (th_wr ?s) @ [c]\<rparr>\<rparr>
        else ?s\<lparr>th_lost := th_lost ?s @ (if (0::int) \<le> -1 then [-1] else [])\<rparr>))"
      by (rule listener_step.stop [OF _ _ acc(1)]) (simp_all add: halting_def crowd_def listener_at_def)
    then show ?thesis using acc(2) by (intro th_step.listener) (simp add: halting_def crowd_def set_listener_def)
  qed
  have 3: "th_step (halting True False False Sh_join_listeners ?w L_done R_top []) (halting True True False Sh_join_room ?w L_done R_top [])"
    using shutdown_step.listeners_joined [of "halting True False False Sh_join_listeners ?w L_done R_top []"]
    by (intro th_step.shutdown) (simp add: halting_def crowd_def flag_queue_def)
  have 4: "th_step (halting True True False Sh_join_room ?w L_done R_top []) (halting True True False Sh_join_room ?w L_done R_done [])"
    using room_step.leave [of "halting True True False Sh_join_room ?w L_done R_top []"]
    by (intro th_step.room) (simp add: halting_def crowd_def set_room_def)
  have 5: "th_step (halting True True False Sh_join_room ?w L_done R_done []) (halting True True True Sh_join_workers ?w L_done R_done [])"
    using shutdown_step.room_joined [of "halting True True False Sh_join_room ?w L_done R_done []"]
    by (intro th_step.shutdown) (simp add: halting_def crowd_def flag_queue_def)
  have 6: "th_step (halting True True True Sh_join_workers ?w L_done R_done []) (halting True True True Sh_join_workers W_done L_done R_done [fresh 1])"
  proof -
    let ?s = "halting True True True Sh_join_workers ?w L_done R_done []"
    obtain we acts where w: "we_shutting_down we = True" "worker_round we (fresh 1) = Inr (Returns Stop_thread acts)" "closes (fresh 1) acts"
      using some_round_stops by blast
    have "worker_step ?s (set_worker 0 (if Stop_thread = Stop_thread then W_done else W_pop) (set_wr (wr_close (fresh 1) (th_wr ?s)) ?s))"
      by (rule worker_step.round_close [OF _ _ w(2,3)]) (simp_all add: halting_def crowd_def worker_at_def w(1))
    then show ?thesis
      by (intro th_step.worker) (simp add: halting_def crowd_def set_worker_def set_wr_def wr_close_def fun_upd_def)
  qed
  let ?final = "halting True True True Sh_end W_done L_done R_done [fresh 1]"
  have 7: "th_step (halting True True True Sh_join_workers W_done L_done R_done [fresh 1]) ?final"
    using shutdown_step.workers_joined [of "halting True True True Sh_join_workers W_done L_done R_done [fresh 1]"]
    by (intro th_step.shutdown) (simp add: halting_def crowd_def)
  have "th_step\<^sup>*\<^sup>* one_worker ?final"
    using halting_reached 1 2 3 4 5 6 7 by (meson rtranclp.rtrancl_into_rtrancl)
  moreover have "th_shut ?final = Sh_end" "places_of ?final Queued = {#2#}" "places_of ?final Closed = {#1#}"
    by (simp_all add: halting_def crowd_def cell_def fresh_def wq_list_def wq_cells_def ring_seg_def)
  ultimately show ?thesis by blast
qed

text \<open>
  C22. A shutdown drops what is queued: a worker that finds the server shutting down after a request
  ends, though the work queue is not empty, so a run of the one-worker server stops with a connection
  accepted, queued and neither answered nor closed.
\<close>

theorem shutdown_drops_queued:
  "th_start one_worker \<and> (\<exists>s. th_step\<^sup>*\<^sup>* one_worker s \<and> th_shut s = Sh_end \<and> places_of s Queued = {#2#})"
  using one_worker_start queued_dropped by blast

theorem shutdown_in_stages_witness:
  "stage_ok (halting False False False Sh_idle (W_serve (fresh 1)) L_accept R_top [])"
  by (rule shutdown_in_stages [OF one_worker_start halting_reached])

theorem stopped_server_witness:
  "\<exists>s. th_step\<^sup>*\<^sup>* one_worker s \<and> th_shut s = Sh_end \<and> places_of s Queued = {#2#} \<and> places_of s Closed = {#1#}
     \<and> everything (places_of s) = places_of s Closed + places_of s Lost
       + places_of s Queued + places_of s Waiting + places_of s Parked"
proof -
  obtain s where s: "th_step\<^sup>*\<^sup>* one_worker s" "th_shut s = Sh_end" "places_of s Queued = {#2#}" "places_of s Closed = {#1#}"
    using queued_dropped by blast
  with stopped_server [OF one_worker_start s(1,2)] show ?thesis by blast
qed
end
