(* ===== verification/Logged.thy ===== *)
theory Logged
  imports Reply
begin

text \<open>
  What a worker's round hands to the access log: the request contexts it logs are well typed, whatever
  the client sent, and their line says what was asked and answered - as long as it fits.
\<close>

subsection \<open>Well-typed contexts\<close>

definition INET6_ADDRSTRLEN :: nat where "INET6_ADDRSTRLEN = 46"

definition conn_typed :: "conn_t \<Rightarrow> bool" where
  "conn_typed c \<longleftrightarrow> length (cstr (conn_remote_ip c)) < INET6_ADDRSTRLEN"

text \<open>
  Every member holds a value of its C type: the status an \<open>int\<close>, each text within its array, the
  counted headers no more than the array has and each terminated, the body as long as its length says.
\<close>

definition response_typed :: "response_t \<Rightarrow> bool" where
  "response_typed r \<longleftrightarrow> resp_header_count r \<le> MAX_RESP_HEADERS \<and> resp_header_count r = length (resp_headers r)
     \<and> (\<forall>kv \<in> set (resp_headers r). terminated kv)"

definition ctx_typed :: "request_ctx_t \<Rightarrow> bool" where
  "ctx_typed ctx \<longleftrightarrow> status32 ctx \<and> h1_fits (ctx_h1 ctx) \<and> response_typed (ctx_response ctx) \<and> conn_typed (ctx_conn ctx)"

lemma small_typed: "small_headers 64 ctx \<Longrightarrow> response_typed (ctx_response ctx)"
  by (auto simp: small_headers_def counted_def response_typed_def terminated_def size_defs)

lemma sent_headers_logged [simp]:
  "resp_headers (ctx_response (logged_response ctx b l)) = resp_headers (ctx_response ctx)"
  "resp_header_count (ctx_response (logged_response ctx b l)) = resp_header_count (ctx_response ctx)"
  by (simp_all add: logged_response_def)

lemma logged_typed:
  assumes "small_headers 64 ctx" "status32 ctx" "h1_fits (ctx_h1 ctx)" "conn_typed (ctx_conn ctx)"
  shows "ctx_typed (logged_response ctx b l)"
  using assms small_typed [OF assms(1)] by (simp add: ctx_typed_def status32_def response_typed_def)

lemma conn_typed_protocol [simp]: "conn_typed (c\<lparr>conn_protocol := p\<rparr>) = conn_typed c"
  by (simp add: conn_typed_def)

lemma sniffed_typed [simp]: "conn_typed (sniffed we c) = conn_typed c"
  by (auto simp: sniffed_def demux_protocol_def Let_def split: prod.split)

text \<open>The contexts a list of acts logs and the connections it parks.\<close>

definition acts_typed :: "worker_act list \<Rightarrow> bool" where
  "acts_typed acts \<longleftrightarrow> (\<forall>ctx. Act_access ctx \<in> set acts \<longrightarrow> ctx_typed ctx) \<and> (\<forall>c. Act_park c \<in> set acts \<longrightarrow> conn_typed c)"

lemma acts_typed_simps [simp]:
  "acts_typed []" "acts_typed (Act_access ctx # acts) \<longleftrightarrow> ctx_typed ctx \<and> acts_typed acts"
  "acts_typed (Act_park c # acts) \<longleftrightarrow> conn_typed c \<and> acts_typed acts"
  "acts_typed (Act_sent x # acts) = acts_typed acts" "acts_typed (Act_log m # acts) = acts_typed acts"
  "acts_typed (Act_close es # acts) = acts_typed acts" "acts_typed (Act_release rs # acts) = acts_typed acts"
  "acts_typed (Act_free_ctx # acts) = acts_typed acts"
  "acts_typed (as @ bs) \<longleftrightarrow> acts_typed as \<and> acts_typed bs"
  by (auto simp: acts_typed_def)

lemma cleanup_typed: "cleanup acts ctx = Inr (Returns k acts') \<Longrightarrow> acts_typed acts \<Longrightarrow> acts_typed acts'"
  by (auto simp: cleanup_def)

lemma finish_typed:
  "finish_request we es acts ctx = Inr (Returns k acts') \<Longrightarrow> acts_typed acts \<Longrightarrow> conn_typed (ctx_conn ctx) \<Longrightarrow> acts_typed acts'"
  by (auto simp: finish_request_def keepalive_conn_def conn_typed_def dest: cleanup_typed split: if_splits)

lemma request_round_typed:
  assumes "env_ok (we_handler we)" "reads_ok (we_reads we)" "conn_typed c"
    and "request_round we (zero_ctx c t) = Inr (Returns k acts)"
  shows "acts_typed acts"
proof (cases "process_ingress (zero_ctx c t) (we_reads we)")
  case (Inl f)
  then show ?thesis using assms(4) by (simp add: request_round_def)
next
  case ret: (Inr outc)
  then obtain j ctx1 rest where outc: "outc = Returns j (ctx1, rest)"
    using assms(4) by (cases outc) (auto simp: request_round_def)
  note i = ingress_leaves [OF assms(2) ret [unfolded outc]]
  have "ingress_ok c (Inr (Returns j (ctx1, rest)))"
    using process_ingress_any [of "we_reads we" c t] assms(2) ret outc by (simp add: reads_ok_def)
  then have h1: "h1_fits (ctx_h1 ctx1)" "conn_typed (ctx_conn ctx1)" using assms(3) by (auto simp: ingress_ok_def)
  show ?thesis
  proof (cases "j = 0")
    case False
    obtain es out b l where snd: "send_response ctx1 (we_write1 we) (we_write2 we) = Inr (es, out, logged_response ctx1 b l)"
      using send_response_defined [OF i(4,3)] by metis
    then show ?thesis
      using False assms(4) cleanup_typed [of "[]"] logged_typed [OF i(4,3) h1, of b l]
        cleanup_typed [of "[Act_sent out, Act_access (logged_response ctx1 b l)]"]
      by (auto simp: request_round_def ret outc split: if_splits)
  next
    case True
    obtain ctx2 where h: "call_handler (we_handler we) (route_request (validate_request ctx1)) = Inr ctx2"
        "handled (we_handler we) (validate_request ctx1) ctx2"
      using routed_handled [OF assms(1) validate_keeps(1) [OF i(2)] validate_keeps(2)] by blast
    obtain es out b l where snd: "send_response ctx2 (we_write1 we) (we_write2 we) = Inr (es, out, logged_response ctx2 b l)"
      using send_response_defined handled_small [OF h(2)] by metis
    have ty: "ctx_typed (logged_response ctx2 b l)" "conn_typed (ctx_conn ctx2)"
      using h(2) h1 handled_small [OF h(2)] by (auto intro!: logged_typed simp: handled_def)
    have "finish_request we es [Act_sent out, Act_access (logged_response ctx2 b l)] (logged_response ctx2 b l) = Inr (Returns k acts)"
      using True assms(4) by (simp add: request_round_def ret outc h(1) snd)
    then show ?thesis by (rule finish_typed) (use ty in simp_all)
  qed
qed

lemma round_typed:
  assumes "env_ok (we_handler we)" "reads_ok (we_reads we)" "conn_typed conn"
    and "worker_round we conn = Inr (Returns k acts)"
  shows "acts_typed acts"
proof -
  let ?failed = "cleanup [Act_log ''perform_tls_handshake failed''] (zero_ctx (sniffed we conn) (we_clock we))"
  have "worker_round we conn \<in> {Inl NullDeref, Inr Blocks, ?failed, request_round we (zero_ctx (sniffed we conn) (we_clock we))}"
    by (auto simp: worker_round_def Let_def split: option.split)
  then show ?thesis
    using assms(3,4) request_round_typed [OF assms(1,2), of "sniffed we conn" "we_clock we" k acts]
      cleanup_typed [of "[Act_log ''perform_tls_handshake failed'']" "zero_ctx (sniffed we conn) (we_clock we)" k acts]
    by auto
qed



subsection \<open>The line of an answered request\<close>

definition agent_in :: "(string \<times> string) list \<Rightarrow> string" where
  "agent_in hs = (case header_in hs ''User-Agent'' of None \<Rightarrow> [] | Some kx \<Rightarrow> take 4095 (snd kx))"

lemma parsed_agent:
  assumes "parsed_as (ctx_h1 ctx) m u v hs" "\<forall>kx \<in> set hs. header_ok kx"
  shows "user_agent ctx = agent_in hs"
  using parsed_header [OF assms, of "''User-Agent''"]
  by (auto simp: user_agent_def agent_in_def get_header_value_def confirm_header_exists_def split: option.splits)

text \<open>The part of the line that quotes the request: method, URI and version as cut to their fields, and the status.\<close>

definition quoted_request :: "string \<Rightarrow> string \<Rightarrow> string \<Rightarrow> int \<Rightarrow> string" where
  "quoted_request m u v c =
     [CHR 0x22] @ take 15 m @ '' '' @ take 4095 u @ '' '' @ take 15 v @ [CHR 0x22] @ '' '' @ show_int c @ '' ''"

lemma parsed_line:
  assumes "parsed_as (ctx_h1 ctx) m u v hs" "\<forall>kx \<in> set hs. header_ok kx"
  shows "\<exists>rest. access_line datetime now tid ctx
     = cstr (conn_remote_ip (ctx_conn ctx)) @ '' - - ['' @ datetime @ '']  '' @ quoted_request m u v (ctx_status_code ctx)
       @ show_int (to_int32 (int (resp_body_len (ctx_response ctx)))) @ rest @ agent_in hs @ '' - tid: 0x'' @ show_hex tid @ [LF]"
proof -
  have "cstr (h1_method (ctx_h1 ctx)) = take 15 m" "cstr (h1_uri (ctx_h1 ctx)) = take 4095 u" "cstr (h1_version (ctx_h1 ctx)) = take 15 v"
    using assms(1) by (simp_all add: parsed_as_def)
  then show ?thesis
    using parsed_agent [OF assms(1,2)] by (simp add: access_line_def quoted_request_def Let_def)
qed

text \<open>
  C18. What the access log gets of an answered request: its line quotes method, URI, version and
  status and ends with the User-Agent; the log writes it whole when URI and agent are short,
  but any client can make the logger read past its line buffer with a URI of 2048 bytes, which is
  answered like any other.
\<close>

theorem request_logged:
  assumes "env_ok (we_handler we)" "maps_whole (we_handler we)" "small_files (we_handler we)" "ready we conn"
      "conn_protocol (sniffed we conn) = PROTO_HTTP11" "reads_ok (we_reads we)" "conn_typed conn"
    and "request_ok m u v hs" "\<forall>ev \<in> set (we_reads we). carries_on (sniffed we conn) ev"
      "received (we_reads we) = request_text m u v hs @ rest" "\<not> asks_h2c hs"
    and "r = reply (we_handler we) (take 15 m) (take 4095 u)
           (header_in hs ''Host'' \<noteq> None \<or> strcasecmp_eq (take 15 v) ''HTTP/1.0'')"
    and "we_write1 we = Took k1" "HEADER_BUFFER_SIZE \<le> k1" "we_write2 we = Took k2" "length (snd (snd r)) \<le> k2"
    and "length datetime \<le> 31" "tid < 2 ^ 64"
  shows "\<exists>ctx k acts mid. worker_round we conn = Inr (Returns k (Act_sent (reply_bytes r) # Act_access ctx # acts))
     \<and> access_line datetime now tid ctx
         = cstr (conn_remote_ip conn) @ '' - - ['' @ datetime @ '']  '' @ quoted_request m u v (fst r)
           @ mid @ agent_in hs @ '' - tid: 0x'' @ show_hex tid @ [LF]
     \<and> (length u + length (agent_in hs) \<le> 1797 \<longrightarrow>
          iov_bytes (format_entry LOG_TARGET_ACCESS (access_line datetime now tid ctx)) = Inr (access_line datetime now tid ctx))
     \<and> (2048 \<le> length u \<longrightarrow>
          iov_bytes (format_entry LOG_TARGET_ACCESS (access_line datetime now tid ctx)) = Inl OutOfBounds)"
proof -
  obtain ctx k acts where w: "worker_round we conn = Inr (Returns k (Act_sent (reply_bytes r) # Act_access ctx # acts))"
      "parsed_as (ctx_h1 ctx) m u v hs" "ctx_status_code ctx = fst r" "conn_remote_ip (ctx_conn ctx) = conn_remote_ip conn"
    using request_round_answers [OF assms(1-5) assms(8-16)] by blast
  have ok: "\<forall>kx \<in> set hs. header_ok kx" using assms(8) by (simp add: request_ok_def)
  have "acts_typed (Act_sent (reply_bytes r) # Act_access ctx # acts)" by (rule round_typed [OF assms(1,6,7) w(1)])
  then have t: "status32 ctx" "h1_fits (ctx_h1 ctx)" "length (cstr (conn_remote_ip (ctx_conn ctx))) \<le> 45"
    by (simp_all add: ctx_typed_def conn_typed_def INET6_ADDRSTRLEN_def)
  have u: "cstr (h1_uri (ctx_h1 ctx)) = take 4095 u" using w(2) by (simp add: parsed_as_def)
  have a: "user_agent ctx = agent_in hs" by (rule parsed_agent [OF w(2) ok])
  note l = access_line_length [OF t assms(17,18), of now] access_line_uri [of ctx datetime now tid]
  obtain mid where "access_line datetime now tid ctx
         = cstr (conn_remote_ip conn) @ '' - - ['' @ datetime @ '']  '' @ quoted_request m u v (fst r)
           @ mid @ agent_in hs @ '' - tid: 0x'' @ show_hex tid @ [LF]"
    using parsed_line [OF w(2) ok, of datetime now tid] w(3,4) by auto
  with w(1) l u a show ?thesis
    by (intro exI [of _ ctx] exI [of _ k] exI [of _ acts] exI [of _ mid]) (auto simp: iov_bytes_entry LOG_LINE_MAX_def)
qed

text \<open>A TRACE for a URI of 2048 bytes is answered by 405; its log entry is read past its end.\<close>

theorem request_logged_witness:
  "\<exists>ctx k acts. worker_round (fresh_env ''TRACE'' (replicate 2048 (CHR ''a'')) False) (fresh 5)
     = Inr (Returns k (Act_sent (reply_bytes (error_reply example_env ''TRACE'' 405)) # Act_access ctx # acts))
     \<and> iov_bytes (format_entry LOG_TARGET_ACCESS (access_line ''now'' 9 1 ctx)) = Inl OutOfBounds"
proof -
  let ?u = "replicate 2048 (CHR ''a'')"
  have "request_text ''TRACE'' ?u ''HTTP/1.1'' example_hs = ''TRACE '' @ ?u @ '' HTTP/1.1'' @ CRLF @ ''Host: a'' @ CRLF @ CRLF"
    by (simp add: request_text_def request_line_def header_line_def example_hs_def)
  then have ok: "request_ok ''TRACE'' ?u ''HTTP/1.1'' example_hs" "take 24 (sample_request ''TRACE'' ?u) \<noteq> http2_preface"
    by (simp_all add: request_ok_def request_line_ok_def header_ok_def example_hs_def MAX_HEADER_SIZE_def
        sample_request_def http2_preface_def)
  let ?r = "error_reply example_env ''TRACE'' 405"
  have "dotdot_free (take 4095 ?u)"
    by (auto simp: dotdot_free_def dest!: arg_cong [where f = set])
  then have "?r = reply example_env (take 15 ''TRACE'') (take 4095 ?u) True"
    by (simp add: reply_def admission_def known_methods_def)
  note rep = this [unfolded fresh_reply [of "''TRACE''" ?u False]]
  have b: "length (snd (snd ?r)) \<le> 9000" by (simp add: error_reply_def)
  have c: "conn_typed (fresh 5)" by (simp add: conn_typed_def fresh_def zero_conn_def INET6_ADDRSTRLEN_def cstr_id)
  have d: "length ''now'' \<le> 31" "(1::nat) < 2 ^ 64" "2048 \<le> length ?u" by simp_all
  from request_logged [OF fresh_env_ok(1-3) fresh_ready(1,2) [OF ok, where fd = 5] fresh_env_ok(4) c ok(1) fresh_ready(3) [OF ok]
      fresh_env_ok(5) example_hs_facts(1) rep fresh_env_simps(3) writes_whole fresh_env_simps(4) b d(1,2), of 9] d(3)
  show ?thesis by blast
qed

end
