(* ===== verification/ConfigShare.thy ===== *)
theory ConfigShare
  imports Config Lifecycle
begin

text \<open>
  The shared configuration (\<open>config_lock\<close> and \<open>conf_data\<close> of \<open>src/main.c\<close>): readers copy settings
  out under the read lock (\<open>handle_get_head\<close>, \<open>resp_add_common_headers\<close>, the starts of the threads and of
  the logger), \<open>reload_configuration\<close> builds a record, swaps the pointer under the write lock and frees
  the old one, \<open>cleanup_config\<close> frees the last.  Any interleaving; the heap is explicit.
\<close>

subsection \<open>Readers, the reloading thread, the heap\<close>

text \<open>Inside the lock a reader holds the pointer it loaded last, and what it has read so far.\<close>

datatype reader_pc =
    Rd_out
  | Rd_in "nat option" "config_data list"
  | Rd_end

datatype writer_pc =
    Cw_idle
  | Cw_new nat         \<comment> \<open>\<open>new_config\<close> allocated\<close>
  | Cw_parsed nat      \<comment> \<open>at \<open>pthread_rwlock_wrlock\<close>\<close>
  | Cw_locked nat
  | Cw_swapped nat     \<comment> \<open>with \<open>old_config\<close>, still locked\<close>
  | Cw_unlocked nat    \<comment> \<open>at \<open>free(old_config)\<close>\<close>
  | Cw_cleaned

record config_share =
  cs_heap :: "nat \<Rightarrow> config_data option"
  cs_ptr :: "nat option"                       \<comment> \<open>\<open>conf_data\<close>\<close>
  cs_readers :: "reader_pc list"
  cs_writer :: writer_pc
  cs_log :: "(log_level_t \<times> string) list"
  cs_seen :: "(nat \<times> config_data list) list"   \<comment> \<open>what each finished section read\<close>
  cs_fault :: bool                             \<comment> \<open>a null pointer or a freed record was read, or one freed again\<close>

definition reader_at :: "config_share \<Rightarrow> nat \<Rightarrow> reader_pc \<Rightarrow> bool" where
  "reader_at s i pc \<longleftrightarrow> i < length (cs_readers s) \<and> cs_readers s ! i = pc"

definition set_reader :: "nat \<Rightarrow> reader_pc \<Rightarrow> config_share \<Rightarrow> config_share" where
  "set_reader i pc s = s\<lparr>cs_readers := (cs_readers s)[i := pc]\<rparr>"

fun reading :: "reader_pc \<Rightarrow> bool" where
  "reading (Rd_in p seen) = True"
| "reading _ = False"

fun write_locked :: "writer_pc \<Rightarrow> bool" where
  "write_locked (Cw_locked a) = True"
| "write_locked (Cw_swapped a) = True"
| "write_locked _ = False"

definition free_record :: "nat \<Rightarrow> config_share \<Rightarrow> config_share" where
  "free_record a s = s\<lparr>cs_heap := (cs_heap s)(a := None), cs_fault := cs_fault s \<or> cs_heap s a = None\<rparr>"

text \<open>\<open>pthread_rwlock_rdlock\<close>, any number of reads through \<open>conf_data\<close>, \<open>pthread_rwlock_unlock\<close>.\<close>

inductive reader_step :: "config_share \<Rightarrow> config_share \<Rightarrow> bool" where
  rdlock: "reader_at s i Rd_out \<Longrightarrow> \<not> write_locked (cs_writer s) \<Longrightarrow> reader_step s (set_reader i (Rd_in None []) s)"
| load: "reader_at s i (Rd_in p seen) \<Longrightarrow> cs_ptr s = Some a \<Longrightarrow>
     reader_step s (set_reader i (Rd_in (Some a) seen) s)"
| null: "reader_at s i (Rd_in p seen) \<Longrightarrow> cs_ptr s = None \<Longrightarrow> reader_step s (s\<lparr>cs_fault := True\<rparr>)"
| deref: "reader_at s i (Rd_in (Some a) seen) \<Longrightarrow> cs_heap s a = Some c \<Longrightarrow>
     reader_step s (set_reader i (Rd_in (Some a) (seen @ [c])) s)"
| stale: "reader_at s i (Rd_in (Some a) seen) \<Longrightarrow> cs_heap s a = None \<Longrightarrow> reader_step s (s\<lparr>cs_fault := True\<rparr>)"
| rdunlock: "reader_at s i (Rd_in p seen) \<Longrightarrow>
     reader_step s (set_reader i Rd_out (s\<lparr>cs_seen := cs_seen s @ [(i, seen)]\<rparr>))"
| finish: "reader_at s i Rd_out \<Longrightarrow> reader_step s (set_reader i Rd_end s)"

text \<open>\<open>reload_configuration\<close>, statement by statement.\<close>

inductive writer_step :: "config_share \<Rightarrow> config_share \<Rightarrow> bool" where
  no_memory: "cs_writer s = Cw_idle \<Longrightarrow>
     writer_step s (s\<lparr>cs_log := cs_log s @ [(L_ERROR, ''Malloc failed parsing new config!'')]\<rparr>)"
| malloc: "cs_writer s = Cw_idle \<Longrightarrow> cs_ptr s \<noteq> None \<Longrightarrow> cs_heap s a = None \<Longrightarrow>
     writer_step s (s\<lparr>cs_heap := (cs_heap s)(a \<mapsto> load_config_defaults n garbage), cs_writer := Cw_new a\<rparr>)"
| parsed: "cs_writer s = Cw_new a \<Longrightarrow> cs_heap s a = Some g \<Longrightarrow>
     parse_and_validate_config_file path bytes why False (g, cs_log s) = Continues (True, c, l) \<Longrightarrow>
     writer_step s (s\<lparr>cs_heap := (cs_heap s)(a \<mapsto> c), cs_log := l, cs_writer := Cw_parsed a\<rparr>)"
| rejected: "cs_writer s = Cw_new a \<Longrightarrow> cs_heap s a = Some g \<Longrightarrow>
     parse_and_validate_config_file path bytes why False (g, cs_log s) = Continues (False, c, l) \<Longrightarrow>
     writer_step s (free_record a (s\<lparr>cs_log := l, cs_writer := Cw_idle\<rparr>))"
| wrlock: "cs_writer s = Cw_parsed a \<Longrightarrow> \<not> list_ex reading (cs_readers s) \<Longrightarrow>
     writer_step s (s\<lparr>cs_writer := Cw_locked a\<rparr>)"
| swap: "cs_writer s = Cw_locked a \<Longrightarrow> cs_ptr s = Some old \<Longrightarrow>
     writer_step s (s\<lparr>cs_ptr := Some a, cs_writer := Cw_swapped old\<rparr>)"
| wrunlock: "cs_writer s = Cw_swapped old \<Longrightarrow> writer_step s (s\<lparr>cs_writer := Cw_unlocked old\<rparr>)"
| free_old: "cs_writer s = Cw_unlocked old \<Longrightarrow> writer_step s (free_record old (s\<lparr>cs_writer := Cw_idle\<rparr>))"

text \<open>\<open>cleanup_config\<close>, which the shutdown calls when the readers have ended and no reload runs.\<close>

inductive cleanup_step :: "config_share \<Rightarrow> config_share \<Rightarrow> bool" where
  clean_up: "cs_writer s = Cw_idle \<Longrightarrow> list_all ((=) Rd_end) (cs_readers s) \<Longrightarrow> cs_ptr s = Some a \<Longrightarrow>
     cleanup_step s (free_record a (s\<lparr>cs_ptr := None, cs_writer := Cw_cleaned\<rparr>))"

inductive cs_step :: "config_share \<Rightarrow> config_share \<Rightarrow> bool" where
  reader: "reader_step s s' \<Longrightarrow> cs_step s s'"
| writer: "writer_step s s' \<Longrightarrow> cs_step s s'"
| cleanup: "cleanup_step s s' \<Longrightarrow> cs_step s s'"

subsection \<open>The specification: a register\<close>

text \<open>The configuration in force and what the sections so far have read: a section reads one value, at once.\<close>

type_synonym register = "config_data option \<times> (nat \<times> config_data list) list"

inductive reg_step :: "register \<Rightarrow> register \<Rightarrow> bool" where
  reg_read: "reg_step (Some c, h) (Some c, h @ [(i, replicate n c)])"
| reg_write: "reg_step (Some c, h) (Some c', h)"
| reg_close: "reg_step (Some c, h) (None, h)"

definition in_force :: "config_share \<Rightarrow> config_data option" where
  "in_force s = Option.bind (cs_ptr s) (cs_heap s)"

definition register_of :: "config_share \<Rightarrow> register" where
  "register_of s = (in_force s, cs_seen s)"

subsection \<open>The invariant\<close>

text \<open>The record the reloading thread works on besides the one in force.\<close>

fun in_hand :: "writer_pc \<Rightarrow> nat option" where
  "in_hand (Cw_new a) = Some a"
| "in_hand (Cw_parsed a) = Some a"
| "in_hand (Cw_locked a) = Some a"
| "in_hand (Cw_swapped a) = Some a"
| "in_hand (Cw_unlocked a) = Some a"
| "in_hand _ = None"

text \<open>
  Exactly those two records are allocated; nobody reads while the writer holds the lock; a reader's
  pointer is the one in force, and what it has read is the record in force.
\<close>

definition reader_ok :: "config_share \<Rightarrow> reader_pc \<Rightarrow> bool" where
  "reader_ok s pc \<longleftrightarrow> (\<forall>p seen. pc = Rd_in p seen \<longrightarrow>
     \<not> write_locked (cs_writer s) \<and> cs_ptr s \<noteq> None \<and> (p = None \<or> p = cs_ptr s)
     \<and> (\<forall>c \<in> set seen. Some c = in_force s))"

definition cs_inv :: "config_share \<Rightarrow> bool" where
  "cs_inv s \<longleftrightarrow> \<not> cs_fault s
     \<and> dom (cs_heap s) = set_option (cs_ptr s) \<union> set_option (in_hand (cs_writer s))
     \<and> (\<forall>a. in_hand (cs_writer s) = Some a \<longrightarrow> cs_ptr s \<noteq> Some a)
     \<and> (cs_ptr s = None \<longleftrightarrow> cs_writer s = Cw_cleaned)
     \<and> (cs_writer s = Cw_cleaned \<longrightarrow> set (cs_readers s) \<subseteq> {Rd_end})
     \<and> (\<forall>pc \<in> set (cs_readers s). reader_ok s pc)"

lemma set_update_ball: "\<forall>x \<in> set xs. P x \<Longrightarrow> P y \<Longrightarrow> \<forall>x \<in> set (xs[i := y]). P x"
  using set_update_subset_insert [of xs i y] by blast

lemma reader_ok_cong:
  "write_locked (cs_writer s') = write_locked (cs_writer s) \<Longrightarrow> cs_ptr s' = cs_ptr s \<Longrightarrow> in_force s' = in_force s \<Longrightarrow>
     reader_ok s' = reader_ok s"
  by (simp add: reader_ok_def fun_eq_iff)

lemma set_reader_simps [simp]:
  "cs_heap (set_reader i pc s) = cs_heap s" "cs_ptr (set_reader i pc s) = cs_ptr s"
  "cs_writer (set_reader i pc s) = cs_writer s" "cs_seen (set_reader i pc s) = cs_seen s"
  "cs_fault (set_reader i pc s) = cs_fault s" "cs_readers (set_reader i pc s) = (cs_readers s)[i := pc]"
  "in_force (set_reader i pc s) = in_force s" "reader_ok (set_reader i pc s) = reader_ok s"
  by (simp_all add: set_reader_def in_force_def reader_ok_def fun_eq_iff)

lemma reader_at_ok: "cs_inv s \<Longrightarrow> reader_at s i pc \<Longrightarrow> reader_ok s pc \<and> (pc \<noteq> Rd_end \<longrightarrow> cs_writer s \<noteq> Cw_cleaned)"
  by (auto simp: cs_inv_def reader_at_def subset_iff)

lemma cs_inv_reader:
  assumes "cs_inv s" "reader_ok s pc" "reader_at s i pc'" "pc' \<noteq> Rd_end"
  shows "cs_inv (set_reader i pc s)"
proof -
  have "cs_writer s \<noteq> Cw_cleaned" using reader_at_ok [OF assms(1,3)] assms(4) by blast
  moreover have "\<forall>x \<in> set ((cs_readers s)[i := pc]). reader_ok s x"
    using assms(1,2) by (intro set_update_ball) (simp_all add: cs_inv_def)
  ultimately show ?thesis using assms(1) by (simp add: cs_inv_def)
qed

lemma ptr_live: "cs_inv s \<Longrightarrow> cs_ptr s = Some a \<Longrightarrow> \<exists>c. cs_heap s a = Some c"
  by (auto simp: cs_inv_def dom_def set_eq_iff)

lemma hand_live: "cs_inv s \<Longrightarrow> in_hand (cs_writer s) = Some a \<Longrightarrow> \<exists>c. cs_heap s a = Some c"
  by (auto simp: cs_inv_def dom_def set_eq_iff)

lemma seen_replicate: "\<forall>c \<in> set seen. Some c = Some d \<Longrightarrow> seen = replicate (length seen) d"
  by (induction seen) auto

lemma reader_sim:
  assumes "reader_step s s'" "cs_inv s"
  shows "cs_inv s' \<and> reg_step\<^sup>*\<^sup>* (register_of s) (register_of s')"
  using assms(1)
proof cases
  case (rdlock i)
  have "cs_ptr s \<noteq> None" using reader_at_ok [OF assms(2) rdlock(2)] assms(2) by (auto simp: cs_inv_def)
  then have "reader_ok s (Rd_in None [])" using rdlock(3) by (simp add: reader_ok_def)
  with cs_inv_reader [OF assms(2) this rdlock(2)] show ?thesis by (simp add: rdlock(1) register_of_def)
next
  case (load i p seen a)
  then have "reader_ok s (Rd_in (Some a) seen)" using reader_at_ok [OF assms(2) load(2)] by (auto simp: reader_ok_def)
  with cs_inv_reader [OF assms(2) this load(2)] show ?thesis by (simp add: load(1) register_of_def)
next
  case (null i p seen)
  then show ?thesis using reader_at_ok [OF assms(2) null(2)] by (auto simp: reader_ok_def)
next
  case (deref i a seen c)
  have "reader_ok s (Rd_in (Some a) (seen @ [c]))"
    using reader_at_ok [OF assms(2) deref(2)] deref(3) by (auto simp: reader_ok_def in_force_def)
  with cs_inv_reader [OF assms(2) this deref(2)] show ?thesis by (simp add: deref(1) register_of_def)
next
  case (stale i a seen)
  then have "cs_ptr s = Some a" using reader_at_ok [OF assms(2) stale(2)] by (auto simp: reader_ok_def)
  then show ?thesis using ptr_live [OF assms(2)] stale(3) by auto
next
  case (rdunlock i p seen)
  let ?t = "s\<lparr>cs_seen := cs_seen s @ [(i, seen)]\<rparr>"
  have ok: "reader_ok s (Rd_in p seen)" using reader_at_ok [OF assms(2) rdunlock(2)] by blast
  then obtain a where "cs_ptr s = Some a" by (auto simp: reader_ok_def)
  then obtain d where d: "in_force s = Some d" using ptr_live [OF assms(2)] by (auto simp: in_force_def)
  then have "seen = replicate (length seen) d" using ok by (intro seen_replicate) (simp add: reader_ok_def)
  then have "reg_step (register_of s) (register_of s')"
    using reg_step.reg_read [of d "cs_seen s" i "length seen"] d by (simp add: rdunlock(1) register_of_def in_force_def)
  moreover have same: "reader_ok ?t = reader_ok s" by (rule reader_ok_cong) (simp_all add: in_force_def)
  then have "cs_inv ?t" using assms(2) by (simp add: cs_inv_def)
  then have "cs_inv s'" unfolding rdunlock(1)
    by (rule cs_inv_reader [where pc' = "Rd_in p seen"]) (use rdunlock(2) in \<open>simp_all add: reader_ok_def reader_at_def\<close>)
  ultimately show ?thesis by blast
next
  case (finish i)
  have "reader_ok s Rd_end" by (simp add: reader_ok_def)
  with cs_inv_reader [OF assms(2) this finish(2)] show ?thesis by (simp add: finish(1) register_of_def)
qed

lemma no_reading: "\<not> list_ex reading rs \<Longrightarrow> pc \<in> set rs \<Longrightarrow> reader_ok s pc"
  by (cases pc) (auto simp: reader_ok_def list_ex_iff)

lemma writer_sim:
  assumes "writer_step s s'" "cs_inv s"
  shows "cs_inv s' \<and> reg_step\<^sup>*\<^sup>* (register_of s) (register_of s')"
proof -
  have quiet: "reg_step\<^sup>*\<^sup>* (register_of s) (register_of s')" if "in_force s' = in_force s" "cs_seen s' = cs_seen s"
    using that by (simp add: register_of_def)
  note i = assms(2) [unfolded cs_inv_def]
  show ?thesis
    using assms(1)
  proof cases
    case no_memory
    then have f: "in_force s' = in_force s" by (simp add: in_force_def)
    have "reader_ok s' = reader_ok s" using f no_memory(1) by (intro reader_ok_cong) simp_all
    with i no_memory(1,2) quiet f show ?thesis by (simp add: cs_inv_def)
  next
    case (malloc a n garbage)
    have f: "in_force s' = in_force s" using malloc i by (auto simp: in_force_def split: Option.bind_split)
    have "reader_ok s' = reader_ok s" using f malloc(1,2) by (intro reader_ok_cong) simp_all
    moreover have "cs_ptr s \<noteq> Some a" using ptr_live [OF assms(2)] malloc(4) by auto
    ultimately show ?thesis using i f malloc quiet by (simp add: cs_inv_def)
  next
    case (parsed a g path bytes why c l)
    have n: "cs_ptr s \<noteq> Some a" using i parsed(2) by simp
    then have f: "in_force s' = in_force s" using parsed(1) by (auto simp: in_force_def split: Option.bind_split)
    have "reader_ok s' = reader_ok s" using f parsed(1,2) by (intro reader_ok_cong) simp_all
    then show ?thesis using i f n parsed(1,2) quiet by (auto simp: cs_inv_def)
  next
    case (rejected a g path bytes why c l)
    have n: "cs_ptr s \<noteq> Some a" using i rejected(2) by simp
    then have f: "in_force s' = in_force s" using rejected(1) by (auto simp: in_force_def free_record_def split: Option.bind_split)
    have "reader_ok s' = reader_ok s" using f rejected(1,2) by (intro reader_ok_cong) (simp_all add: free_record_def)
    then show ?thesis using i f n rejected(1,2,3) quiet by (auto simp: cs_inv_def free_record_def)
  next
    case (wrlock a)
    have f: "in_force s' = in_force s" using wrlock by (simp add: in_force_def)
    have "\<forall>pc \<in> set (cs_readers s). reader_ok s' pc" using no_reading [OF wrlock(3)] by blast
    then show ?thesis using i f wrlock(1,2) quiet by (simp add: cs_inv_def)
  next
    case (swap a old)
    have "\<forall>pc \<in> set (cs_readers s). reader_ok s' pc" using i swap(2) by (auto simp: reader_ok_def)
    moreover obtain c c' where c: "cs_heap s a = Some c" "cs_heap s old = Some c'"
      using hand_live [OF assms(2), of a] swap(2) ptr_live [OF assms(2) swap(3)] by auto
    ultimately have "cs_inv s'" using i swap by (auto simp: cs_inv_def)
    moreover have "reg_step (register_of s) (register_of s')"
      using c swap(1,3) reg_step.reg_write [of c' "cs_seen s" c] by (simp add: register_of_def in_force_def)
    ultimately show ?thesis by blast
  next
    case (wrunlock old)
    have f: "in_force s' = in_force s" using wrunlock by (simp add: in_force_def)
    have "\<forall>pc \<in> set (cs_readers s). reader_ok s' pc" using i wrunlock(2) by (auto simp: reader_ok_def)
    then show ?thesis using i f wrunlock(1,2) quiet by (simp add: cs_inv_def)
  next
    case (free_old old)
    have n: "cs_ptr s \<noteq> Some old" using i free_old(2) by simp
    then have f: "in_force s' = in_force s" using free_old(1) by (auto simp: in_force_def free_record_def split: Option.bind_split)
    have "reader_ok s' = reader_ok s" using f free_old(1,2) by (intro reader_ok_cong) (simp_all add: free_record_def)
    moreover have "cs_heap s old \<noteq> None" using hand_live [OF assms(2), of old] free_old(2) by auto
    ultimately show ?thesis using i f n free_old(1,2) quiet by (auto simp: cs_inv_def free_record_def)
  qed
qed

lemma cleanup_sim:
  assumes "cleanup_step s s'" "cs_inv s"
  shows "cs_inv s' \<and> reg_step\<^sup>*\<^sup>* (register_of s) (register_of s')"
  using assms(1)
proof cases
  case (clean_up a)
  note i = assms(2) [unfolded cs_inv_def]
  obtain c where c: "cs_heap s a = Some c" using ptr_live [OF assms(2) clean_up(4)] by blast
  have e: "set (cs_readers s) \<subseteq> {Rd_end}" using clean_up(3) by (auto simp: list_all_iff)
  then have "\<forall>pc \<in> set (cs_readers s). reader_ok s' pc" by (auto simp: reader_ok_def)
  then have "cs_inv s'" using i e c clean_up(1,2,4) by (auto simp: cs_inv_def free_record_def)
  moreover have "reg_step (register_of s) (register_of s')"
    using c clean_up(1,4) reg_step.reg_close [of c "cs_seen s"] by (simp add: register_of_def in_force_def free_record_def)
  ultimately show ?thesis by blast
qed

lemma cs_sim:
  assumes "cs_step s s'" "cs_inv s"
  shows "cs_inv s' \<and> reg_step\<^sup>*\<^sup>* (register_of s) (register_of s')"
  using assms reader_sim writer_sim cleanup_sim by (auto elim: cs_step.cases)

interpretation cfg_register: simulation cs_step reg_step register_of cs_inv
  using cs_sim by unfold_locales auto

subsection \<open>Properties of the sharing\<close>

text \<open>After \<open>init_config\<close>: one record, no thread in the lock.\<close>

definition cs_start :: "config_data \<Rightarrow> config_share \<Rightarrow> bool" where
  "cs_start c s \<longleftrightarrow> (\<exists>a. cs_ptr s = Some a \<and> cs_heap s = [a \<mapsto> c]) \<and> list_all ((=) Rd_out) (cs_readers s)
     \<and> cs_writer s = Cw_idle \<and> cs_seen s = [] \<and> \<not> cs_fault s"

lemma cs_start_inv: "cs_start c s \<Longrightarrow> cs_inv s"
  by (auto simp: cs_start_def cs_inv_def list_all_iff reader_ok_def split: if_splits)

lemma cs_start_register: "cs_start c s \<Longrightarrow> register_of s = (Some c, [])"
  by (auto simp: cs_start_def register_of_def in_force_def)

text \<open>
  C10. However reloads and readers interleave, no reader follows a null pointer or reads a freed
  record and nothing is freed twice; the records allocated are the one in force and the one the
  reloading thread has in hand, so a reload leaks none; and whoever is inside the read lock has read
  nothing but the record in force.
\<close>

theorem config_memory_safe:
  assumes "cs_start c s0" "cs_step\<^sup>*\<^sup>* s0 s"
  shows "\<not> cs_fault s \<and> dom (cs_heap s) = set_option (cs_ptr s) \<union> set_option (in_hand (cs_writer s))
     \<and> (\<forall>p seen. Rd_in p seen \<in> set (cs_readers s) \<longrightarrow> set seen \<subseteq> set_option (in_force s))"
proof -
  have i: "cs_inv s" using cfg_register.inv_run [OF assms(2) cs_start_inv [OF assms(1)]] .
  then have "set seen \<subseteq> set_option (in_force s)" if "Rd_in p seen \<in> set (cs_readers s)" for p seen
    using that by (fastforce simp: cs_inv_def reader_ok_def)
  with i show ?thesis by (simp add: cs_inv_def)
qed


text \<open>One reader in the lock, the reloading thread about to take it.\<close>

definition one_reader :: "config_data \<Rightarrow> config_share" where
  "one_reader c = \<lparr>cs_heap = [0 \<mapsto> c], cs_ptr = Some 0, cs_readers = [Rd_out], cs_writer = Cw_idle, cs_log = [],
     cs_seen = [], cs_fault = False\<rparr>"

lemma one_reader_start: "cs_start c (one_reader c)"
  by (simp add: cs_start_def one_reader_def)

lemma one_reader_run:
  "cs_step\<^sup>*\<^sup>* (one_reader c) ((one_reader c)\<lparr>cs_readers := [Rd_in (Some 0) [c]]\<rparr>)"
proof -
  let ?s = "\<lambda>pc. (one_reader c)\<lparr>cs_readers := [pc]\<rparr>"
  have "reader_step (?s Rd_out) (?s (Rd_in None []))"
    using reader_step.rdlock [of "?s Rd_out" 0] by (simp add: reader_at_def one_reader_def set_reader_def)
  moreover have "reader_step (?s (Rd_in None [])) (?s (Rd_in (Some 0) []))"
    using reader_step.load [of "?s (Rd_in None [])" 0 None "[]" 0] by (simp add: reader_at_def one_reader_def set_reader_def)
  moreover have "reader_step (?s (Rd_in (Some 0) [])) (?s (Rd_in (Some 0) [c]))"
    using reader_step.deref [of "?s (Rd_in (Some 0) [])" 0 0 "[]" c] by (simp add: reader_at_def one_reader_def set_reader_def)
  ultimately have "cs_step\<^sup>*\<^sup>* (?s Rd_out) (?s (Rd_in (Some 0) [c]))"
    by (meson cs_step.reader converse_rtranclp_into_rtranclp rtranclp.rtrancl_refl)
  then show ?thesis by (simp add: one_reader_def)
qed

theorem config_memory_safe_witness:
  "\<exists>s. cs_step\<^sup>*\<^sup>* (one_reader zero_config) s \<and> cs_readers s = [Rd_in (Some 0) [zero_config]] \<and> \<not> cs_fault s"
  using config_memory_safe [OF one_reader_start one_reader_run, of zero_config] one_reader_run [of zero_config] by auto


end
