(* ===== verification/Settings.thy ===== *)
theory Settings
  imports Config
begin

text \<open>
  What a configuration file can and cannot set, and what the server makes of the file it is distributed
  with (\<open>celeritas.conf.dist\<close>).
\<close>

subsection \<open>Settings no file can change\<close>

definition fixed_settings :: "config_data \<Rightarrow> bool" where
  "fixed_settings c \<longleftrightarrow> keepalive_timeout c = 10 \<and> server_tok c = ''Celeritas/0.10.2''"

lemma fixed_defaults: "fixed_settings (load_config_defaults n g)"
  by (simp add: fixed_settings_def load_config_defaults_def)

lemma fixed_stores [simp]:
  "fixed_settings (set_u16 f v c) = fixed_settings c" "fixed_settings (set_string f w c) = fixed_settings c"
  "fixed_settings (set_bool f b c) = fixed_settings c"
  by (cases f; simp add: fixed_settings_def)+

lemma fixed_error: "handle_cfg_error first m st = Continues st' \<Longrightarrow> fst st' = fst st"
  by (auto simp: handle_cfg_error_def Let_def split: if_splits)

lemma fixed_value:
  "store_value first n e v st = Continues st' \<Longrightarrow> fixed_settings (fst st') = fixed_settings (fst st)"
  by (auto simp: store_value_def Let_def dest: fixed_error split: cfg_type_t.splits if_splits prod.splits)

lemma fixed_line:
  "parse_line first n l st = Continues st' \<Longrightarrow> fixed_settings (fst st') = fixed_settings (fst st)"
  by (auto simp: parse_line_def Let_def dest: fixed_error fixed_value split: if_splits option.splits)

lemma bindP_Continues: "bindP p f = Continues y \<longleftrightarrow> (\<exists>x. p = Continues x \<and> f x = Continues y)"
  by (cases p) simp_all

lemma fixed_lines:
  "parse_lines first n ls st = Continues st' \<Longrightarrow> fixed_settings (fst st') = fixed_settings (fst st)"
  by (induction ls arbitrary: n st) (auto simp: bindP_Continues dest: fixed_line)

lemma fixed_post: "post_process c = Continues c' \<Longrightarrow> fixed_settings c' = fixed_settings c"
  by (auto simp: post_process_def Let_def fixed_settings_def split: if_splits)

lemma fixed_file:
  "parse_and_validate_config_file path bytes why first st = Continues (ok, st') \<Longrightarrow>
     fixed_settings (fst st') = fixed_settings (fst st)"
  by (auto simp: parse_and_validate_config_file_def bindP_Continues dest!: fixed_error fixed_lines fixed_post
      split: option.splits)

lemma fixed_at_start: "init_config oks path bytes why n = Continues c \<Longrightarrow> fixed_settings c"
  using fixed_defaults [of n zero_config]
  by (auto simp: init_config_def bindP_Continues dest: fixed_file split: prod.splits if_splits)

lemma fixed_at_reload:
  "reload_configuration path bytes why n garbage (old, lg) = Continues (c', lg') \<Longrightarrow> fixed_settings old \<Longrightarrow> fixed_settings c'"
  using fixed_defaults [of n]
  by (auto simp: reload_configuration_def bindP_Continues dest!: fixed_file split: option.splits if_splits prod.splits)

text \<open>
  The keep-alive timeout is ten seconds and the Server token is the built-in one, whatever the
  configuration file says at the start or at any later reload: no line can change them.
\<close>

theorem timeout_not_configurable:
  "(init_config oks path bytes why n = Continues c \<longrightarrow> fixed_settings c)
   \<and> (reload_configuration path bytes why n garbage (old, lg) = Continues (c', lg') \<longrightarrow> fixed_settings old \<longrightarrow> fixed_settings c')"
  using fixed_at_start fixed_at_reload by blast

theorem timeout_not_configurable_witness:
  "\<exists>c. init_config (True, True, True) ''p'' (Some []) [] 2 = Continues c \<and> fixed_settings c"
proof -
  obtain c where c: "init_config (True, True, True) ''p'' (Some []) [] 2 = Continues c"
    by (simp add: init_config_def parse_and_validate_config_file_def post_process_def load_config_defaults_def Let_def)
  from timeout_not_configurable [THEN conjunct1, rule_format, OF c] c show ?thesis by blast
qed

subsection \<open>The distributed file\<close>

lemma comment_line: "parse_line first n (CHR ''#'' # t) st = Continues st"
proof -
  obtain w where "takeWhile (\<lambda>c. c \<noteq> CR \<and> c \<noteq> LF) (cstr (CHR ''#'' # t)) = CHR ''#'' # w"
    by (simp add: cstr_def)
  moreover have "\<exists>r. trim_whitespace (CHR ''#'' # w) = CHR ''#'' # r"
    by (cases "dropWhile isspace (rev w) = []")
      (auto simp: trim_whitespace_def dropWhile_append dropWhile_eq_Nil_conv, metis rev_rev_ident)
  ultimately show ?thesis by (auto simp: parse_line_def Let_def)
qed

lemma blank_line: "parse_line first n [LF] st = Continues st"
  by (simp add: parse_line_def cstr_def trim_whitespace_def)

lemma plain_line:
  assumes "e \<in> set cfg_map" "plain_value v"
  shows "parse_line first n (cm_key e @ '' = '' @ v @ [LF]) st = store_value first n e v st"
  using config_line_gen [OF assms(1), of "[]" "'' ''" "'' ''" "[]" v "[LF]"] assms(2)
  by (simp add: blanks_def isspace_def)

lemma port_lines:
  "\<exists>st'. parse_line first n (''http_port = 80'' @ [LF]) st = Continues st'"
  "\<exists>st'. parse_line first n (''https_port = 443'' @ [LF]) st = Continues st'"
proof -
  let ?e = "\<lambda>k f. \<lparr>cm_key = k, cm_type = CFG_UINT16, cm_field = f, cm_max_len = 0\<rparr>"
  have e: "?e ''http_port'' F_http_port \<in> set cfg_map" "?e ''https_port'' F_https_port \<in> set cfg_map"
    by (simp_all add: cfg_map_def)
  have v: "plain_value ''80''" "plain_value ''443''" by (simp_all add: plain_value_def trimmed_def isspace_def)
  have n: "strtol10 ''80'' = (80, False, [])" "strtol10 ''443'' = (443, False, [])" by code_simp+
  show "\<exists>st'. parse_line first n (''http_port = 80'' @ [LF]) st = Continues st'"
    using plain_line [OF e(1) v(1), of first n st] n by (simp add: store_value_def)
  show "\<exists>st'. parse_line first n (''https_port = 443'' @ [LF]) st = Continues st'"
    using plain_line [OF e(2) v(2), of first n st] n by (simp add: store_value_def)
qed

lemma workers_line:
  "parse_line True n (''worker_threads = <ncpu * 2>'' @ [LF]) st
     = Exits 1 (''Fatal Config Error: '' @ snprintf_buf 512 (line_msg n (''Invalid uint16_t for '' @ [CHR 0x27] @ ''worker_threads'' @ [CHR 0x27])))"
proof -
  let ?e = "\<lparr>cm_key = ''worker_threads'', cm_type = CFG_UINT16, cm_field = F_worker_threads, cm_max_len = 0\<rparr>"
  have "?e \<in> set cfg_map" by (simp add: cfg_map_def)
  moreover have "plain_value ''<ncpu * 2>''" by (simp add: plain_value_def trimmed_def isspace_def)
  moreover have "strtol10 ''<ncpu * 2>'' = (0, False, ''<ncpu * 2>'')" by code_simp
  ultimately show ?thesis
    using plain_line [of ?e "''<ncpu * 2>''" True n st] by (simp add: store_value_def handle_cfg_error_def)
qed

text \<open>The first 18 lines of the file.\<close>

definition dist_head :: "string list" where
  "dist_head =
    [''# celeritas.conf.dist'',
     ''#'',
     ''# This file serves as an example configuration file for the Celeritas HTTP sever.'',
     ''# It demonstrates every currently available configurable setting, and the values'',
     ''# it presents are the defaults. As the defaults are configured internally at startup,'',
     ''# this implies that the active configuration file only needs to specify settings'',
     ''# that you want to be *different* than the defaults.'',
     '''',
     ''# Ports'',
     ''# The port to listen on for plain-text HTTP connections.'',
     ''http_port = 80'',
     ''# The port to listen on for encrypted HTTPS connections.'',
     ''https_port = 443'',
     '''',
     ''# Threads'',
     ''# The size of the worker thread pool. The default is calculated at'',
     ''#    startup as the number of CPUs/cores on the running system times 2.'',
     ''worker_threads = <ncpu * 2>'']"

lemma dist_lines: "\<forall>l \<in> set dist_head. LF \<notin> set l \<and> length l < 1023"
  by (simp add: dist_head_def)

lemma file_lines_prefix:
  "\<forall>l \<in> set ls. LF \<notin> set l \<and> length l < 1023 \<Longrightarrow>
   file_lines (concat (map (\<lambda>l. l @ [LF]) ls) @ rest) = map (\<lambda>l. l @ [LF]) ls @ file_lines rest"
  by (induction ls) (simp_all add: file_lines_Cons)

text \<open>
  The server does not start with the file it is distributed with: whatever follows the first 18
  lines of \<open>celeritas.conf.dist\<close>, the start ends with an error at line 18, the number of worker threads,
  though the file says that its values are the defaults.
\<close>

theorem dist_config_rejected:
  "parse_and_validate_config_file path (Some (concat (map (\<lambda>l. l @ [LF]) dist_head) @ rest)) why True st
     = Exits 1 (''Fatal Config Error: Line 18: Invalid uint16_t for '' @ [CHR 0x27] @ ''worker_threads'' @ [CHR 0x27])"
proof -
  let ?nl = "\<lambda>l. l @ [LF]"
  let ?ls = "map ?nl dist_head @ file_lines rest"
  obtain s1 where 1: "parse_line True 11 (''http_port = 80'' @ [LF]) st = Continues s1" using port_lines by blast
  obtain s2 where 2: "parse_line True 13 (''https_port = 443'' @ [LF]) s1 = Continues s2" using port_lines by blast
  have m: "snprintf_buf 512 (line_msg 18 (''Invalid uint16_t for '' @ [CHR 0x27] @ ''worker_threads'' @ [CHR 0x27]))
      = ''Line 18: Invalid uint16_t for '' @ [CHR 0x27] @ ''worker_threads'' @ [CHR 0x27]"
    by (simp add: snprintf_buf_def line_msg_def show_nat.simps digit_char_def) code_simp
  have "parse_lines True 0 ?ls st = Exits 1 (''Fatal Config Error: '' @ snprintf_buf 512
      (line_msg 18 (''Invalid uint16_t for '' @ [CHR 0x27] @ ''worker_threads'' @ [CHR 0x27])))"
    using 1 2 workers_line [of 18 s2]
    by (simp add: dist_head_def comment_line blank_line del: One_nat_def)
  then show ?thesis
    using file_lines_prefix [OF dist_lines] m by (simp add: parse_and_validate_config_file_def)
qed
end
