(* ===== verification/Printing.thy ===== *)
theory Printing
  imports Response
begin

text \<open>
  Text helpers of \<open>src/util.c\<close> beyond one thread: \<open>int_to_string\<close> returns a pointer to one static buffer
  that all worker threads share, and the debug printouts of requests and responses.
\<close>

subsection \<open>One buffer for all threads\<close>

text \<open>
  A thread that builds a Content-Length header calls \<open>int_to_string\<close>, then \<open>resp_add_header\<close> copies
  what the pointer it got points to.
\<close>

datatype text_pc =
    T_call int             \<comment> \<open>about to call \<open>int_to_string\<close>\<close>
  | T_copy int             \<comment> \<open>it has returned\<close>
  | T_added int string     \<comment> \<open>the value of the header added\<close>

text \<open>The static buffer and the threads.\<close>

type_synonym text_state = "string \<times> text_pc list"

inductive text_step :: "text_state \<Rightarrow> text_state \<Rightarrow> bool" where
  format: "i < length ts \<Longrightarrow> ts ! i = T_call n \<Longrightarrow> text_step (buf, ts) (int_to_string n, ts[i := T_copy n])"
| copy: "i < length ts \<Longrightarrow> ts ! i = T_copy n \<Longrightarrow>
     text_step (buf, ts) (buf, ts[i := T_added n (cstr (strncpy buf VALUE_SIZE))])"

text \<open>The header a thread should add.\<close>

fun added_right :: "text_pc \<Rightarrow> bool" where
  "added_right (T_added n v) = (v = show_int n)"
| "added_right _ = True"

definition small_int :: "int \<Rightarrow> bool" where
  "small_int n \<longleftrightarrow> - (2 ^ 31) \<le> n \<and> n < 2 ^ 31"

lemma copied_text: "small_int n \<Longrightarrow> cstr (strncpy (int_to_string n) VALUE_SIZE) = show_int n"
proof -
  assume n: "small_int n"
  then have t: "int_to_string n = show_int n" by (intro int_to_string_eq) (simp_all add: small_int_def)
  have "length (int_to_string n) < VALUE_SIZE" by (simp add: int_to_string_def snprintf_buf_def VALUE_SIZE_def)
  moreover have "cstr (show_int n) = show_int n" by (simp add: show_int_def cstr_id)
  ultimately show ?thesis using t by (simp add: cstr_strncpy)
qed

text \<open>A thread on its own: the buffer holds its text whenever it is about to copy.\<close>

definition alone_ok :: "text_state \<Rightarrow> bool" where
  "alone_ok s \<longleftrightarrow> (\<exists>n. small_int n \<and> (snd s = [T_call n] \<or> snd s = [T_copy n] \<and> fst s = int_to_string n \<or> snd s = [T_added n (show_int n)]))"

lemma alone_step: "text_step s s' \<Longrightarrow> alone_ok s \<Longrightarrow> alone_ok s'"
  by (induction rule: text_step.induct) (auto simp: alone_ok_def copied_text)

lemma alone_run: "text_step\<^sup>*\<^sup>* s s' \<Longrightarrow> alone_ok s \<Longrightarrow> alone_ok s'"
  by (induction rule: rtranclp_induct) (auto intro: alone_step)

lemma swapped_texts:
  "text_step\<^sup>*\<^sup>* (buf, [T_call 5, T_call 17]) (int_to_string 17, [T_added 5 ''17'', T_added 17 ''17''])"
proof -
  let ?b = "int_to_string 17"
  have t: "show_int 17 = ''17''" by (simp add: show_int_def show_nat.simps digit_char_def) code_simp
  have c: "cstr (strncpy ?b VALUE_SIZE) = ''17''" using copied_text [of 17] t by (simp add: small_int_def)
  have "text_step (buf, [T_call 5, T_call 17]) (int_to_string 5, [T_copy 5, T_call 17])"
    using text_step.format [of 0 "[T_call 5, T_call 17]" 5 buf] by simp
  moreover have "text_step (int_to_string 5, [T_copy 5, T_call 17]) (?b, [T_copy 5, T_copy 17])"
    using text_step.format [of 1 "[T_copy 5, T_call 17]" 17 "int_to_string 5"] by simp
  moreover have "text_step (?b, [T_copy 5, T_copy 17]) (?b, [T_added 5 ''17'', T_copy 17])"
    using text_step.copy [of 0 "[T_copy 5, T_copy 17]" 5 ?b] c by simp
  moreover have "text_step (?b, [T_added 5 ''17'', T_copy 17]) (?b, [T_added 5 ''17'', T_added 17 ''17''])"
    using text_step.copy [of 1 "[T_added 5 ''17'', T_copy 17]" 17 ?b] c by simp
  ultimately show ?thesis by (meson converse_rtranclp_into_rtranclp rtranclp.rtrancl_refl)
qed

lemma content_length_alone:
  "small_int n \<Longrightarrow> text_step\<^sup>*\<^sup>* (buf, [T_call n]) s \<Longrightarrow> pc \<in> set (snd s) \<Longrightarrow> added_right pc"
  using alone_run [of "(buf, [T_call n])" s] by (auto simp: alone_ok_def)


subsection \<open>Debug printouts\<close>

text \<open>What a printout does: event-log lines, and text appended to the file named by the configuration.\<close>

datatype print_act = Debug_event string | Append_to string string

text \<open>\<open>%20s\<close>: right-aligned in 20 columns.\<close>

definition pad20 :: "string \<Rightarrow> string" where
  "pad20 s = replicate (20 - length s) (CHR '' '') @ s"

definition header_lines :: "nat \<Rightarrow> (nat \<Rightarrow> kv_t) \<Rightarrow> string" where
  "header_lines n h = concat (map (\<lambda>i. pad20 (cstr (kv_key (h i))) @ '' -> '' @ cstr (kv_value (h i)) @ [LF]) [0..<n])"

definition debug_request_text :: "request_ctx_t \<Rightarrow> string" where
  "debug_request_text ctx =
     (let r = ctx_h1 ctx
      in ''Request from '' @ cstr (conn_remote_ip (ctx_conn ctx)) @ ''; remote port ''
           @ show_nat (unat (conn_remote_port (ctx_conn ctx))) @ [LF]
         @ '' Method: '' @ cstr (h1_method r) @ [LF]
         @ ''    URI: '' @ cstr (h1_uri r) @ [LF]
         @ ''Version: '' @ cstr (h1_version r) @ [LF, LF]
         @ ''Headers: ('' @ show_nat (h1_header_count r) @ '' total)'' @ [LF]
         @ header_lines (h1_header_count r) (zget zero_kv (h1_headers r))
         @ [LF] @ ''Body overshoot: '' @ show_nat (ctx_body_overshoot_bytes ctx) @ [LF])"

text \<open>Writing through the null pointer of a failed \<open>fopen\<close> is undefined; \<open>conf_data\<close> is read without its lock.\<close>

definition debug_print_request :: "bool \<Rightarrow> config_data \<Rightarrow> request_ctx_t \<Rightarrow> print_act list result" where
  "debug_print_request fopen_ok conf ctx =
     (if \<not> fopen_ok then Inl NullDeref
      else Inr [Debug_event (''Start request debug printout'' @ [LF]), Append_to (event_log conf) (debug_request_text ctx),
             Debug_event (''End request debug printout'' @ [LF])])"

text \<open>\<open>ctx->method\<close> is printed as the number of its flag; a context not validated yet has 0.\<close>

definition debug_response_text :: "request_ctx_t \<Rightarrow> string" where
  "debug_response_text ctx =
     (let r = ctx_response ctx
      in ''Status code: '' @ show_int (ctx_status_code ctx) @ '' '' @ http_status_to_string (ctx_status_code ctx) @ [LF]
         @ ''Method: '' @ show_nat (case ctx_method ctx of None \<Rightarrow> 0 | Some k \<Rightarrow> unat (method_bits k)) @ [LF]
         @ ''Headers: ('' @ show_nat (resp_header_count r) @ '' total)'' @ [LF]
         @ header_lines (resp_header_count r) (zget zero_kv (resp_headers r))
         @ ''Body length: '' @ show_nat (resp_body_len r) @ [LF]
         @ ''Header buffer:'' @ [LF]
         @ cstr (resp_header_buffer r) @ [LF])"

definition debug_print_response :: "bool \<Rightarrow> config_data \<Rightarrow> request_ctx_t \<Rightarrow> print_act list result" where
  "debug_print_response fopen_ok conf ctx =
     (if \<not> fopen_ok then Inl NullDeref
      else Inr [Debug_event (''Start response debug printout'' @ [LF]), Append_to (event_log conf) (debug_response_text ctx),
             Debug_event (''End response debug printout'' @ [LF])])"

text \<open>What \<open>show_help\<close> (\<open>src/server.c\<close>) prints.\<close>

definition show_help :: string where
  "show_help =
     ''Usage: celeritas [OPTION] | [-c | --config-file=PATH] '' @ [LF, LF]
     @ ''Options:'' @ [LF]
     @ ''    -c, --config-file'' @ [CHR 0x09] @ ''path to the celeritas configuration file'' @ [LF]
     @ ''    -v, --verbose'' @ [CHR 0x09] @ ''be more chatty on startup (does not affect logging)'' @ [LF]
     @ ''    -h, --help'' @ [CHR 0x09, CHR 0x09] @ ''display this help and exit'' @ [LF]
     @ ''    -V, --version'' @ [CHR 0x09] @ ''display version information and exit'' @ [LF, LF]
     @ ''Report bugs to <darren@dragonbyte.ca>'' @ [LF]"

end
