(* ===== verification/Silence.thy ===== *)
theory Silence
  imports Shutdown
begin

text \<open>
  Clients that connect and say nothing.  No socket of the server is made non-blocking and none is given a receive
  timeout (\<open>set_socket_timeout\<close> in \<open>src/socket.c\<close> has no caller), so the five-second \<open>poll\<close> of
  \<open>read_http_headers\<close> (\<open>src/http1.c\<close>) is never reached on a plain connection: the \<open>read\<close> before it waits as long
  as the client likes.  As many silent clients as there are workers stop the server for good.
\<close>

subsection \<open>A round for a silent client does not end\<close>

lemma silent_blocks:
  assumes "we_reads we = []" "\<not> conn_is_tls c"
  shows "worker_round we c \<noteq> Inr (Returns k acts)"
proof -
  let ?c = "sniffed we c"
  have "\<not> conn_is_tls ?c" using sniffed_peer [of c we] assms(2) by (simp add: same_peer_def)
  moreover have "read_http_headers (zero_ctx ?c (we_clock we)) [] = Inr Blocks"
    by (subst read_http_headers.simps) (simp add: zero_ctx_def MAX_HEADER_SIZE_def)
  then have "request_round we (zero_ctx ?c (we_clock we)) = Inr Blocks"
    using assms(1) by (simp add: request_round_def process_ingress_def)
  ultimately show ?thesis by (simp add: worker_round_def Let_def)
qed

text \<open>
  A step of the thread pool during which the clients of \<open>S\<close> send nothing: a worker that leaves the round of
  such a connection has done so without an answer from its socket.
\<close>

definition quiet_step :: "int set \<Rightarrow> threads \<Rightarrow> threads \<Rightarrow> bool" where
  "quiet_step S s s' \<longleftrightarrow> th_step s s'
     \<and> (\<forall>i c. worker_at s i (W_serve c) \<and> conn_fd c \<in> S \<and> \<not> worker_at s' i (W_serve c) \<longrightarrow>
          (\<exists>we k acts. we_reads we = [] \<and> worker_round we c = Inr (Returns k acts)))"

definition occupied :: "int set \<Rightarrow> threads \<Rightarrow> bool" where
  "occupied S s \<longleftrightarrow> th_workers s \<noteq> []
     \<and> (\<forall>pc \<in> set (th_workers s). \<exists>c. pc = W_serve c \<and> conn_fd c \<in> S \<and> \<not> conn_is_tls c)"

lemma occupied_at:
  assumes "occupied S s" "i < length (th_workers s)"
  obtains c where "worker_at s i (W_serve c)" "conn_fd c \<in> S" "\<not> conn_is_tls c"
proof -
  have "th_workers s ! i \<in> set (th_workers s)" using assms(2) by simp
  then obtain c where "th_workers s ! i = W_serve c" "conn_fd c \<in> S" "\<not> conn_is_tls c"
    using assms(1) unfolding occupied_def by blast
  with assms(2) that show thesis by (simp add: worker_at_def)
qed

lemma step_workers_length: "th_step s s' \<Longrightarrow> length (th_workers s') = length (th_workers s)"
  by (erule th_step.cases; (erule worker_step.cases listener_step.cases room_step.cases shutdown_step.cases)?)
    (simp_all add: th_updates)

lemma quiet_workers:
  assumes "quiet_step S s s'" "occupied S s"
  shows "th_workers s' = th_workers s"
proof (rule nth_equalityI)
  show "length (th_workers s') = length (th_workers s)"
    using assms(1) step_workers_length by (simp add: quiet_step_def)
  fix i
  assume "i < length (th_workers s')"
  then have "i < length (th_workers s)" using assms(1) step_workers_length [of s s'] by (simp add: quiet_step_def)
  then obtain c where c: "worker_at s i (W_serve c)" "conn_fd c \<in> S" "\<not> conn_is_tls c"
    by (rule occupied_at [OF assms(2)])
  then have "worker_at s' i (W_serve c)" using assms(1) silent_blocks unfolding quiet_step_def by blast
  with c(1) show "th_workers s' ! i = th_workers s ! i" by (simp add: worker_at_def)
qed

lemma not_occupied_at:
  assumes "occupied S s"
  shows "\<not> worker_at s i W_pop" "\<not> worker_at s i (W_park c)"
  using assms by (auto simp: occupied_def worker_at_def all_set_conv_all_nth)

text \<open>The work queue only grows, and the shutdown does not get past joining the workers.\<close>

lemma occupied_step:
  assumes "th_step s s'" "occupied S s" "wq_inv (work_of s)" "th_shut s \<noteq> Sh_end"
  shows "wq_inv (work_of s') \<and> (\<exists>cs. wq_list (work_of s') = wq_list (work_of s) @ cs) \<and> th_shut s' \<noteq> Sh_end"
  using assms(1)
proof cases
  case worker
  then show ?thesis
    by cases (use assms in \<open>simp_all add: not_occupied_at [OF assms(2)] th_updates\<close>)
next
  case listener
  then show ?thesis
    by cases (use assms in \<open>auto simp: th_updates dest: queue_push_item\<close>)
next
  case room
  then show ?thesis
    by cases (use assms in \<open>auto simp: th_updates dest: queue_push_item dest!: park_flags sweep_flags\<close>)
next
  case shutdown
  have "\<not> (\<forall>pc \<in> set (th_workers s). pc = W_done)" using assms(2) by (auto simp: occupied_def neq_Nil_conv)
  from shutdown show ?thesis
    by cases (use assms \<open>\<not> (\<forall>pc \<in> set (th_workers s). pc = W_done)\<close> in \<open>auto simp del: flag_queue_def\<close>)
qed

lemma occupied_run:
  assumes "(quiet_step S)\<^sup>*\<^sup>* s s'" "occupied S s" "wq_inv (work_of s)" "th_shut s \<noteq> Sh_end"
  shows "th_workers s' = th_workers s \<and> wq_inv (work_of s') \<and> (\<exists>cs. wq_list (work_of s') = wq_list (work_of s) @ cs)
     \<and> th_shut s' \<noteq> Sh_end"
  using assms
proof (induction rule: rtranclp_induct)
  case (step t u)
  then have t: "th_workers t = th_workers s" "wq_inv (work_of t)" "th_shut t \<noteq> Sh_end" by auto
  have o: "occupied S t" using t(1) step.prems(1) by (simp add: occupied_def)
  have "th_step t u" using step.hyps(2) by (simp add: quiet_step_def)
  from occupied_step [OF this o t(2,3)] quiet_workers [OF step.hyps(2) o] step.IH [OF step.prems] show ?case by auto
qed simp

subsection \<open>As many silent clients as workers\<close>

text \<open>Descriptors of clients; the smaller numbers are the standard streams, the logs, the lock file and the listening sockets.\<close>

definition client_fd :: "nat \<Rightarrow> int" where
  "client_fd i = int i + 8"

text \<open>The pool with its first \<open>k\<close> workers serving one client each and nothing on the work queue.\<close>

definition serving_first :: "nat \<Rightarrow> threads \<Rightarrow> bool" where
  "serving_first k s \<longleftrightarrow> k \<le> length (th_workers s)
     \<and> th_workers s = map (\<lambda>i. W_serve (fresh (client_fd i))) [0..<k] @ replicate (length (th_workers s) - k) W_pop
     \<and> listener_at s 0 L_accept \<and> \<not> th_flag s \<and> th_shut s = Sh_idle
     \<and> wq_inv (work_of s) \<and> wq_list (work_of s) = [] \<and> 0 < wq_capacity (work_of s) \<and> \<not> wq_shutting_down (work_of s)"

lemma next_worker:
  assumes "serving_first k s" "k < length (th_workers s)"
  shows "worker_at s k W_pop"
    "(th_workers s)[k := W_serve (fresh (client_fd k))]
       = map (\<lambda>i. W_serve (fresh (client_fd i))) [0..<Suc k] @ replicate (length (th_workers s) - Suc k) W_pop"
proof -
  obtain m where m: "length (th_workers s) - k = Suc m" using assms(2) by (metis Suc_diff_Suc)
  have w: "th_workers s = map (\<lambda>i. W_serve (fresh (client_fd i))) [0..<k] @ W_pop # replicate m W_pop"
    using assms(1) m unfolding serving_first_def by simp
  then show "worker_at s k W_pop" using assms(2) by (simp add: worker_at_def nth_append)
  have "length (th_workers s) - Suc k = m" using m by simp
  then show "(th_workers s)[k := W_serve (fresh (client_fd k))]
       = map (\<lambda>i. W_serve (fresh (client_fd i))) [0..<Suc k] @ replicate (length (th_workers s) - Suc k) W_pop"
    by (subst w) (simp add: list_update_append)
qed

lemma one_more_served:
  assumes "serving_first k s" "k < length (th_workers s)"
  shows "\<exists>s'. th_step\<^sup>*\<^sup>* s s' \<and> serving_first (Suc k) s' \<and> length (th_workers s') = length (th_workers s)"
proof -
  let ?c = "fresh (client_fd k)"
  have l: "listener_at s 0 L_accept" "\<not> th_flag s" "wq_inv (work_of s)" "wq_count (work_of s) = 0" "0 < wq_capacity (work_of s)"
    using assms(1) by (simp_all add: serving_first_def wq_list_Nil)
  obtain q1 where q1: "queue_push (work_of s) ?c = Inr (Returns () q1)" "wq_inv q1" "wq_list q1 = [?c]"
      "wq_capacity q1 = wq_capacity (work_of s)" "wq_shutting_down q1 = wq_shutting_down (work_of s)" "wq_count q1 = 1"
    using queue_push_room [OF l(3), of ?c] l(4,5) assms(1) by (auto simp: serving_first_def)
  obtain q2 where q2: "queue_pop q1 = Inr (Returns (0, Some ?c) q2)" "wq_inv q2" "wq_list q2 = []"
      "wq_capacity q2 = wq_capacity q1" "wq_shutting_down q2 = wq_shutting_down q1"
    using take_head_item [OF q1(2)] q1(3,6) by (force simp: queue_pop_def)
  let ?s1 = "set_listener 0 (L_push ?c) s"
  let ?s2 = "set_listener 0 L_accept (set_wr ((th_wr ?s1)\<lparr>wr_work := q1\<rparr>) ?s1)"
  let ?s3 = "set_worker k (W_serve ?c) (set_wr ((th_wr ?s2)\<lparr>wr_work := q2\<rparr>) ?s2)"
  have "accept_connection False (client_fd k) Other_family False None True zero_conn = (0, ?c, [])"
    by (simp add: accept_connection_def client_fd_def fresh_def zero_conn_def Let_def)
  from listener_step.accepted [OF l(1,2) this] have 1: "th_step s ?s1" by (rule th_step.listener)
  have at: "listener_at ?s1 0 (L_push ?c)" using l(1) by (simp add: listener_at_def set_listener_def)
  have "queue_push (work_of ?s1) ?c = Inr (Returns () q1)" using q1(1) by (simp add: set_listener_def)
  from listener_step.push [OF at this] have 2: "th_step ?s1 ?s2"
    using l(2) by (intro th_step.listener) (simp add: set_listener_def)
  have at2: "worker_at ?s2 k W_pop" using next_worker(1) [OF assms] by (simp add: worker_at_def th_updates)
  have "queue_pop (work_of ?s2) = Inr (Returns (0, Some ?c) q2)" using q2(1) by (simp add: th_updates)
  from worker_step.pop [OF at2 this] have 3: "th_step ?s2 ?s3" by (rule th_step.worker)
  have "serving_first (Suc k) ?s3"
    using assms l q1 q2 next_worker(2) [OF assms]
    by (simp add: serving_first_def th_updates listener_at_def list_update_same_conv)
  moreover have "th_step\<^sup>*\<^sup>* s ?s3" using 1 2 3 by (meson rtranclp.rtrancl_refl converse_rtranclp_into_rtranclp)
  ultimately show ?thesis by (intro exI [of _ ?s3]) (simp add: th_updates)
qed

lemma all_served:
  assumes "serving_first 0 s" "k \<le> length (th_workers s)"
  shows "\<exists>s'. th_step\<^sup>*\<^sup>* s s' \<and> serving_first k s' \<and> length (th_workers s') = length (th_workers s)"
  using assms(2)
proof (induction k)
  case 0
  then show ?case using assms(1) by blast
next
  case (Suc k)
  then obtain t where t: "th_step\<^sup>*\<^sup>* s t" "serving_first k t" "length (th_workers t) = length (th_workers s)" by auto
  with one_more_served [of k t] Suc.prems show ?case by (metis Suc_le_lessD rtranclp_trans)
qed

lemma start_serving: "th_start s \<Longrightarrow> th_listeners s \<noteq> [] \<Longrightarrow> 0 < wq_capacity (work_of s) \<Longrightarrow> serving_first 0 s"
  by (cases "th_listeners s")
    (auto simp: serving_first_def th_start_def wr_inv_def listener_at_def intro: replicate_eqI)

lemma silence_holds:
  assumes "th_start s0" "th_listeners s0 \<noteq> []" "th_workers s0 \<noteq> []" "0 < wq_capacity (work_of s0)"
    and "S = client_fd ` {..<length (th_workers s0)}"
  shows "\<exists>s. th_step\<^sup>*\<^sup>* s0 s \<and> places_of s Served = mset (map client_fd [0..<length (th_workers s0)])
     \<and> (\<forall>s'. (quiet_step S)\<^sup>*\<^sup>* s s' \<longrightarrow> places_of s' Served = places_of s Served
          \<and> (\<exists>cs. wq_list (work_of s') = wq_list (work_of s) @ cs) \<and> th_shut s' \<noteq> Sh_end)"
proof -
  let ?n = "length (th_workers s0)"
  obtain s where s: "th_step\<^sup>*\<^sup>* s0 s" "serving_first ?n s" "length (th_workers s) = ?n"
    using all_served [OF start_serving [OF assms(1,2,4)], of ?n] by auto
  then have w: "th_workers s = map (\<lambda>i. W_serve (fresh (client_fd i))) [0..<?n]" by (simp add: serving_first_def)
  have o: "occupied S s"
    using assms(3,5) by (auto simp: occupied_def w fresh_def zero_conn_def)
  have "places_of s Served = mset (map client_fd [0..<?n])"
    by (simp add: w hold_def fresh_def zero_conn_def comp_def)
  moreover have "places_of s' Served = places_of s Served
       \<and> (\<exists>cs. wq_list (work_of s') = wq_list (work_of s) @ cs) \<and> th_shut s' \<noteq> Sh_end"
    if "(quiet_step S)\<^sup>*\<^sup>* s s'" for s'
    using occupied_run [OF that o] s(2) by (simp add: serving_first_def)
  ultimately show ?thesis using s(1) by blast
qed

text \<open>
  C12. As many clients that connect and say nothing as there are workers stop a server of any size: from its start a
  state is reached in which every worker serves one of them, and as long as these clients stay silent,
  whatever else happens, the workers serve nobody else, no connection ever leaves the work queue and a
  shutdown does not come to its end.
\<close>

theorem silent_clients_stop_server:
  assumes "th_start s0" "th_listeners s0 \<noteq> []" "th_workers s0 \<noteq> []" "0 < wq_capacity (work_of s0)"
    and "S = client_fd ` {..<length (th_workers s0)}"
  shows "\<exists>s. th_step\<^sup>*\<^sup>* s0 s \<and> places_of s Served = mset (map client_fd [0..<length (th_workers s0)])
     \<and> (\<forall>s'. (quiet_step S)\<^sup>*\<^sup>* s s' \<longrightarrow> places_of s' Served = places_of s Served
          \<and> (\<exists>cs. wq_list (work_of s') = wq_list (work_of s) @ cs) \<and> th_shut s' \<noteq> Sh_end)"
  by (rule silence_holds [OF assms])

theorem silent_clients_stop_server_witness:
  "\<exists>s. th_step\<^sup>*\<^sup>* one_worker s \<and> places_of s Served = {#8#}
     \<and> (\<forall>s'. (quiet_step {8})\<^sup>*\<^sup>* s s' \<longrightarrow> places_of s' Served = {#8#} \<and> th_shut s' \<noteq> Sh_end)"
proof -
  have w: "length (th_workers one_worker) = 1" "th_workers one_worker \<noteq> []" "th_listeners one_worker \<noteq> []"
      "0 < wq_capacity (work_of one_worker)"
    by (simp_all add: one_worker_def crowd_def cell_def)
  have "{8} = client_fd ` {..<length (th_workers one_worker)}" by (simp add: w client_fd_def lessThan_Suc)
  note run = silent_clients_stop_server [OF one_worker_start w(3,2,4) this]
  have "mset (map client_fd [0..<length (th_workers one_worker)]) = {#8#}" by (simp add: w client_fd_def)
  with run show ?thesis by (metis (no_types, lifting))
qed

end
