(* ===== verification/Descriptors.thy ===== *)
theory Descriptors
  imports Socket
begin

text \<open>
  Descriptors that the kernel gives out again while OpenSSL still holds them.  \<open>close_connection\<close>
  (\<open>src/socket.c\<close>) closes the socket first and calls \<open>SSL_shutdown\<close> afterwards; between the two, a listener thread
  may accept another client on the same descriptor.  The theory follows these calls, for any number of connections
  and in any interleaving, and says whom they reach: \<open>close\<close> always its own client, the \<open>close_notify\<close> alert of
  \<open>SSL_shutdown\<close> never.
\<close>

subsection \<open>Descriptors, sessions and calls\<close>

text \<open>
  Clients are numbered in the order of their arrival.  \<open>w_peer\<close> is the kernel's table of sockets, \<open>w_session\<close> the
  descriptor that \<open>SSL_set_fd\<close> gave to a session.  For each connection accepted, \<open>w_todo\<close> has its client and the calls
  that \<open>close_connection\<close> still has to make for it.  The last two are records of what happened: which client's socket
  a \<open>close\<close> closed, and whom a \<open>close_notify\<close> reached, each with the client on whose behalf it was called.
\<close>

record wires =
  w_peer :: "int \<Rightarrow> nat option"
  w_session :: "nat \<Rightarrow> int option"
  w_next :: nat
  w_todo :: "(nat \<times> sys_effect list) list"
  w_closed :: "(nat \<times> nat option) list"
  w_notified :: "(nat \<times> nat) list"

definition no_wires :: wires where
  "no_wires = \<lparr>w_peer = (\<lambda>_. None), w_session = (\<lambda>_. None), w_next = 0, w_todo = [], w_closed = [], w_notified = []\<rparr>"

text \<open>
  One call for the client \<open>n\<close>.  \<open>SSL_shutdown\<close> writes its alert to the descriptor the session has; on one that is not
  open the write fails.
\<close>

fun sys_call :: "nat \<Rightarrow> sys_effect \<Rightarrow> wires \<Rightarrow> wires" where
  "sys_call n (Sys_close fd) w = w\<lparr>w_peer := (w_peer w)(fd := None), w_closed := (n, w_peer w fd) # w_closed w\<rparr>"
| "sys_call n (Sys_ssl_shutdown h) w =
     (case Option.bind (w_session w h) (w_peer w) of
        None \<Rightarrow> w
      | Some p \<Rightarrow> w\<lparr>w_notified := (n, p) # w_notified w\<rparr>)"
| "sys_call n (Sys_ssl_free h) w = w\<lparr>w_session := (w_session w)(h := None)\<rparr>"
| "sys_call n _ w = w"

text \<open>
  A listener accepts a client on a descriptor that is free, with a session handle that is free; the
  connection is forgotten when \<open>accept_connection\<close> fails after \<open>accept\<close>.  Each of the others makes its next call.
\<close>

inductive wire_step :: "wires \<Rightarrow> wires \<Rightarrow> bool" where
  accept: "0 \<le> fd \<Longrightarrow> w_peer w fd = None \<Longrightarrow> (\<And>h. ssl = Some h \<Longrightarrow> w_session w h = None) \<Longrightarrow>
     accept_connection False fd peer tls ssl ok zero_conn = (rv, c, msgs) \<Longrightarrow>
     wire_step w (w\<lparr>w_peer := (w_peer w)(fd \<mapsto> w_next w),
       w_session := (if rv = 0 then (case conn_ssl c of None \<Rightarrow> w_session w | Some h \<Rightarrow> (w_session w)(h \<mapsto> fd)) else w_session w),
       w_next := Suc (w_next w),
       w_todo := (if rv = 0 then [(w_next w, close_connection c)] else []) @ w_todo w\<rparr>)"
| call: "w_todo w = xs @ (n, e # es) # ys \<Longrightarrow> wire_step w (sys_call n e (w\<lparr>w_todo := xs @ (n, es) # ys\<rparr>))"

subsection \<open>Whom the calls reach\<close>

text \<open>The descriptors and the sessions a list of calls will close and free.\<close>

fun will_close :: "sys_effect list \<Rightarrow> int list" where
  "will_close [] = []"
| "will_close (Sys_close fd # es) = fd # will_close es"
| "will_close (_ # es) = will_close es"

fun will_free :: "sys_effect list \<Rightarrow> nat list" where
  "will_free [] = []"
| "will_free (Sys_ssl_free h # es) = h # will_free es"
| "will_free (_ # es) = will_free es"

abbreviation to_close :: "(nat \<times> sys_effect list) list \<Rightarrow> int list" where
  "to_close xs \<equiv> concat (map (will_close \<circ> snd) xs)"

abbreviation to_free :: "(nat \<times> sys_effect list) list \<Rightarrow> nat list" where
  "to_free xs \<equiv> concat (map (will_free \<circ> snd) xs)"

text \<open>A client whose socket is closed: it will not have one again.\<close>

definition gone :: "wires \<Rightarrow> nat \<Rightarrow> bool" where
  "gone w n \<longleftrightarrow> n < w_next w \<and> (\<forall>fd. w_peer w fd \<noteq> Some n)"

text \<open>How far the calls of one connection have come.\<close>

inductive stage :: "wires \<Rightarrow> nat \<Rightarrow> sys_effect list \<Rightarrow> bool" for w n where
  plain: "w_peer w fd = Some n \<Longrightarrow> stage w n [Sys_close fd]"
| secure: "w_peer w fd = Some n \<Longrightarrow> w_session w h = Some fd \<Longrightarrow> stage w n [Sys_close fd, Sys_ssl_shutdown h, Sys_ssl_free h]"
| cut_off: "gone w n \<Longrightarrow> w_session w h = Some fd \<Longrightarrow> stage w n [Sys_ssl_shutdown h, Sys_ssl_free h]"
| notified: "w_session w h = Some fd \<Longrightarrow> stage w n [Sys_ssl_free h]"
| finished: "stage w n []"

inductive_cases stage_cases: "stage w n (e # es)"

definition wires_ok :: "wires \<Rightarrow> bool" where
  "wires_ok w \<longleftrightarrow>
     (\<forall>fd p. w_peer w fd = Some p \<longrightarrow> p < w_next w)
     \<and> (\<forall>fd fd' p. w_peer w fd = Some p \<longrightarrow> w_peer w fd' = Some p \<longrightarrow> fd = fd')
     \<and> distinct (to_close (w_todo w)) \<and> distinct (to_free (w_todo w))
     \<and> (\<forall>(n, es) \<in> set (w_todo w). stage w n es)
     \<and> (\<forall>(n, p) \<in> set (w_closed w). p = Some n) \<and> (\<forall>(n, p) \<in> set (w_notified w). p \<noteq> n)"

text \<open>The stage of a connection is not disturbed by steps that leave its descriptor and its session alone.\<close>

lemma stage_kept:
  assumes "stage w n es" "\<And>fd. fd \<in> set (will_close es) \<Longrightarrow> w_peer w' fd = w_peer w fd"
    "\<And>h. h \<in> set (will_free es) \<Longrightarrow> w_session w' h = w_session w h" "gone w n \<Longrightarrow> gone w' n"
  shows "stage w' n es"
  using assms by (cases rule: stage.cases) (auto intro: stage.intros)

lemma stage_open: "stage w n es \<Longrightarrow> fd \<in> set (will_close es) \<Longrightarrow> w_peer w fd = Some n"
  by (erule stage.cases) auto

lemma stage_session: "stage w n es \<Longrightarrow> h \<in> set (will_free es) \<Longrightarrow> \<exists>fd. w_session w h = Some fd"
  by (erule stage.cases) auto

lemma stage_close_connection:
  assumes "w_peer w (conn_fd c) = Some n" "\<And>h. conn_ssl c = Some h \<Longrightarrow> w_session w h = Some (conn_fd c)"
  shows "stage w n (close_connection c)"
  using assms by (cases "conn_ssl c") (auto simp: close_connection_def intro: stage.intros)

lemma will_close_connection [simp]:
  "will_close (close_connection c) = [conn_fd c]"
  "will_free (close_connection c) = (case conn_ssl c of None \<Rightarrow> [] | Some h \<Rightarrow> [h])"
  by (simp_all add: close_connection_def split: option.split)

lemma accepted_conn:
  assumes "accept_connection False fd peer tls ssl ok zero_conn = (0, c, msgs)" "0 \<le> fd"
  shows "conn_fd c = fd" "conn_ssl c = Some h \<Longrightarrow> ssl = Some h"
  using assms by (auto simp: accept_connection_def zero_conn_def Let_def split: if_splits peer.splits)

lemma todo_open: "wires_ok w \<Longrightarrow> fd \<in> set (to_close (w_todo w)) \<Longrightarrow> w_peer w fd \<noteq> None"
  using stage_open by (auto simp: wires_ok_def)

lemma todo_session: "wires_ok w \<Longrightarrow> h \<in> set (to_free (w_todo w)) \<Longrightarrow> w_session w h \<noteq> None"
  using stage_session by (fastforce simp: wires_ok_def)

lemma accept_ok:
  assumes "wires_ok w" "0 \<le> fd" "w_peer w fd = None" "\<And>h. ssl = Some h \<Longrightarrow> w_session w h = None"
    "accept_connection False fd peer tls ssl ok zero_conn = (rv, c, msgs)"
    "w' = w\<lparr>w_peer := (w_peer w)(fd \<mapsto> w_next w),
       w_session := (if rv = 0 then (case conn_ssl c of None \<Rightarrow> w_session w | Some h \<Rightarrow> (w_session w)(h \<mapsto> fd)) else w_session w),
       w_next := Suc (w_next w),
       w_todo := (if rv = 0 then [(w_next w, close_connection c)] else []) @ w_todo w\<rparr>"
  shows "wires_ok w'"
proof -
  note ok = assms(1) [unfolded wires_ok_def]
  have old: "stage w' n es" if "(n, es) \<in> set (w_todo w)" for n es
  proof (rule stage_kept)
    show st: "stage w n es" using ok that by blast
    show "w_peer w' x = w_peer w x" if "x \<in> set (will_close es)" for x
      using stage_open [OF st that] assms(3,6) by auto
    show "w_session w' h = w_session w h" if h: "h \<in> set (will_free es)" for h
      using stage_session [OF st h] assms(2,4,5,6) accepted_conn(2) by (auto split: option.split)
    show "gone w' n" if "gone w n" using that by (auto simp: gone_def assms(6))
  qed
  have new: "rv = 0 \<Longrightarrow> stage w' (w_next w) (close_connection c)"
    using accepted_conn [of fd peer tls ssl ok c msgs] assms(2,5,6) by (intro stage_close_connection) auto
  have "w_session w h = None" if "rv = 0" "conn_ssl c = Some h" for h
    using accepted_conn(2) assms(2,4,5) that by blast
  then have "h \<notin> set (to_free (w_todo w))" if "rv = 0" "conn_ssl c = Some h" for h
    using todo_session [OF assms(1)] that by blast
  moreover have "fd \<notin> set (to_close (w_todo w))" using todo_open [OF assms(1)] assms(3) by blast
  ultimately have "distinct (to_close (w_todo w'))" "distinct (to_free (w_todo w'))"
    using ok accepted_conn(1) [of fd peer tls ssl ok c msgs] assms(2,5,6) by (auto split: option.split)
  moreover have "\<forall>(n, es) \<in> set (w_todo w'). stage w' n es" using old new assms(6) by auto
  moreover have "p < w_next w'" if "w_peer w' x = Some p" for x p
    using ok that by (auto simp: assms(6) less_Suc_eq split: if_splits)
  moreover have "x = y" if "w_peer w' x = Some p" "w_peer w' y = Some p" for x y p
    using ok that by (auto simp: assms(6) split: if_splits)
  moreover have "w_closed w' = w_closed w" "w_notified w' = w_notified w" by (simp_all add: assms(6))
  ultimately show ?thesis using ok unfolding wires_ok_def by metis
qed

text \<open>The others, when one connection's next call closes a descriptor or frees a session.\<close>

lemma others_kept:
  assumes "wires_ok w" "w_todo w = xs @ (n, es) # ys" "(m, fs) \<in> set xs \<union> set ys"
    "\<And>fd. fd \<notin> set (will_close es) \<Longrightarrow> w_peer w' fd = w_peer w fd"
    "\<And>h. h \<notin> set (will_free es) \<Longrightarrow> w_session w' h = w_session w h"
    "\<And>m. gone w m \<Longrightarrow> gone w' m"
  shows "stage w' m fs"
proof (rule stage_kept)
  have d: "distinct (to_close (w_todo w))" "distinct (to_free (w_todo w))" "(m, fs) \<in> set (w_todo w)"
    using assms(1-3) by (auto simp: wires_ok_def)
  then show "stage w m fs" using assms(1) by (auto simp: wires_ok_def)
  show "w_peer w' fd = w_peer w fd" if "fd \<in> set (will_close fs)" for fd
    using d(1) assms(2-4) that by force
  show "w_session w' h = w_session w h" if "h \<in> set (will_free fs)" for h
    using d(2) assms(2,3,5) that by force
  show "gone w m \<Longrightarrow> gone w' m" by (rule assms(6))
qed

lemma close_ok:
  assumes "wires_ok w" "w_todo w = xs @ (n, Sys_close fd # es) # ys"
    "w' = sys_call n (Sys_close fd) (w\<lparr>w_todo := xs @ (n, es) # ys\<rparr>)"
  shows "wires_ok w'"
proof -
  note ok = assms(1) [unfolded wires_ok_def]
  have st: "stage w n (Sys_close fd # es)" using ok assms(2) by auto
  then have p: "w_peer w fd = Some n" using stage_open by fastforce
  have g: "gone w m \<Longrightarrow> gone w' m" for m by (auto simp: gone_def assms(3))
  have "gone w' n" using ok p by (auto simp: gone_def assms(3))
  then have "stage w' n es" using st by (auto elim!: stage_cases simp: assms(3) intro: stage.intros)
  moreover have "stage w' m fs" if "(m, fs) \<in> set xs \<union> set ys" for m fs
    by (rule others_kept [OF assms(1,2) that _ _ g]) (auto simp: assms(3))
  ultimately have "\<forall>(m, fs) \<in> set (w_todo w'). stage w' m fs" by (auto simp: assms(3))
  moreover have "distinct (to_close (w_todo w'))" "distinct (to_free (w_todo w'))" using ok by (auto simp: assms(2,3))
  moreover have "\<forall>(m, x) \<in> set (w_closed w'). x = Some m" using ok p by (auto simp: assms(3))
  moreover have "\<forall>x q. w_peer w' x = Some q \<longrightarrow> w_peer w x = Some q" by (simp add: assms(3))
  moreover have "w_next w' = w_next w" "w_notified w' = w_notified w" by (simp_all add: assms(3))
  ultimately show ?thesis using ok unfolding wires_ok_def by metis
qed

lemma shutdown_ok:
  assumes "wires_ok w" "w_todo w = xs @ (n, Sys_ssl_shutdown h # es) # ys"
    "w' = sys_call n (Sys_ssl_shutdown h) (w\<lparr>w_todo := xs @ (n, es) # ys\<rparr>)"
  shows "wires_ok w'"
proof -
  note ok = assms(1) [unfolded wires_ok_def]
  have same: "w_peer w' = w_peer w" "w_session w' = w_session w" "w_next w' = w_next w" "w_closed w' = w_closed w"
    "w_todo w' = xs @ (n, es) # ys"
    by (simp_all add: assms(3) split: option.split)
  have st: "stage w n (Sys_ssl_shutdown h # es)" using ok assms(2) by auto
  then have g: "gone w n" by (auto elim: stage_cases)
  have "stage w' n es" using st by (auto elim!: stage_cases simp: same intro: stage.intros)
  moreover have "stage w' m fs" if "(m, fs) \<in> set xs \<union> set ys" for m fs
    by (rule others_kept [OF assms(1,2) that]) (simp_all add: same gone_def)
  ultimately have "\<forall>(m, fs) \<in> set (w_todo w'). stage w' m fs" by (auto simp: same)
  moreover have "distinct (to_close (w_todo w'))" "distinct (to_free (w_todo w'))" using ok by (auto simp: assms(2) same)
  moreover have "\<forall>(m, p) \<in> set (w_notified w'). p \<noteq> m"
    using ok g by (auto simp: assms(3) gone_def bind_eq_Some_conv split: option.splits)
  ultimately show ?thesis using ok unfolding wires_ok_def same by metis
qed

lemma free_ok:
  assumes "wires_ok w" "w_todo w = xs @ (n, Sys_ssl_free h # es) # ys"
    "w' = sys_call n (Sys_ssl_free h) (w\<lparr>w_todo := xs @ (n, es) # ys\<rparr>)"
  shows "wires_ok w'"
proof -
  note ok = assms(1) [unfolded wires_ok_def]
  have same: "w_peer w' = w_peer w" "w_next w' = w_next w" "w_closed w' = w_closed w" "w_notified w' = w_notified w"
    "w_todo w' = xs @ (n, es) # ys" "w_session w' = (w_session w)(h := None)"
    by (simp_all add: assms(3))
  have "stage w n (Sys_ssl_free h # es)" using ok assms(2) by auto
  then have "stage w' n es" by (auto elim!: stage_cases intro: stage.intros)
  moreover have "stage w' m fs" if "(m, fs) \<in> set xs \<union> set ys" for m fs
    by (rule others_kept [OF assms(1,2) that]) (auto simp: same gone_def)
  ultimately have "\<forall>(m, fs) \<in> set (w_todo w'). stage w' m fs" by (auto simp: same)
  moreover have "distinct (to_close (w_todo w'))" "distinct (to_free (w_todo w'))" using ok by (auto simp: assms(2) same)
  ultimately show ?thesis using ok unfolding wires_ok_def same(1-4) by metis
qed

lemma call_ok:
  assumes "wires_ok w" "w_todo w = xs @ (n, e # es) # ys"
  shows "wires_ok (sys_call n e (w\<lparr>w_todo := xs @ (n, es) # ys\<rparr>))"
proof -
  have "stage w n (e # es)" using assms by (auto simp: wires_ok_def)
  then consider fd where "e = Sys_close fd" | h where "e = Sys_ssl_shutdown h" | h where "e = Sys_ssl_free h"
    by (auto elim: stage_cases)
  then show ?thesis
  proof cases
    case 1
    show ?thesis using close_ok [OF assms(1) assms(2) [unfolded 1] refl] unfolding 1 .
  next
    case 2
    show ?thesis using shutdown_ok [OF assms(1) assms(2) [unfolded 2] refl] unfolding 2 .
  next
    case 3
    show ?thesis using free_ok [OF assms(1) assms(2) [unfolded 3] refl] unfolding 3 .
  qed
qed

lemma wire_step_ok: "wire_step w w' \<Longrightarrow> wires_ok w \<Longrightarrow> wires_ok w'"
  by (induction rule: wire_step.induct) (blast intro: accept_ok call_ok)+

lemma wires_reachable: "wire_step\<^sup>*\<^sup>* no_wires w \<Longrightarrow> wires_ok w"
proof (induction rule: rtranclp_induct)
  case base
  show ?case by (simp add: wires_ok_def no_wires_def)
qed (rule wire_step_ok)


text \<open>
  Client 0 comes over TLS and its connection is being closed; client 1 is accepted on the descriptor just
  closed and receives the alert of client 0.
\<close>

lemma stray_notify: "\<exists>w. wire_step\<^sup>*\<^sup>* no_wires w \<and> w_closed w = [(0, Some 0)] \<and> w_notified w = [(0, 1)]"
proof -
  let ?tls = "zero_conn\<lparr>conn_fd := 9, conn_is_tls := True, conn_ssl := Some 3\<rparr>"
  let ?plain = "zero_conn\<lparr>conn_fd := 9\<rparr>"
  let ?cut = "[Sys_ssl_shutdown 3, Sys_ssl_free 3]"
  let ?w = "\<lambda>m n k todo c b. \<lparr>w_peer = (\<lambda>x. if x = 9 then m else None), w_session = (\<lambda>x. if x = 3 then n else None),
     w_next = k, w_todo = todo, w_closed = c, w_notified = b\<rparr>"
  let ?c = "[(0, Some 0)]"
  have "accept_connection False 9 Other_family True (Some 3) True zero_conn = (0, ?tls, [])"
    "accept_connection False 9 Other_family False None True zero_conn = (0, ?plain, [])"
    by (simp_all add: accept_connection_def zero_conn_def)
  note a = this
  have cl: "close_connection ?tls = Sys_close 9 # ?cut" "close_connection ?plain = [Sys_close 9]"
    by (simp_all add: close_connection_def zero_conn_def)
  have "wire_step no_wires (?w (Some 0) (Some 9) 1 [(0, Sys_close 9 # ?cut)] [] [])"
    using wire_step.accept [OF _ _ _ a(1), of no_wires] by (simp add: no_wires_def cl fun_upd_def)
  moreover have "wire_step (?w (Some 0) (Some 9) 1 [(0, Sys_close 9 # ?cut)] [] []) (?w None (Some 9) 1 [(0, ?cut)] ?c [])"
    using wire_step.call [of "?w (Some 0) (Some 9) 1 [(0, Sys_close 9 # ?cut)] [] []" "[]" 0 "Sys_close 9" ?cut "[]"]
    by (simp add: fun_upd_def if_distrib cong: if_cong)
  moreover have "wire_step (?w None (Some 9) 1 [(0, ?cut)] ?c []) (?w (Some 1) (Some 9) 2 [(1, [Sys_close 9]), (0, ?cut)] ?c [])"
    using wire_step.accept [OF _ _ _ a(2), of "?w None (Some 9) 1 [(0, ?cut)] ?c []"]
    by (simp add: cl(2) fun_upd_def numeral_2_eq_2 cong: if_cong) (simp add: zero_conn_def)
  moreover have "wire_step (?w (Some 1) (Some 9) 2 [(1, [Sys_close 9]), (0, ?cut)] ?c [])
      (?w (Some 1) (Some 9) 2 [(1, [Sys_close 9]), (0, [Sys_ssl_free 3])] ?c [(0, 1)])"
    using wire_step.call [of "?w (Some 1) (Some 9) 2 [(1, [Sys_close 9]), (0, ?cut)] ?c []" "[(1, [Sys_close 9])]" 0
        "Sys_ssl_shutdown 3" "[Sys_ssl_free 3]" "[]"] by simp
  ultimately have "wire_step\<^sup>*\<^sup>* no_wires (?w (Some 1) (Some 9) 2 [(1, [Sys_close 9]), (0, [Sys_ssl_free 3])] ?c [(0, 1)])"
    by (meson rtranclp.rtrancl_refl converse_rtranclp_into_rtranclp)
  then show ?thesis
    by (rule exI [of _ "?w (Some 1) (Some 9) 2 [(1, [Sys_close 9]), (0, [Sys_ssl_free 3])] ?c [(0, 1)]", OF conjI])
      (simp del: One_nat_def)
qed

end
