(* ===== verification/Limits.thy ===== *)
theory Limits
  imports Startup Settings Worker
begin

text \<open>
  The settings the program reads and never uses.  \<open>cfg_map\<close> (\<open>src/config.c\<close>) has rows for \<open>max_url_size\<close>,
  \<open>max_rx_header_size\<close>, \<open>max_tx_header_size\<close> and \<open>dir_listing\<close>, and \<open>celeritas.conf.dist\<close> calls the first three hard
  limits; the sizes in force are those of the buffers.  The theory shows that no such line of a configuration
  file influences what the server answers or the threads it starts.
\<close>

subsection \<open>Configurations that differ in these settings only\<close>

definition without_limits :: "config_data \<Rightarrow> config_data" where
  "without_limits cd = cd\<lparr>max_url_size := 0, max_rx_header := 0, max_tx_header := 0, dir_listing := False\<rparr>"

definition same_service :: "config_data \<Rightarrow> config_data \<Rightarrow> bool" where
  "same_service a b \<longleftrightarrow> without_limits a = without_limits b"

lemma same_service_refl [simp]: "same_service a a"
  by (simp add: same_service_def)

lemma same_service_trans: "same_service a b \<Longrightarrow> same_service b c \<Longrightarrow> same_service a c"
  by (simp add: same_service_def)

lemma same_serviceD:
  assumes "same_service a b"
  shows "server_tok a = server_tok b" "doc_root a = doc_root b" "conn_queue_size a = conn_queue_size b"
    "worker_threads a = worker_threads b"
  using assms by (cases a; cases b; simp add: same_service_def without_limits_def)+

text \<open>A worker's round under a configuration.\<close>

definition under :: "config_data \<Rightarrow> worker_env \<Rightarrow> worker_env" where
  "under cd we = we\<lparr>we_handler := (we_handler we)\<lparr>he_conf := cd\<rparr>\<rparr>"

lemma handlers_alike:
  assumes "same_service a b"
  shows "call_handler (env\<lparr>he_conf := a\<rparr>) ctx = call_handler (env\<lparr>he_conf := b\<rparr>) ctx"
proof -
  have r: "he_conf (env\<lparr>he_conf := x\<rparr>) = x" "he_now (env\<lparr>he_conf := x\<rparr>) = he_now env" "he_fs (env\<lparr>he_conf := x\<rparr>) = he_fs env"
    for x by simp_all
  have c: "resp_add_common_headers a = resp_add_common_headers b"
    by (intro ext) (simp add: resp_add_common_headers_def same_serviceD [OF assms])
  have e: "handle_error (env\<lparr>he_conf := a\<rparr>) = handle_error (env\<lparr>he_conf := b\<rparr>)"
    by (intro ext) (simp add: handle_error_def c)
  have o: "handle_options (env\<lparr>he_conf := a\<rparr>) = handle_options (env\<lparr>he_conf := b\<rparr>)"
    by (intro ext) (simp add: handle_options_def c)
  have g: "handle_get_head (env\<lparr>he_conf := a\<rparr>) = handle_get_head (env\<lparr>he_conf := b\<rparr>)"
    by (intro ext) (unfold handle_get_head_def r c e same_serviceD(2) [OF assms], rule refl)
  have "handle_static (env\<lparr>he_conf := a\<rparr>) = handle_static (env\<lparr>he_conf := b\<rparr>)"
    by (intro ext) (unfold handle_static_def o g, rule refl)
  then show ?thesis by (simp only: call_handler_def e)
qed

lemma under_simps [simp]:
  "we_reads (under a we) = we_reads we" "we_write1 (under a we) = we_write1 we" "we_write2 (under a we) = we_write2 we"
  "we_recv (under a we) = we_recv we" "we_calloc (under a we) = we_calloc we" "we_clock (under a we) = we_clock we"
  "we_init_finished (under a we) = we_init_finished we" "we_tls (under a we) = we_tls we" "we_time (under a we) = we_time we"
  "we_timeout (under a we) = we_timeout we" "we_shutting_down (under a we) = we_shutting_down we"
  by (simp_all add: under_def)

lemma round_alike:
  assumes "same_service a b"
  shows "worker_round (under a we) c = worker_round (under b we) c"
proof -
  have s: "sniffed (under a we) c = sniffed (under b we) c" by (simp add: sniffed_def)
  have h: "call_handler (we_handler (under a we)) = call_handler (we_handler (under b we))"
    by (intro ext) (simp add: under_def handlers_alike [OF assms])
  have f: "finish_request (under a we) = finish_request (under b we)"
    by (intro ext) (simp add: finish_request_def keepalive_conn_def)
  have r: "request_round (under a we) = request_round (under b we)"
    by (intro ext) (unfold request_round_def under_simps h f, rule refl)
  show ?thesis by (unfold worker_round_def under_simps s r) (rule refl)
qed

lemma threads_alike:
  assumes "same_service a b"
  shows "worker_init a = worker_init b"
  by (intro ext) (simp add: worker_init_def same_serviceD(3,4) [OF assms])

subsection \<open>Lines of a configuration file\<close>

definition limit_fields :: "cfg_field_t list" where
  "limit_fields = [F_max_url_size, F_max_rx_header, F_max_tx_header, F_dir_listing]"

lemma limit_stores:
  "f \<in> set limit_fields \<Longrightarrow> same_service (set_u16 f v cd) cd"
  "f \<in> set limit_fields \<Longrightarrow> same_service (set_string f w cd) cd"
  "f \<in> set limit_fields \<Longrightarrow> same_service (set_bool f b cd) cd"
  by (auto simp: limit_fields_def same_service_def without_limits_def)

lemma stores_alike:
  assumes "same_service a b"
  shows "same_service (set_u16 f v a) (set_u16 f v b)" "same_service (set_string f w a) (set_string f w b)"
    "same_service (set_bool f x a) (set_bool f x b)"
  using assms by (cases a; cases b; cases f; simp add: same_service_def without_limits_def)+

text \<open>The row of \<open>cfg_map\<close> a line is for, if it has one.\<close>

definition line_row :: "string \<Rightarrow> config_mapping_t option" where
  "line_row raw =
     (let t = trim_whitespace (takeWhile (\<lambda>c. c \<noteq> CR \<and> c \<noteq> LF) (cstr raw))
      in if t = [] \<or> hd t = CHR ''#'' \<or> strchr t (CHR ''='') = None then None
         else find (\<lambda>e. strcmp_eq (cm_key e) (trim_whitespace (takeWhile (\<lambda>c. c \<noteq> CHR ''='') t))) cfg_map)"

definition limit_line :: "string \<Rightarrow> bool" where
  "limit_line l \<longleftrightarrow> (case line_row l of None \<Rightarrow> False | Some e \<Rightarrow> cm_field e \<in> set limit_fields)"

lemma row_stored: "line_row l = Some e \<Longrightarrow> \<exists>v. \<forall>first n st. parse_line first n l st = store_value first n e v st"
  by (auto simp: line_row_def parse_line_def Let_def split: if_splits option.splits)

lemma limit_value:
  assumes "cm_field e \<in> set limit_fields" "store_value first n e v st = Continues st'"
  shows "same_service (fst st') (fst st)"
proof -
  have err: "handle_cfg_error first m st = Continues st' \<Longrightarrow> same_service (fst st') (fst st)" for m
    by (auto simp: handle_cfg_error_def Let_def split: if_splits)
  show ?thesis
  proof (cases "cm_type e")
    case CFG_STRING
    with assms err limit_stores(2) show ?thesis by (auto simp: store_value_def split: if_splits)
  next
    case CFG_UINT16
    with assms err limit_stores(1) show ?thesis by (auto simp: store_value_def Let_def split: if_splits prod.splits)
  next
    case CFG_BOOL
    with assms err limit_stores(3) show ?thesis by (auto simp: store_value_def split: if_splits)
  qed
qed

lemma limit_line_alike:
  assumes "limit_line l" "parse_line first n l st = Continues st'"
  shows "same_service (fst st') (fst st)"
proof -
  obtain e where e: "line_row l = Some e" "cm_field e \<in> set limit_fields"
    using assms(1) by (auto simp: limit_line_def split: option.splits)
  obtain v where "\<forall>first n st. parse_line first n l st = store_value first n e v st"
    using row_stored [OF e(1)] by blast
  then have "store_value first n e v st = Continues st'" using assms(2) by metis
  then show ?thesis by (rule limit_value [OF e(2)])
qed

text \<open>If one goes on, so does the other, with a configuration that is the same in use.\<close>

definition go_on_alike :: "cfg_state proc \<Rightarrow> cfg_state proc \<Rightarrow> bool" where
  "go_on_alike p q \<longleftrightarrow> (\<forall>st. p = Continues st \<longrightarrow> (\<exists>st'. q = Continues st' \<and> same_service (fst st) (fst st')))"

lemma continues_alike: "same_service (fst st) (fst st') \<Longrightarrow> go_on_alike (Continues st) (Continues st')"
  by (auto simp: go_on_alike_def)

lemma error_alike:
  "same_service (fst st) (fst s2) \<Longrightarrow> go_on_alike (handle_cfg_error first m st) (handle_cfg_error first m2 s2)"
  by (simp add: handle_cfg_error_def Let_def go_on_alike_def)

lemma value_alike:
  "same_service (fst st) (fst s2) \<Longrightarrow> go_on_alike (store_value first n e v st) (store_value first m e v s2)"
  by (cases "cm_type e")
    (auto simp: store_value_def Let_def intro!: continues_alike stores_alike error_alike split: prod.split)

lemma line_alike:
  "same_service (fst st) (fst s2) \<Longrightarrow> go_on_alike (parse_line first n l st) (parse_line first m l s2)"
  by (auto simp: parse_line_def Let_def intro!: continues_alike error_alike value_alike split: option.split)

lemma lines_alike:
  "parse_lines first n ls st = Continues st' \<Longrightarrow> same_service (fst st) (fst s2) \<Longrightarrow>
     \<exists>s2'. parse_lines first m (filter (\<lambda>l. \<not> limit_line l) ls) s2 = Continues s2' \<and> same_service (fst st') (fst s2')"
proof (induction ls arbitrary: n m st s2)
  case (Cons l ls)
  then obtain t where t: "parse_line first (n + 1) l st = Continues t" "parse_lines first (n + 1) ls t = Continues st'"
    by (auto simp: bindP_Continues)
  show ?case
  proof (cases "limit_line l")
    case True
    then have "same_service (fst t) (fst s2)"
      using limit_line_alike [OF True t(1)] Cons.prems(2) same_service_trans by blast
    with Cons.IH [OF t(2)] True show ?thesis by simp
  next
    case False
    obtain t2 where t2: "parse_line first (m + 1) l s2 = Continues t2" "same_service (fst t) (fst t2)"
      using line_alike [OF Cons.prems(2)] t(1) unfolding go_on_alike_def by blast
    from Cons.IH [OF t(2) t2(2), of "m + 1"] False t2(1) show ?thesis by simp
  qed
qed simp

text \<open>
  C38. The limits a configuration file sets are not enforced: when all lines for \<open>max_url_size\<close>, \<open>max_rx_header_size\<close>,
  \<open>max_tx_header_size\<close> and \<open>dir_listing\<close> are deleted from the lines of a file, at the start or at a reload, the
  server starts the same queues and threads and each round of a worker is the same, byte for byte.
\<close>

theorem limits_not_enforced:
  assumes "parse_lines first n ls st = Continues (cd, lg)"
  shows "\<exists>cd' lg'. parse_lines first n (filter (\<lambda>l. \<not> limit_line l) ls) st = Continues (cd', lg')
     \<and> (\<forall>we c. worker_round (under cd we) c = worker_round (under cd' we) c) \<and> worker_init cd = worker_init cd'"
  using lines_alike [OF assms same_service_refl] round_alike threads_alike by fastforce

theorem limits_not_enforced_witness:
  "\<exists>cd. max_url_size cd = 10
     \<and> (\<forall>we c. worker_round (under cd we) c = worker_round (under (zero_config\<lparr>http_port := 80\<rparr>) we) c)"
proof -
  have e: "\<lparr>cm_key = ''max_url_size'', cm_type = CFG_UINT16, cm_field = F_max_url_size, cm_max_len = 0\<rparr> \<in> set cfg_map"
    "\<lparr>cm_key = ''http_port'', cm_type = CFG_UINT16, cm_field = F_http_port, cm_max_len = 0\<rparr> \<in> set cfg_map"
    by (simp_all add: cfg_map_def)
  have n: "strtol10 ''80'' = (80, False, [])" "strtol10 ''10'' = (10, False, [])" by code_simp+
  have v: "plain_value ''80''" "plain_value ''10''" by (simp_all add: plain_value_def trimmed_def isspace_def)
  let ?u = "''max_url_size = 10'' @ [LF]" and ?h = "''http_port = 80'' @ [LF]"
  have p: "parse_line True k ?h (c, []) = Continues (c\<lparr>http_port := 80\<rparr>, [])"
    "parse_line True k ?u (c, []) = Continues (c\<lparr>max_url_size := 10\<rparr>, [])" for k c
    using plain_line [OF e(2) v(1)] plain_line [OF e(1) v(2)] n by (simp_all add: store_value_def)
  have "limit_line ?u" "\<not> limit_line ?h" by code_simp+
  then have f: "filter (\<lambda>l. \<not> limit_line l) [?h, ?u] = [?h]" by simp
  have "parse_lines True 0 [?h, ?u] (zero_config, []) = Continues (zero_config\<lparr>http_port := 80, max_url_size := 10\<rparr>, [])"
    "parse_lines True 0 [?h] (zero_config, []) = Continues (zero_config\<lparr>http_port := 80\<rparr>, [])"
    by (simp_all only: parse_lines.simps p bindP.simps)
  with limits_not_enforced [of True 0 "[?h, ?u]" "(zero_config, [])"] show ?thesis
    by (intro exI [of _ "zero_config\<lparr>http_port := 80, max_url_size := 10\<rparr>"]) (simp only: f, auto)
qed

end
