(* ===== verification/Records.thy ===== *)
theory Records
  imports Progress
begin

text \<open>
  The connection records themselves, as they go round between listeners, workers and wait room
  (\<open>src/threadpool.c\<close>): which fields they have where, whatever the clients and the schedule do.  What the wait
  room hands back is what a worker parked, so the rounds of theory \<open>Conversation\<close> are those of a running server.
\<close>

definition accepted_ok :: "conn_t \<Rightarrow> bool" where
  "accepted_ok c \<longleftrightarrow> 0 \<le> conn_fd c \<and> (conn_is_tls c \<longleftrightarrow> conn_ssl c \<noteq> None)"

definition parked_ok :: "conn_t \<Rightarrow> bool" where
  "parked_ok c \<longleftrightarrow> accepted_ok c \<and> conn_protocol c = PROTO_HTTP11"

definition queued_ok :: "conn_t \<Rightarrow> bool" where
  "queued_ok c \<longleftrightarrow> accepted_ok c \<and> conn_protocol c \<in> {PROTO_UNKNOWN, PROTO_HTTP11}"

lemma parked_queued: "parked_ok c \<Longrightarrow> queued_ok c"
  by (simp add: parked_ok_def queued_ok_def)

fun worker_ok :: "worker_pc \<Rightarrow> bool" where
  "worker_ok (W_serve c) = queued_ok c"
| "worker_ok (W_park c) = parked_ok c"
| "worker_ok _ = True"

fun listener_ok :: "listener_pc \<Rightarrow> bool" where
  "listener_ok (L_push c) = queued_ok c"
| "listener_ok _ = True"

fun room_ok :: "room_pc \<Rightarrow> bool" where
  "room_ok (R_push c es) = parked_ok c"
| "room_ok _ = True"

definition records_ok :: "threads \<Rightarrow> bool" where
  "records_ok s \<longleftrightarrow> (\<forall>c \<in> set (wq_list (work_of s)). queued_ok c) \<and> (\<forall>c \<in> set (wq_list (wait_of s)). parked_ok c)
     \<and> (\<forall>c \<in> set (pool_list (wr_pool (th_wr s))). parked_ok c)
     \<and> (\<forall>pc \<in> set (th_workers s). worker_ok pc) \<and> (\<forall>pc \<in> set (th_listeners s). listener_ok pc) \<and> room_ok (th_room s)"

lemma worker_okD: "records_ok s \<Longrightarrow> worker_at s i pc \<Longrightarrow> worker_ok pc"
  by (auto simp: records_ok_def worker_at_def)

lemma listener_okD: "records_ok s \<Longrightarrow> listener_at s j pc \<Longrightarrow> listener_ok pc"
  by (auto simp: records_ok_def listener_at_def)

subsection \<open>Workers and listeners\<close>

text \<open>A worker parks HTTP/1.1 connections only.\<close>

lemma request_round_parks:
  assumes "request_round we ctx = Inr (Returns k acts)" "Act_park c \<in> set acts"
  shows "conn_protocol c = PROTO_HTTP11"
proof -
  have f: "finish_request we es as ctx' = Inr (Returns k acts) \<Longrightarrow> Act_park c \<notin> set as \<Longrightarrow> conn_protocol c = PROTO_HTTP11"
    for es as ctx'
    using assms(2) by (auto simp: finish_request_def cleanup_def keepalive_conn_def should_keep_alive_iff split: if_splits)
  have u: "cleanup as ctx' = Inr (Returns k acts) \<Longrightarrow> Act_park c \<notin> set as \<Longrightarrow> False" for as ctx'
    using assms(2) by (auto simp: cleanup_def)
  obtain x where "process_ingress ctx (we_reads we) = Inr x" using assms(1) by (auto simp: request_round_def bindR_Inr_iff)
  note r = assms(1) [unfolded request_round_def this bindR.simps]
  then obtain n ctx1 rest where x: "x = Returns n (ctx1, rest)" by (cases x) auto
  show ?thesis
  proof (cases "n = 0")
    case True
    then show ?thesis using r unfolding x by (auto simp: bindR_Inr_iff dest: f)
  next
    case False
    then show ?thesis using r unfolding x by (auto simp: bindR_Inr_iff dest: u split: if_splits)
  qed
qed

lemma round_parks:
  assumes "worker_round we c0 = Inr (Returns k acts)" "disposals acts = [Act_park c]"
  shows "conn_protocol c = PROTO_HTTP11"
proof -
  have d: "Act_park x \<in> set (disposals as) \<Longrightarrow> Act_park x \<in> set as" for x as
    by (induction as rule: disposals.induct) auto
  then have "Act_park c \<in> set acts" using assms(2) by simp
  with assms(1) request_round_parks show ?thesis
    by (auto simp: worker_round_def cleanup_def Let_def split: if_splits option.splits)
qed

lemma accepted_record:
  assumes "accept_connection False fd peer tls ssl ok zero_conn = (0, c, msgs)"
  shows "queued_ok c"
  using assms by (auto simp: accept_connection_def zero_conn_def Let_def queued_ok_def accepted_ok_def split: if_splits peer.splits)

lemma worker_records:
  assumes "worker_step s s'" "records_ok s" "wr_inv (th_wr s)"
  shows "records_ok s'"
  using assms(1)
proof cases
  case (pop i c q)
  have q: "wq_list (work_of s) = c # wq_list q" using queue_pop_item [OF _ pop(3)] assms(3) by (simp add: wr_inv_def)
  then have "queued_ok c" using assms(2) by (simp add: records_ok_def)
  then show ?thesis using assms(2) q by (auto simp: pop(1) records_ok_def th_updates dest!: in_update)
next
  case (pop_end i k x q)
  have "q = work_of s" using queue_pop_end [OF pop_end(3,4)] by simp
  then show ?thesis using assms(2) by (auto simp: pop_end(1) records_ok_def th_updates dest!: in_update)
next
  case (round_close i c we k acts)
  then show ?thesis using assms(2) by (auto simp: records_ok_def th_updates dest!: in_update)
next
  case (round_park i c we k acts c')
  have "accepted_ok c" using worker_okD [OF assms(2) round_park(2)] by (simp add: queued_ok_def)
  then have "parked_ok c'"
    using round_parks [OF round_park(4,5)] round_park(6) by (simp add: parked_ok_def accepted_ok_def same_peer_def)
  then show ?thesis using assms(2) by (auto simp: round_park(1) records_ok_def th_updates dest!: in_update)
next
  case (push i c q)
  have q: "wq_list q = wq_list (wait_of s) @ [c]" using queue_push_item [OF _ push(3)] assms(3) by (simp add: wr_inv_def)
  have "parked_ok c" using worker_okD [OF assms(2) push(2)] by simp
  then show ?thesis using assms(2) q by (auto simp: push(1) records_ok_def th_updates dest!: in_update)
qed

lemma listener_records:
  assumes "listener_step s s'" "records_ok s" "wr_inv (th_wr s)"
  shows "records_ok s'"
  using assms(1)
proof cases
  case (push j c q)
  have q: "wq_list q = wq_list (work_of s) @ [c]" using queue_push_item [OF _ push(3)] assms(3) by (simp add: wr_inv_def)
  have "queued_ok c" using listener_okD [OF assms(2) push(2)] by simp
  then show ?thesis using assms(2) q by (auto simp: push(1) records_ok_def th_updates dest!: in_update)
next
  case (accepted j fd peer tls ssl ok c msgs)
  have "queued_ok c" using accepted_record [OF accepted(4)] .
  then show ?thesis using assms(2) by (auto simp: accepted(1) records_ok_def th_updates dest!: in_update)
qed (use assms(2) in \<open>auto simp: records_ok_def th_updates dest!: in_update\<close>)

subsection \<open>The wait room\<close>

lemma removed_records:
  assumes "pool_inv pool" "pool_remove_by_fd pool fd = Inr (k, out_c, pool')"
  shows "set (pool_list pool') \<subseteq> set (pool_list pool)" "k \<noteq> 0 \<Longrightarrow> out_c = Some c \<Longrightarrow> c \<in> set (pool_list pool)"
proof -
  note r = remove_by_fd_from_list [OF assms(1), of 0 fd]
  have "pool' = pool \<or> (\<exists>d. out_c = Some d \<and> add_mset d (mset (pool_list pool')) = mset (pool_list pool))"
    using r assms(2) by (auto simp: pool_remove_by_fd_def split: if_splits)
  then show "set (pool_list pool') \<subseteq> set (pool_list pool)"
    by (auto dest!: arg_cong [of _ _ set_mset])
  assume k: "k \<noteq> 0" "out_c = Some c"
  then have "add_mset c (mset (pool_list pool')) = mset (pool_list pool)"
    using r assms(2) by (auto simp: pool_remove_by_fd_def split: if_splits)
  then show "c \<in> set (pool_list pool)" by (auto dest!: arg_cong [of _ _ set_mset])
qed

lemma swept_records:
  assumes "sweep now w = Inr w'" "pool_inv (wr_pool w)"
  shows "set (pool_list (wr_pool w')) \<subseteq> set (pool_list (wr_pool w))" "wr_wait w' = wr_wait w" "wr_work w' = wr_work w"
proof -
  obtain cs pool where p: "pool_sweep_expired (wr_pool w) now = Inr (cs, pool)"
      "mset cs + mset (pool_list pool) = mset (pool_list (wr_pool w))"
    using sweep_from_list [of "wr_pool w" 0 now] assms(2) by (auto simp: pool_sweep_expired_def)
  then have "set (pool_list pool) \<subseteq> set (pool_list (wr_pool w))"
    by (metis set_mset_mset set_mset_union sup_ge2)
  then show "set (pool_list (wr_pool w')) \<subseteq> set (pool_list (wr_pool w))" "wr_wait w' = wr_wait w" "wr_work w' = wr_work w"
    using assms(1) p(1) by (auto simp: sweep_def)
qed

lemma room_records:
  assumes "room_step s s'" "records_ok s" "th_inv s" "\<not> spinning s'"
  shows "records_ok s'"
  using assms(1)
proof cases
  case (drain_one conn r popped q c reg w)
  have inv: "wr_inv (th_wr s)" "wq_inv (wait_of s)" "\<not> wq_shutting_down (wait_of s)"
    using assms(3) drain_one(2) by (auto simp: th_inv_def wr_inv_def spinning_def)
  obtain x xs where x: "wq_list (wait_of s) = x # xs"
    using trypop_cases(1) [OF inv(2)] inv(3) drain_one(3,4) by (cases "wq_list (wait_of s)") auto
  then have q: "popped = Some x" "wq_inv q" "wq_list q = xs" using trypop_cases(2) [OF inv(2) x] drain_one(3) by auto
  have "wr_inv ((th_wr s)\<lparr>wr_wait := q\<rparr>)" using inv(1) q(2) by (simp add: wr_inv_def)
  from park_keeps [OF this, of reg c] drain_one(6)
  have w: "wr_wait w = q" "wr_work w = work_of s" "set (pool_list (wr_pool w)) \<subseteq> insert c (set (pool_list (wr_pool (th_wr s))))"
    by auto
  moreover have "parked_ok c" using assms(2) x q(1) drain_one(5) by (auto simp: records_ok_def)
  ultimately show ?thesis using assms(2) x q(3) by (auto simp: drain_one(1) records_ok_def th_updates)
next
  case (drained conn popped q)
  have "wq_inv (wait_of s)" using assms(3) by (auto simp: th_inv_def wr_inv_def)
  then have "q = wait_of s"
    using trypop_cases [of "wait_of s"] drained(3) by (cases "wq_list (wait_of s)") (auto split: if_splits)
  then show ?thesis using assms(2) by (simp add: drained(1) records_ok_def th_updates)
next
  case (unknown e es active pool)
  have "pool_inv (wr_pool (th_wr s))" using assms(3) by (simp add: th_inv_def wr_inv_def)
  from removed_records [OF this unknown(3)] show ?thesis using assms(2) by (auto simp: unknown(1) records_ok_def th_updates)
next
  case (error_event e es k c pool)
  have "pool_inv (wr_pool (th_wr s))" using assms(3) by (simp add: th_inv_def wr_inv_def)
  from removed_records [OF this error_event(3)] show ?thesis using assms(2) by (auto simp: error_event(1) records_ok_def th_updates)
next
  case (readable e es k c pool)
  have "pool_inv (wr_pool (th_wr s))" using assms(3) by (simp add: th_inv_def wr_inv_def)
  from removed_records [OF this readable(3)] readable(4) show ?thesis
    using assms(2) by (auto simp: readable(1) records_ok_def th_updates)
next
  case (hand_back c es q)
  have "wq_inv (work_of s)" using assms(3) by (auto simp: th_inv_def wr_inv_def)
  with queue_push_item [OF _ hand_back(3)] have q: "wq_list q = wq_list (work_of s) @ [c]" by simp
  have "queued_ok c" using assms(2) hand_back(2) by (simp add: records_ok_def parked_queued)
  then show ?thesis using assms(2) q by (auto simp: hand_back(1) records_ok_def th_updates)
next
  case (swept now w)
  have "pool_inv (wr_pool (th_wr s))" using assms(3) by (simp add: th_inv_def wr_inv_def)
  from swept_records [OF swept(3) this] show ?thesis using assms(2) by (auto simp: swept(1) records_ok_def th_updates)
qed (use assms(2) in \<open>simp_all add: records_ok_def th_updates\<close>)

lemma step_records:
  assumes "th_step s s'" "records_ok s" "th_inv s" "\<not> spinning s'"
  shows "records_ok s'"
  using assms(1)
proof cases
  case worker
  then show ?thesis using worker_records assms(2,3) by (auto simp: th_inv_def)
next
  case listener
  then show ?thesis using listener_records assms(2,3) by (auto simp: th_inv_def)
next
  case room
  then show ?thesis using room_records assms(2-4) by auto
next
  case shutdown
  then show ?thesis using assms(2) by cases (simp_all add: records_ok_def)
qed

lemma run_records:
  assumes "th_start s0" "th_step\<^sup>*\<^sup>* s0 s" "\<not> spinning s"
  shows "records_ok s"
  using assms(2,3)
proof (induction rule: rtranclp_induct)
  case base
  show ?case using assms(1) by (auto simp: th_start_def records_ok_def)
next
  case (step t u)
  then have t: "\<not> spinning t" using spinning_stays by blast
  from step_records [OF step.hyps(2) step.IH [OF t] run_inv [OF assms(1) step.hyps(1) t] step.prems] show ?case .
qed


end
