(* ===== verification/Creation.thy ===== *)
theory Creation
  imports Startup
begin

text \<open>
  A shutdown that comes too early, or after a thread could not be created.  \<open>main\<close> (\<open>src/main.c\<close>) starts the signal
  thread before it calls \<open>worker_init\<close> (\<open>src/threadpool.c\<close>), which fills the global \<open>server\<close> piece by piece and
  tests no result of \<open>pthread_create\<close>; \<open>server_shutdown\<close> (\<open>src/server.c\<close>) uses all of it.
\<close>

subsection \<open>What \<open>worker_init\<close> has filled in\<close>

text \<open>The assignments to \<open>server\<close> and the threads created, in the order of \<open>worker_init\<close>.\<close>

datatype init_act = In_sockets | In_queues | In_lock_file | In_create thread_id | In_count nat

definition init_acts :: "nat \<Rightarrow> init_act list" where
  "init_acts n =
     [In_sockets, In_queues, In_lock_file, In_create T_wait_room, In_count n]
     @ map (\<lambda>i. In_create (T_worker i)) [0..<n]
     @ [In_create T_http_listener, In_create T_https_listener]"

text \<open>
  The global record so far; at first it is zero.  A thread identifier is set when \<open>pthread_create\<close> has succeeded; when
  it fails, the field receives the contents of a local variable nobody wrote, or nothing.
\<close>

record filled =
  fi_sockets :: bool
  fi_queues :: bool
  fi_lock_file :: bool
  fi_n_workers :: nat
  fi_threads :: "thread_id list"

definition not_filled :: filled where
  "not_filled = \<lparr>fi_sockets = False, fi_queues = False, fi_lock_file = False, fi_n_workers = 0, fi_threads = []\<rparr>"

fun init_step :: "(thread_id \<Rightarrow> bool) \<Rightarrow> init_act \<Rightarrow> filled \<Rightarrow> filled" where
  "init_step created In_sockets f = f\<lparr>fi_sockets := True\<rparr>"
| "init_step created In_queues f = f\<lparr>fi_queues := True\<rparr>"
| "init_step created In_lock_file f = f\<lparr>fi_lock_file := True\<rparr>"
| "init_step created (In_create t) f = (if created t then f\<lparr>fi_threads := t # fi_threads f\<rparr> else f)"
| "init_step created (In_count n) f = f\<lparr>fi_n_workers := n\<rparr>"

definition filled_after :: "(thread_id \<Rightarrow> bool) \<Rightarrow> nat \<Rightarrow> nat \<Rightarrow> filled" where
  "filled_after created n k = fold (init_step created) (take k (init_acts n)) not_filled"

subsection \<open>What the shutdown makes of it\<close>

text \<open>The fault of one action: joining a thread whose identifier was not set, or locking a queue that is null.\<close>

fun act_fault :: "filled \<Rightarrow> shut_act \<Rightarrow> fault option" where
  "act_fault f (Sh_join t) = (if t \<in> set (fi_threads f) then None else Some Uninitialised)"
| "act_fault f Sh_flag_wait = (if fi_queues f then None else Some NullDeref)"
| "act_fault f Sh_signal_wait = (if fi_queues f then None else Some NullDeref)"
| "act_fault f Sh_flag_work = (if fi_queues f then None else Some NullDeref)"
| "act_fault f Sh_broadcast_work = (if fi_queues f then None else Some NullDeref)"
| "act_fault f _ = None"

text \<open>The first fault of a shutdown that finds \<open>server\<close> as it is.\<close>

fun first_fault :: "filled \<Rightarrow> shut_act list \<Rightarrow> fault option" where
  "first_fault f [] = None"
| "first_fault f (a # as) = (case act_fault f a of None \<Rightarrow> first_fault f as | Some e \<Rightarrow> Some e)"

definition shutdown_fault :: "filled \<Rightarrow> server_t \<Rightarrow> int \<Rightarrow> fault option" where
  "shutdown_fault f sv status = first_fault f (server_shutdown (sv\<lparr>sv_n_workers := fi_n_workers f\<rparr>) status)"

lemma first_fault_None: "first_fault f as = None \<longleftrightarrow> (\<forall>a \<in> set as. act_fault f a = None)"
  by (induction as) (auto split: option.split)

lemma shutdown_fault_None:
  "shutdown_fault f sv status = None \<longleftrightarrow> fi_queues f \<and> {T_http_listener, T_https_listener, T_wait_room} \<subseteq> set (fi_threads f)
     \<and> (\<forall>i < fi_n_workers f. T_worker i \<in> set (fi_threads f))"
  by (auto simp: shutdown_fault_def first_fault_None server_shutdown_def split: if_splits)

lemma fold_threads: "set (fi_threads (fold (init_step created) as f)) = {t. In_create t \<in> set as \<and> created t} \<union> set (fi_threads f)"
proof (induction as arbitrary: f)
  case (Cons a as)
  then show ?case by (cases a) auto
qed simp

lemma fold_queues: "fi_queues (fold (init_step created) as f) \<longleftrightarrow> In_queues \<in> set as \<or> fi_queues f"
proof (induction as arbitrary: f)
  case (Cons a as)
  then show ?case by (cases a) auto
qed simp

lemma fold_count: "fi_n_workers (fold (init_step created) as f) = last (fi_n_workers f # List.map_filter (\<lambda>a. case a of In_count m \<Rightarrow> Some m | _ \<Rightarrow> None) as)"
proof (induction as arbitrary: f)
  case (Cons a as)
  then show ?case by (cases a) (auto simp: List.map_filter_def)
qed (simp add: List.map_filter_def)

text \<open>The last thread is created by the last action.\<close>

lemma last_created: "In_create T_https_listener \<in> set (take k (init_acts n)) \<Longrightarrow> length (init_acts n) \<le> k"
proof (rule ccontr)
  assume a: "In_create T_https_listener \<in> set (take k (init_acts n))" "\<not> length (init_acts n) \<le> k"
  let ?front = "[In_sockets, In_queues, In_lock_file, In_create T_wait_room, In_count n]
     @ map (\<lambda>i. In_create (T_worker i)) [0..<n] @ [In_create T_http_listener]"
  have s: "init_acts n = ?front @ [In_create T_https_listener]" by (simp add: init_acts_def)
  then have "k \<le> length ?front" using a(2) by (simp add: init_acts_def)
  then have "take k (init_acts n) = take k ?front" unfolding s by (simp only: take_append) simp
  then have "set (take k (init_acts n)) \<subseteq> set ?front" by (metis set_take_subset)
  with a(1) show False by auto
qed

lemma filled_whole:
  assumes "length (init_acts n) \<le> k"
  shows "fi_queues (filled_after created n k)" "fi_n_workers (filled_after created n k) = n"
    "t \<in> set (fi_threads (filled_after created n k)) \<longleftrightarrow> In_create t \<in> set (init_acts n) \<and> created t"
proof -
  have t: "filled_after created n k = fold (init_step created) (init_acts n) not_filled"
    using assms by (simp add: filled_after_def)
  show "fi_queues (filled_after created n k)"
    unfolding t by (simp add: fold_queues) (simp add: init_acts_def)
  show "t \<in> set (fi_threads (filled_after created n k)) \<longleftrightarrow> In_create t \<in> set (init_acts n) \<and> created t"
    unfolding t by (auto simp: fold_threads not_filled_def)
  show "fi_n_workers (filled_after created n k) = n"
    unfolding t by (simp add: fold_count) (simp add: init_acts_def List.map_filter_def comp_def)
qed



subsection \<open>Signals\<close>

text \<open>
  What \<open>main\<close> does to signals before it starts threads: SIGPIPE (13) is ignored, so a write to a connection
  the client has closed fails instead of ending the process, and the two that the signal thread waits for are blocked.
\<close>

definition ignored_signals :: "signal_no list" where
  "ignored_signals = [Other_signal 13]"

definition signal_mask :: "signal_no list" where
  "signal_mask = [SIGHUP, SIGTERM]"

text \<open>\<open>sigwait\<close> delivers signals of its mask only, so the default case of \<open>thr_sig_handler\<close> is never taken.\<close>

lemma no_unexpected_signal:
  "\<forall>(ret, s) \<in> set evs. ret = 0 \<longrightarrow> s \<in> set signal_mask \<Longrightarrow> Sig_log ''unexpected signal'' \<notin> set (thr_sig_handler evs)"
  by (induction evs rule: thr_sig_handler.induct) (auto simp: signal_mask_def)
end
