(* ===== verification/Conversation.thy ===== *)
theory Conversation
  imports Reply
begin

text \<open>
  A connection that is kept: round after round of \<open>worker_thread\<close> (\<open>src/threadpool.c\<close>) on the same
  connection, each going on with the bytes that the one before left in the socket.  The buffer of \<open>read_http_headers\<close>
  (\<open>src/http1.c\<close>) belongs to the request context, so what a round has read beyond the head it parses is
  given up with the context; and no round looks at Content-Length.
\<close>

subsection \<open>How far the reader reads\<close>

lemma reader_stops_at:
  assumes "\<forall>ev \<in> set evs. carries_on (ctx_conn ctx) ev" "partial_head data ctx" "s \<noteq> []"
    "find_sub (CRLF @ CRLF) (cstr (data @ received evs)) = None"
    "find_sub (CRLF @ CRLF) (cstr (data @ received evs @ s)) = Some i"
    "length (data @ received evs @ s) \<le> MAX_HEADER_SIZE - 1"
  shows "\<exists>ctx'. read_http_headers ctx (evs @ Got s # later) = Inr (Returns 0 (ctx', later))"
  using assms
proof (induction evs arbitrary: ctx data)
  case Nil
  have room: "length data < MAX_HEADER_SIZE - 1" using Nil.prems(3,6) by (cases s) auto
  have whole: "take (MAX_HEADER_SIZE - 1 - length data) s = s" using Nil.prems(6) by simp
  obtain b where b: "read_http_headers ctx (Got s # later) =
       (let ctx1 = ctx\<lparr>ctx_header_bytes_read := length (data @ s), ctx_header_buffer := b\<rparr>
        in case find_sub (CRLF @ CRLF) (cstr (data @ s)) of
             Some eoh \<Rightarrow> Inr (Returns 0 (head_complete eoh ctx1, unread (Got s) (length s) later))
           | None \<Rightarrow> read_http_headers ctx1 (unread (Got s) (length s) later))"
    using read_round [OF Nil.prems(2) room Nil.prems(3), of later] unfolding whole by metis
  then show ?case using Nil.prems(5) by simp
next
  case (Cons ev evs)
  have room: "length data < MAX_HEADER_SIZE - 1" using Cons.prems(3,6) by (cases s) auto
  show ?case
  proof (cases ev)
    case (Ret r err e p)
    have "ctx_header_bytes_read ctx < MAX_HEADER_SIZE - 1" using room Cons.prems(2) by (simp add: partial_head_def)
    then have "read_http_headers ctx (Ret r err e p # evs @ Got s # later) = read_http_headers ctx (evs @ Got s # later)"
      using Cons.prems(1) Ret by (intro carries_on_retry) auto
    with Cons.IH [of ctx data] Cons.prems Ret show ?thesis by simp
  next
    case (Got t)
    have t: "t \<noteq> []" using Cons.prems(1) Got by (auto simp: carries_on_def)
    have whole: "take (MAX_HEADER_SIZE - 1 - length data) t = t" using Cons.prems(6) Got by simp
    obtain b where b: "take (length (data @ t)) b = data @ t" "length b \<le> HEADER_BUFFER_SIZE" "length (data @ t) \<le> MAX_HEADER_SIZE - 1"
      and rd: "read_http_headers ctx (Got t # evs @ Got s # later) =
       (let ctx1 = ctx\<lparr>ctx_header_bytes_read := length (data @ t), ctx_header_buffer := b\<rparr>
        in case find_sub (CRLF @ CRLF) (cstr (data @ t)) of
             Some eoh \<Rightarrow> Inr (Returns 0 (head_complete eoh ctx1, unread (Got t) (length t) (evs @ Got s # later)))
           | None \<Rightarrow> read_http_headers ctx1 (unread (Got t) (length t) (evs @ Got s # later)))"
      using read_round [OF Cons.prems(2) room t, of "evs @ Got s # later"] unfolding whole by metis
    define ctx1 where "ctx1 = ctx\<lparr>ctx_header_bytes_read := length (data @ t), ctx_header_buffer := b\<rparr>"
    have none: "find_sub (CRLF @ CRLF) (cstr (data @ t)) = None"
      using Cons.prems(4) cstr_crlf2_prefix [of "data @ t" _ "received evs"] Got
      by (cases "find_sub (CRLF @ CRLF) (cstr (data @ t))") auto
    then have "partial_head (data @ t) ctx1" using b by (simp add: partial_head_def ctx1_def)
    with Cons.IH [of ctx1 "data @ t"] Cons.prems Got
    have "\<exists>ctx'. read_http_headers ctx1 (evs @ Got s # later) = Inr (Returns 0 (ctx', later))"
      by (simp add: ctx1_def)
    then show ?thesis using rd none Got by (simp add: ctx1_def)
  qed
qed

lemma ingress_rest:
  assumes "read_http_headers ctx evs = Inr (Returns st (ctx1, rest))" "process_ingress ctx evs = Inr (Returns k (ctx2, rest2))"
  shows "rest2 = rest"
  using assms by (auto simp: process_ingress_def bindR_Inr_iff split: if_splits prod.splits)

text \<open>The events a round leaves in the socket.\<close>

definition left_over :: "worker_env \<Rightarrow> conn_t \<Rightarrow> read_event list" where
  "left_over we c =
     (case process_ingress (zero_ctx (sniffed we c) (we_clock we)) (we_reads we) of
        Inr (Returns k (ctx, evs)) \<Rightarrow> evs
      | _ \<Rightarrow> [])"

text \<open>
  A head whose last bytes arrive in the chunk \<open>s\<close>: the rest of that chunk is read with it, what comes later is not.
\<close>

definition arrives :: "conn_t \<Rightarrow> string \<Rightarrow> string \<Rightarrow> read_event list \<Rightarrow> bool" where
  "arrives c h extra evs \<longleftrightarrow> (\<forall>ev \<in> set evs. carries_on c ev) \<and> received evs = h @ extra
     \<and> length (h @ extra) \<le> MAX_HEADER_SIZE - 1
     \<and> (\<exists>evs0 s. evs = evs0 @ [Got s] \<and> length (received evs0) < length h)"

lemma received_append: "received (evs @ evs') = received evs @ received evs'"
  by (induction evs rule: received.induct) simp_all

lemma round_leaves:
  assumes "request_ok m u v hs" "\<not> asks_h2c hs" "conn_protocol (sniffed we c) \<noteq> PROTO_HTTP2"
    "arrives (sniffed we c) (request_text m u v hs) extra evs" "\<forall>ev \<in> set later. carries_on (sniffed we c) ev"
    "we_reads we = evs @ later"
  shows "left_over we c = later"
proof -
  let ?c = "sniffed we c" and ?h = "request_text m u v hs"
  obtain evs0 s where e: "evs = evs0 @ [Got s]" "length (received evs0) < length ?h" and all: "\<forall>ev \<in> set evs. carries_on ?c ev"
      and r: "received evs0 @ s = ?h @ extra" and len: "length (?h @ extra) \<le> MAX_HEADER_SIZE - 1"
    using assms(4) by (auto simp: arrives_def received_append)
  have s: "s \<noteq> []" using all e(1) by (auto simp: carries_on_def)
  note fin = request_text_end [OF assms(1)]
  have ends: "find_sub (CRLF @ CRLF) (cstr (received evs0 @ s)) = Some (length ?h - 4)"
    using fin(1) [of "cstr extra"] by (simp add: r cstr_append_clean [OF fin(2)])
  have "find_sub (CRLF @ CRLF) (cstr (received evs0)) = None"
  proof (cases "find_sub (CRLF @ CRLF) (cstr (received evs0))")
    case (Some i)
    then have "i = length ?h - 4" using cstr_crlf2_prefix [OF Some, of s] ends by simp
    moreover have "i + 4 \<le> length (received evs0)"
      using find_sub_length [OF Some] length_cstr_le [of "received evs0"] by simp
    ultimately show ?thesis using e(2) fin(3) by simp
  qed
  then have "find_sub (CRLF @ CRLF) (cstr ([] @ received evs0)) = None" by simp
  moreover have "\<forall>ev \<in> set evs0. carries_on (ctx_conn (zero_ctx ?c (we_clock we))) ev" using all e(1) by (simp add: zero_ctx_def)
  moreover have "find_sub (CRLF @ CRLF) (cstr ([] @ received evs0 @ s)) = Some (length ?h - 4)" using ends by simp
  moreover have "length ([] @ received evs0 @ s) \<le> MAX_HEADER_SIZE - 1" using r len by simp
  ultimately have "\<exists>ctx1. read_http_headers (zero_ctx ?c (we_clock we)) (evs0 @ Got s # later) = Inr (Returns 0 (ctx1, later))"
    using reader_stops_at [OF _ partial_head_zero s] by blast
  then obtain ctx1 where 1: "read_http_headers (zero_ctx ?c (we_clock we)) (we_reads we) = Inr (Returns 0 (ctx1, later))"
    using assms(6) e(1) by auto
  have "received (we_reads we) = ?h @ (extra @ received later)" "\<forall>ev \<in> set (we_reads we). carries_on ?c ev"
    using assms(5,6) r all e(1) by (auto simp: received_append)
  from ingress_of_request_any [OF assms(1) this(2,1) assms(2,3)] obtain ctx2 rest where
      2: "process_ingress (zero_ctx ?c (we_clock we)) (we_reads we) = Inr (Returns 0 (ctx2, rest))" by blast
  from ingress_rest [OF 1 2] 2 show ?thesis by (simp add: left_over_def)
qed

subsection \<open>The rounds of a kept connection\<close>

fun parked_in :: "worker_act list \<Rightarrow> conn_t option" where
  "parked_in [] = None"
| "parked_in (Act_park c # as) = Some c"
| "parked_in (_ # as) = parked_in as"

fun sent_in :: "worker_act list \<Rightarrow> string" where
  "sent_in [] = []"
| "sent_in (Act_sent bs # as) = bs @ sent_in as"
| "sent_in (_ # as) = sent_in as"

datatype ending = Broken fault | Silent | Hung_up | Kept conn_t

text \<open>
  Rounds on one connection, as long as it is parked: each starts with the events left in the socket by the one
  before.  The result is all that was sent, and how it ended: in a fault, in a round that waits for the client, with
  the connection closed, or parked.
\<close>

fun converse :: "worker_env list \<Rightarrow> read_event list \<Rightarrow> conn_t \<Rightarrow> string \<times> ending" where
  "converse [] evs c = ([], Kept c)"
| "converse (we # wes) evs c =
     (let w = we\<lparr>we_reads := evs\<rparr>
      in (case worker_round w c of
            Inl f \<Rightarrow> ([], Broken f)
          | Inr Blocks \<Rightarrow> ([], Silent)
          | Inr (Returns k acts) \<Rightarrow>
              (case parked_in acts of
                 None \<Rightarrow> (sent_in acts, Hung_up)
               | Some c' \<Rightarrow> (let (out, e) = converse wes (left_over w c) c' in (sent_in acts @ out, e)))))"

lemma disposals_parked:
  "disposals acts = [Act_park c] \<Longrightarrow> parked_in acts = Some c"
  "disposals acts = [Act_close es] \<Longrightarrow> parked_in acts = None"
proof -
  have n: "disposals acts = [] \<Longrightarrow> parked_in acts = None" for acts
    by (induction acts rule: disposals.induct) auto
  show "disposals acts = [Act_park c] \<Longrightarrow> parked_in acts = Some c"
    by (induction acts rule: disposals.induct) auto
  show "disposals acts = [Act_close es] \<Longrightarrow> parked_in acts = None"
    by (induction acts rule: disposals.induct) (auto intro: n)
qed

subsection \<open>Requests and the replies they deserve\<close>

text \<open>A request with the environment of its round and the events by which it arrives.\<close>

record exchange =
  ex_env :: worker_env
  ex_reads :: "read_event list"
  ex_request :: "string \<times> string \<times> string \<times> (string \<times> string) list"

definition deserved :: "exchange \<Rightarrow> reply_t" where
  "deserved ex =
     (case ex_request ex of (m, u, v, hs) \<Rightarrow>
        reply (we_handler (ex_env ex)) (take 15 m) (take 4095 u)
          (header_in hs ''Host'' \<noteq> None \<or> strcasecmp_eq (take 15 v) ''HTTP/1.0''))"

definition stays_open :: "exchange \<Rightarrow> bool" where
  "stays_open ex =
     (case ex_request ex of (m, u, v, hs) \<Rightarrow>
        \<not> strcasecmp_eq (take 15 v) ''HTTP/1.0'' \<and> \<not> says_close_in hs \<and> fst (deserved ex) < 400)"

text \<open>What a client hears for a list of requests, and whether its connection is kept.\<close>

fun dialogue :: "exchange list \<Rightarrow> string \<times> bool" where
  "dialogue [] = ([], True)"
| "dialogue (ex # exs) =
     (if stays_open ex then (let (out, k) = dialogue exs in (reply_bytes (deserved ex) @ out, k))
      else (reply_bytes (deserved ex), False))"

text \<open>
  The round of an exchange can be answered: a documented environment, a well-formed request without an upgrade, and
  writes that take all they are given.
\<close>

definition answerable :: "conn_t \<Rightarrow> exchange \<Rightarrow> bool" where
  "answerable c ex \<longleftrightarrow>
     env_ok (we_handler (ex_env ex)) \<and> maps_whole (we_handler (ex_env ex)) \<and> small_files (we_handler (ex_env ex))
     \<and> ready (ex_env ex) c
     \<and> (case ex_request ex of (m, u, v, hs) \<Rightarrow> request_ok m u v hs \<and> \<not> asks_h2c hs)
     \<and> (\<exists>k1 k2. we_write1 (ex_env ex) = Took k1 \<and> HEADER_BUFFER_SIZE \<le> k1
          \<and> we_write2 (ex_env ex) = Took k2 \<and> length (snd (snd (deserved ex))) \<le> k2)"

definition request_of :: "exchange \<Rightarrow> string" where
  "request_of ex = (case ex_request ex of (m, u, v, hs) \<Rightarrow> request_text m u v hs)"

lemma same_peer_carries_on: "same_peer c c' \<Longrightarrow> carries_on c' ev = carries_on c ev"
  by (cases ev) (simp_all add: carries_on_def conn_read_def uses_tls_def same_peer_def)

lemma same_peer_ready: "same_peer c c' \<Longrightarrow> ready we c' = ready we c"
  by (simp add: ready_def same_peer_def)

lemma same_peer_arrives: "same_peer c c' \<Longrightarrow> arrives c' h x evs = arrives c h x evs"
  by (simp add: arrives_def same_peer_carries_on)

lemma sniffed_parked: "conn_protocol c = PROTO_HTTP11 \<Longrightarrow> sniffed we c = c"
  by (simp add: sniffed_def)

text \<open>A round sends once.\<close>

lemma cleanup_sends:
  "cleanup [] ctx \<noteq> Inr (Returns k (Act_sent b # acts))"
  "cleanup [Act_sent x, Act_access y] ctx = Inr (Returns k (Act_sent b # acts)) \<Longrightarrow> sent_in acts = []"
  by (auto simp: cleanup_def)

lemma finish_sends:
  "finish_request we es [Act_sent x, Act_access y] ctx = Inr (Returns k (Act_sent b # acts)) \<Longrightarrow> sent_in acts = []"
  by (auto simp: finish_request_def dest: cleanup_sends(2) split: if_splits)

lemma request_round_sends:
  assumes "request_round we ctx = Inr (Returns k (Act_sent b # acts))"
  shows "sent_in acts = []"
proof -
  obtain x where "process_ingress ctx (we_reads we) = Inr x" using assms by (auto simp: request_round_def bindR_Inr_iff)
  note r = assms [unfolded request_round_def this bindR.simps]
  then obtain n ctx1 rest where x: "x = Returns n (ctx1, rest)" by (cases x) auto
  show ?thesis
  proof (cases "n = 0")
    case True
    then show ?thesis using r unfolding x by (auto simp: bindR_Inr_iff dest: finish_sends)
  next
    case False
    then show ?thesis using r unfolding x by (auto simp: bindR_Inr_iff cleanup_sends(1) dest: cleanup_sends(2) split: if_splits)
  qed
qed

lemma round_sends:
  assumes "worker_round we c = Inr (Returns k (Act_sent b # acts))"
  shows "sent_in acts = []"
  using assms request_round_sends
  by (auto simp: worker_round_def cleanup_def Let_def split: if_splits option.splits)

text \<open>One round, with what arrives later left in the socket and what arrived with the request given up.\<close>

lemma round_of_exchange:
  assumes "answerable c ex" "conn_protocol (sniffed (ex_env ex) c) = PROTO_HTTP11"
    "arrives c (request_of ex) extra (ex_reads ex)" "\<forall>ev \<in> set later. carries_on c ev"
  shows "\<exists>c'. same_peer c c' \<and> conn_protocol c' = PROTO_HTTP11
     \<and> converse (ex_env ex # wes) (ex_reads ex @ later) c =
         (if stays_open ex
          then (reply_bytes (deserved ex) @ fst (converse wes later c'), snd (converse wes later c'))
          else (reply_bytes (deserved ex), Hung_up))"
proof -
  let ?we = "ex_env ex" and ?evs = "ex_reads ex @ later"
  let ?w = "?we\<lparr>we_reads := ?evs\<rparr>"
  obtain m u v hs where rq: "ex_request ex = (m, u, v, hs)" by (cases "ex_request ex")
  have env: "env_ok (we_handler ?w)" "maps_whole (we_handler ?w)" "small_files (we_handler ?w)" "ready ?w c"
    and ok: "request_ok m u v hs" "\<not> asks_h2c hs"
    using assms(1) rq by (simp_all add: answerable_def ready_def)
  obtain k1 k2 where wr: "we_write1 ?w = Took k1" "HEADER_BUFFER_SIZE \<le> k1" "we_write2 ?w = Took k2"
      "length (snd (snd (deserved ex))) \<le> k2"
    using assms(1) by (auto simp: answerable_def)
  have sn: "sniffed ?w c = sniffed ?we c" by (simp add: sniffed_def)
  have peer: "same_peer c (sniffed ?w c)" by (rule sniffed_peer)
  have p: "conn_protocol (sniffed ?w c) = PROTO_HTTP11" using assms(2) sn by simp
  have arr: "arrives (sniffed ?w c) (request_text m u v hs) extra (ex_reads ex)"
    using assms(3) same_peer_arrives [OF peer] rq by (simp add: request_of_def)
  have on: "\<forall>ev \<in> set later. carries_on (sniffed ?w c) ev" using assms(4) same_peer_carries_on [OF peer] by simp
  have rd: "\<forall>ev \<in> set (we_reads ?w). carries_on (sniffed ?w c) ev"
      "received (we_reads ?w) = request_text m u v hs @ extra @ received later"
    using arr on by (auto simp: arrives_def received_append)
  have rep: "deserved ex = reply (we_handler ?w) (take 15 m) (take 4095 u)
       (header_in hs ''Host'' \<noteq> None \<or> strcasecmp_eq (take 15 v) ''HTTP/1.0'')"
    by (simp add: deserved_def rq)
  have stay: "stays_open ex \<longleftrightarrow> \<not> strcasecmp_eq (take 15 v) ''HTTP/1.0'' \<and> \<not> says_close_in hs \<and> fst (deserved ex) < 400"
    by (simp add: stays_open_def rq)
  obtain ctx k acts where r: "worker_round ?w c = Inr (Returns k (Act_sent (reply_bytes (deserved ex)) # Act_access ctx # acts))"
      "if stays_open ex then parks c acts else closes c acts"
    using request_round_answers [OF env p ok(1) rd ok(2) rep wr(1-3) wr(4)] unfolding stay by (auto split: if_splits)
  have left: "left_over ?w c = later"
    using round_leaves [OF ok(1,2) _ arr on] p by simp
  have once: "sent_in acts = []"
    using round_sends [OF r(1)] by simp
  show ?thesis
  proof (cases "stays_open ex")
    case True
    then obtain c' where c': "disposals acts = [Act_park c']" "same_peer c c'" "conn_protocol c' = PROTO_HTTP11"
      using r(2) by (auto simp: parks_def)
    with True r(1) left once disposals_parked(1) [OF c'(1)] show ?thesis
      by (intro exI [of _ c']) (simp add: Let_def split: prod.split)
  next
    case False
    then have "parked_in acts = None" using r(2) disposals_parked(2) by (simp add: closes_def)
    with False r(1) once show ?thesis
      by (intro exI [of _ "sniffed ?w c"]) (simp add: Let_def peer p)
  qed
qed

subsection \<open>Conversations\<close>

lemma answerable_peer: "same_peer c c' \<Longrightarrow> answerable c' ex = answerable c ex"
  by (simp add: answerable_def same_peer_ready)

lemma conversation:
  assumes "\<forall>ex \<in> set exs. answerable c ex \<and> arrives c (request_of ex) [] (ex_reads ex)"
    "exs \<noteq> [] \<Longrightarrow> conn_protocol (sniffed (ex_env (hd exs)) c) = PROTO_HTTP11"
  shows "\<exists>c'. same_peer c c' \<and> converse (map ex_env exs) (concat (map ex_reads exs)) c
     = (fst (dialogue exs), if snd (dialogue exs) then Kept c' else Hung_up)"
  using assms
proof (induction exs arbitrary: c)
  case Nil
  show ?case by (intro exI [of _ c]) simp
next
  case (Cons ex exs)
  let ?later = "concat (map ex_reads exs)"
  have on: "\<forall>ev \<in> set ?later. carries_on c ev" using Cons.prems(1) by (auto simp: arrives_def)
  obtain c1 where c1: "same_peer c c1" "conn_protocol c1 = PROTO_HTTP11"
    and r: "converse (ex_env ex # map ex_env exs) (ex_reads ex @ ?later) c =
         (if stays_open ex
          then (reply_bytes (deserved ex) @ fst (converse (map ex_env exs) ?later c1), snd (converse (map ex_env exs) ?later c1))
          else (reply_bytes (deserved ex), Hung_up))"
    using round_of_exchange [OF _ _ _ on, of ex "[]" "map ex_env exs"] Cons.prems by auto
  have "\<forall>ex \<in> set exs. answerable c1 ex \<and> arrives c1 (request_of ex) [] (ex_reads ex)"
    using Cons.prems(1) answerable_peer [OF c1(1)] same_peer_arrives [OF c1(1)] by simp
  with Cons.IH [of c1] sniffed_parked [OF c1(2)] c1(2) obtain c2 where
      "same_peer c1 c2" "converse (map ex_env exs) ?later c1 = (fst (dialogue exs), if snd (dialogue exs) then Kept c2 else Hung_up)"
    by auto
  with r same_peer_trans [OF c1(1)] show ?case
    by (intro exI [of _ c2]) (simp add: Let_def split: prod.split)
qed

lemma silent_round_sends:
  "worker_round (we\<lparr>we_reads := []\<rparr>) c = Inr (Returns k acts) \<Longrightarrow> sent_in acts = [] \<and> parked_in acts = None"
proof -
  let ?w = "we\<lparr>we_reads := []\<rparr>"
  have "read_http_headers (zero_ctx c' t) [] = Inr Blocks" for c' t
    by (subst read_http_headers.simps) (simp add: zero_ctx_def MAX_HEADER_SIZE_def)
  then have "request_round ?w (zero_ctx c' t) = Inr Blocks" for c' t
    by (simp add: request_round_def process_ingress_def)
  then show "worker_round ?w c = Inr (Returns k acts) \<Longrightarrow> sent_in acts = [] \<and> parked_in acts = None"
    by (auto simp: worker_round_def cleanup_def Let_def split: if_splits option.splits)
qed

lemma silent_conversation: "fst (converse wes [] c) = []"
  by (cases wes) (auto simp: Let_def dest: silent_round_sends split: sum.split outcome.split)

text \<open>
  C2. A kept connection.  For every list of well-formed requests, each sent after the reply to the one before and cut
  into reads in any way, the rounds on the connection send exactly the replies of \<open>reply\<close>, in their order, up to
  the first after which it does not stay open; then it is closed, otherwise it is parked again.  No round looks at
  a body: what a client sends as the body of one request is answered as its next.
\<close>

theorem conversation_answered:
  assumes "\<forall>ex \<in> set exs. answerable c ex \<and> arrives c (request_of ex) [] (ex_reads ex)"
    "exs \<noteq> [] \<Longrightarrow> conn_protocol (sniffed (ex_env (hd exs)) c) = PROTO_HTTP11"
  shows "\<exists>c'. same_peer c c' \<and> converse (map ex_env exs) (concat (map ex_reads exs)) c
     = (fst (dialogue exs), if snd (dialogue exs) then Kept c' else Hung_up)"
  by (rule conversation [OF assms])


subsection \<open>A request in the body of another\<close>

text \<open>A PUT whose body, as long as its Content-Length says, is an OPTIONS request of its own.\<close>

definition inner :: string where
  "inner = sample_request ''OPTIONS'' ''*''"

definition outer_hs :: "(string \<times> string) list" where
  "outer_hs = example_hs @ [(''Content-Length'', ''31'')]"

definition outer :: string where
  "outer = request_text ''PUT'' ''/a.txt'' ''HTTP/1.1'' outer_hs"

definition round_env :: worker_env where
  "round_env = (fresh_env ''OPTIONS'' ''*'' False)\<lparr>we_recv := (24, take 24 outer, [])\<rparr>"

definition nested :: "exchange list" where
  "nested = [\<lparr>ex_env = round_env, ex_reads = [Got outer], ex_request = (''PUT'', ''/a.txt'', ''HTTP/1.1'', outer_hs)\<rparr>,
     \<lparr>ex_env = round_env, ex_reads = [Got inner], ex_request = (''OPTIONS'', ''*'', ''HTTP/1.1'', example_hs)\<rparr>]"

lemma inner_length: "length inner = 31"
  by (simp add: inner_def sample_request_def request_text_def request_line_def header_line_def example_hs_def)

lemma outer_facts:
  "request_ok ''PUT'' ''/a.txt'' ''HTTP/1.1'' outer_hs" "take 24 outer \<noteq> http2_preface" "length (take 24 outer) = 24"
  by (simp_all add: request_ok_def request_line_ok_def header_ok_def example_hs_def MAX_HEADER_SIZE_def outer_hs_def outer_def
      request_text_def request_line_def header_line_def http2_preface_def)

lemma outer_hs_facts: "\<not> asks_h2c outer_hs" "header_in outer_hs ''Host'' \<noteq> None" "\<not> says_close_in outer_hs"
proof -
  have "\<not> strcasecmp_eq ''Host'' ''Upgrade''" "\<not> strcasecmp_eq ''Host'' ''Connection''" "strcasecmp_eq ''Host'' ''Host''"
    "\<not> strcasecmp_eq ''Content-Length'' ''Upgrade''" "\<not> strcasecmp_eq ''Content-Length'' ''Connection''" by code_simp+
  then show "\<not> asks_h2c outer_hs" "header_in outer_hs ''Host'' \<noteq> None" "\<not> says_close_in outer_hs"
    by (simp_all add: asks_h2c_def outer_hs_def example_hs_def header_in_def says_close_in_def)
qed

lemma http11_version: "\<not> strcasecmp_eq (take 15 ''HTTP/1.1'') ''HTTP/1.0''"
  by code_simp

lemma nested_deserved: "map deserved nested = [(200, [], []), options_reply example_env]"
proof -
  have "dotdot_free (take 4095 ''/a.txt'')" by (simp add: dotdot_free_iff)
  then have "reply example_env ''PUT'' (take 4095 ''/a.txt'') True = (200, [], [])"
    by (simp add: reply_def admission_def known_methods_def)
  then show ?thesis
    using star_facts(5) outer_hs_facts(2) example_hs_facts(2) by (simp add: nested_def deserved_def round_env_def)
qed

lemma nested_stay: "list_all stays_open nested"
  using nested_deserved http11_version outer_hs_facts(3) example_hs_facts(3)
  by (simp add: nested_def stays_open_def options_reply_def)

lemma nested_answerable: "\<forall>ex \<in> set nested. answerable (fresh 5) ex"
proof -
  have e: "we_handler round_env = example_env" "we_write1 round_env = Took 9000" "we_write2 round_env = Took 9000"
    "we_calloc round_env" "we_init_finished round_env"
    by (simp_all add: round_env_def)
  have "deserved (nested ! 0) = (200, [], [])" "deserved (nested ! 1) = options_reply example_env"
    using nested_deserved by (simp_all add: nested_def)
  then show ?thesis
    using e outer_facts(1) star_facts(1) outer_hs_facts(1) example_hs_facts(1) example_env_ok example_maps example_small writes_whole
    by (simp add: nested_def answerable_def ready_def options_reply_def)
qed

lemma arrives_at_once:
  assumes "4 \<le> length h" "length (h @ extra) \<le> MAX_HEADER_SIZE - 1"
  shows "arrives c h extra [Got (h @ extra)]"
  using assms by (auto simp: arrives_def carries_on_def)

lemma nested_arrives: "\<forall>ex \<in> set nested. arrives (fresh 5) (request_of ex) [] (ex_reads ex)"
  using arrives_at_once [of outer "[]" "fresh 5"] arrives_at_once [of inner "[]" "fresh 5"] outer_facts(1) star_facts(1)
    request_text_end(3) [OF outer_facts(1)] request_text_end(3) [OF star_facts(1)]
  by (auto simp: nested_def request_of_def request_ok_def outer_def inner_def sample_request_def)

lemma nested_sniffed: "conn_protocol (sniffed (ex_env (hd nested)) (fresh 5)) = PROTO_HTTP11"
  using outer_facts(2) by (simp add: nested_def round_env_def sniffed_def fresh_def zero_conn_def demux_protocol_def)

text \<open>
  Both are answered: the PUT, whose body it is, and the OPTIONS request in that body.
\<close>

theorem conversation_answered_witness:
  "\<exists>c'. same_peer (fresh 5) c' \<and> converse [round_env, round_env] [Got outer, Got inner] (fresh 5)
     = (reply_bytes (200, [], []) @ reply_bytes (options_reply example_env), Kept c')"
proof -
  have d: "dialogue nested = (reply_bytes (200, [], []) @ reply_bytes (options_reply example_env), True)"
    using nested_deserved nested_stay by (simp add: nested_def)
  have "map ex_env nested = [round_env, round_env]" "concat (map ex_reads nested) = [Got outer, Got inner]"
    by (simp_all add: nested_def)
  with conversation_answered [of nested "fresh 5"] nested_answerable nested_arrives nested_sniffed d show ?thesis by auto
qed


subsection \<open>Files that cannot be read\<close>

text \<open>
  C27. A GET for a path that exists and cannot be opened or mapped - a directory without its slash, a file without
  read permission - is answered by 200 with the Content-Length of what \<open>stat\<close> said, and no body; the connection is
  kept, so a client that believes the header takes the reply to its next request for that body.
\<close>

theorem unreadable_file_announced:
  assumes "answerable c ex" "conn_protocol (sniffed (ex_env ex) c) = PROTO_HTTP11" "arrives c (request_of ex) [] (ex_reads ex)"
    and "ex_request ex = (''GET'', u, v, hs)" "header_in hs ''Host'' \<noteq> None" "dotdot_free (take 4095 u)"
      "\<not> strcasecmp_eq (take 15 v) ''HTTP/1.0''" "\<not> says_close_in hs"
    and "env = we_handler (ex_env ex)" "fa_stat (he_fs env (target env (take 4095 u))) = Some (n, t)"
      "\<not> fa_open (he_fs env (target env (take 4095 u))) \<or> fa_map (he_fs env (target env (take 4095 u))) = None"
  shows "\<exists>fields c'. converse [ex_env ex] (ex_reads ex) c = (status_line 200 @ concat (map header_line fields) @ CRLF, Kept c')
     \<and> (''Content-Length'', show_nat n) \<in> set fields"
proof -
  let ?p = "target env (take 4095 u)"
  have "mapped_bytes (he_fs env ?p) = []" using assms(11) by (auto simp: mapped_bytes_def)
  then have f: "snd (snd (file_reply env ''GET'' ?p n t)) = []" "fst (file_reply env ''GET'' ?p n t) = 200"
    "(''Content-Length'', show_nat n) \<in> set (fst (snd (file_reply env ''GET'' ?p n t)))"
    by (simp_all add: file_reply_def)
  obtain k x where h: "header_in hs ''Host'' = Some (k, x)" using assms(5) by auto
  have d: "deserved ex = file_reply env ''GET'' ?p n t"
    using h assms(4,6,9,10) by (simp add: deserved_def reply_def admission_def known_methods_def)
  have s: "stays_open ex" using assms(4,7,8) f(2) d by (simp add: stays_open_def)
  obtain fields where r: "deserved ex = (200, fields, [])" "(''Content-Length'', show_nat n) \<in> set fields"
    using f unfolding d by (metis prod.collapse)
  obtain c' where "converse [ex_env ex] (ex_reads ex) c = (reply_bytes (deserved ex), Kept c')"
    using round_of_exchange [OF assms(1-3), of "[]" "[]"] s by auto
  with r show ?thesis by (intro exI [of _ fields] exI [of _ c']) (simp add: reply_bytes_def)
qed

definition directory_env :: handler_env where
  "directory_env = example_env\<lparr>he_fs := \<lambda>_. \<lparr>fa_stat = Some (4096, 0), fa_open = True, fa_map = None\<rparr>\<rparr>"

theorem unreadable_file_announced_witness:
  "\<exists>fields c'. converse [(fresh_env ''GET'' ''/dir'' False)\<lparr>we_handler := directory_env\<rparr>] [Got (sample_request ''GET'' ''/dir'')] (fresh 5)
       = (status_line 200 @ concat (map header_line fields) @ CRLF, Kept c')
     \<and> (''Content-Length'', ''4096'') \<in> set fields"
proof -
  let ?ex = "\<lparr>ex_env = (fresh_env ''GET'' ''/dir'' False)\<lparr>we_handler := directory_env\<rparr>,
     ex_reads = [Got (sample_request ''GET'' ''/dir'')], ex_request = (''GET'', ''/dir'', ''HTTP/1.1'', example_hs)\<rparr>"
  have ok: "request_ok ''GET'' ''/dir'' ''HTTP/1.1'' example_hs" "take 24 (sample_request ''GET'' ''/dir'') \<noteq> http2_preface"
    by (simp_all add: request_ok_def request_line_ok_def header_ok_def example_hs_def MAX_HEADER_SIZE_def
        sample_request_def request_text_def request_line_def header_line_def http2_preface_def)
  have env: "env_ok directory_env" "maps_whole directory_env" "small_files directory_env"
    using example_env_ok by (simp_all add: env_ok_def directory_env_def maps_whole_def small_files_def time_ok_def)
  have "dotdot_free (take 4095 ''/dir'')" by (simp add: dotdot_free_iff)
  note dd = this
  obtain k x where h: "header_in example_hs ''Host'' = Some (k, x)" using example_hs_facts(2) by auto
  have "answerable (fresh 5) ?ex"
    using env ok(1) h example_hs_facts(1,3) writes_whole dd http11_version
    by (simp add: answerable_def ready_def deserved_def reply_def admission_def known_methods_def file_reply_def
        mapped_bytes_def directory_env_def)
  moreover have "conn_protocol (sniffed (ex_env ?ex) (fresh 5)) = PROTO_HTTP11"
    using ok(2) by (simp add: sniffed_def fresh_env_def fresh_def zero_conn_def demux_protocol_def)
  moreover have "arrives (fresh 5) (request_of ?ex) [] (ex_reads ?ex)"
    using arrives_at_once [OF request_text_end(3) [OF ok(1)], of "[]" "fresh 5"] ok(1)
    by (simp add: request_of_def sample_request_def request_ok_def)
  moreover have "show_nat 4096 = ''4096''" by code_simp
  ultimately show ?thesis
    using unreadable_file_announced [of "fresh 5" ?ex "''/dir''" "''HTTP/1.1''" example_hs directory_env 4096 0]
      h example_hs_facts(3) dd http11_version by (simp add: directory_env_def)
qed
end
