(* ===== verification/Spec2Isabelle.thy ===== *)
theory Spec2Isabelle
  imports QueueMonitor Poller Startup Shutdown Logged ConfigShare Settings Printing
    Silence Descriptors Limits Records Creation Conversation
begin

text \<open>
  A model of Celeritas, an HTTP/1.1 file server in C (\<open>src/src\<close>), with the theorems that make its parts
  correct and those that say where they are not.

  \<^bold>\<open>The program.\<close>  \<open>main\<close> reads the configuration, prepares logs, sockets and TLS, becomes a daemon, takes
  the lock file, gives up root and starts the threads: a logger, a signal handler, two listeners (plain
  and TLS), a number of workers and the wait room.  A listener accepts a connection and pushes it on the
  work queue.  A worker pops it, sniffs the protocol, completes the TLS handshake, reads and parses a
  request, validates and routes it, lets the static or the error handler build the response, sends and
  logs it, and then closes the connection or pushes it on the wait queue.  The wait room keeps the
  connections of the wait queue in a pool, watches them with \<open>epoll\<close> or \<open>kqueue\<close>, gives the readable
  ones back to the work queue and closes those that wait too long.

  \<^bold>\<open>Foundations.\<close>  \<open>Prelude\<close>: results with faults (\<open>fault + 'a\<close>: a null pointer, an access out of bounds, a read
  of uninitialised memory, a division by zero, a signed overflow), \<open>bindR\<close>, outcomes (\<open>Returns\<close> a value and a
  state, or \<open>Blocks\<close>), arrays and the lemma collections.  \<open>CLib\<close>: the C library functions the source
  calls, on strings without their NUL.  \<open>Types\<close>: the records and enumerations of \<open>types.h\<close>, with the
  sizes of the arrays.  \<open>Fifo\<close>, \<open>ConnStore\<close>, \<open>Lookup\<close> and \<open>Lifecycle\<close>: the interfaces as locales - a bounded
  FIFO (interpreted by the connection queue and by the log ring), a store of connections (interpreted by the
  pool), a search for the first match (interpreted by header search and MIME table), and a simulation of a
  specification by a step relation (interpreted by the thread pool and by the shared configuration).

  \<^bold>\<open>Components.\<close>  \<open>ConnQueue\<close>, \<open>QueueMonitor\<close>: the queues of \<open>threadpool.c\<close>, first one call at a time, then as
  a step relation of threads that wait on the two conditions: the queue is a bounded FIFO under every
  interleaving and no wake-up is lost.  \<open>Logger\<close>, \<open>AccessLog\<close>: \<open>logger.c\<close> and the macros of \<open>logger.h\<close>: the
  ring, its producers and its consumer, the texts; the ring is a FIFO, it drains at shutdown, and three
  ways to lose or corrupt entries.  \<open>Socket\<close>: \<open>socket.c\<close>; \<open>Descriptors\<close>: its accepts and closes in any
  interleaving, where \<open>close\<close> reaches its own client and the TLS alert after it never does.  \<open>IoWatcher\<close>, \<open>Poller\<close>: \<open>io_watcher.c\<close>, the pool and
  both back ends, which deliver the same events.  \<open>Util\<close>, \<open>Paths\<close>, \<open>Printing\<close>: \<open>util.c\<close>: powers of two, dates,
  header search; the preparation of a log file's path; the static buffer of \<open>int_to_string\<close>, in which two
  workers overwrite each other's number, and the debug printouts.  \<open>ConnIO\<close>, \<open>Response\<close>, \<open>HttpCommon\<close>:
  \<open>http_common.c\<close> and \<open>response.c\<close>: transport, status texts, response headers, ingress, routing, sending,
  keep-alive.  \<open>HeaderReader\<close>, \<open>Http1\<close>: \<open>http1.c\<close>: the reader stays in its buffer and depends on the bytes
  only, not on how reads cut them; the parser inverts the rendering of a request head.  \<open>Mime\<close>, \<open>Validator\<close>,
  \<open>HandlerStatic\<close>: \<open>mime.c\<close>, \<open>validator.c\<close>, \<open>handler_static.c\<close>: which requests are accepted, what is answered,
  and that nothing outside the document root influences an answer.  \<open>Config\<close>, \<open>Settings\<close>: \<open>config.c\<close>:
  defaults, key map, the line parser, start and reload; which settings no file can change, and that the server
  does not start with the file it is distributed with.  \<open>Limits\<close>: the limits a file sets are stored and never
  used.  \<open>ConfigShare\<close>: the record all threads share, its
  lock and its heap: readers, a reload and the final release in any interleaving implement an atomic register,
  and no freed record is read.  \<open>Privileges\<close>: \<open>drop_privileges\<close>, \<open>daemonize\<close> and the lock file of \<open>server.c\<close>.

  \<^bold>\<open>Requests.\<close>  \<open>Worker\<close>: one round of \<open>worker_thread\<close>, with the list of what it does; it disposes of its
  connection exactly once.  \<open>EndToEnd\<close>: well-formed requests, what reader and parser leave of them, a GET for a
  file from the bytes received to the bytes sent.  \<open>Reply\<close>: the server as a function \<open>reply\<close> from method,
  path, Host header and file system to status, header fields and body; \<open>request_answered\<close> says that a
  round sends exactly its bytes, for every well-formed request, and when it keeps the connection.
  \<open>Conversation\<close>: the rounds of a kept connection, each going on with what the one before left in the socket: one
  reply for each head, bodies taken for requests, pipelined requests given up, files announced and not sent.  \<open>Logged\<close>: the
  request contexts handed to the access log are well typed; what their line says, and from which URI on
  the logger reads past it.

  \<^bold>\<open>Threads.\<close>  \<open>WaitRoom\<close>: one turn of \<open>wait_room_thread\<close>.  \<open>System\<close>: listeners, workers and wait room as one step
  relation of whole rounds; every accepted descriptor is in exactly one place.  \<open>Threads\<close>: the same threads at
  the grain of their queue calls, with a program counter and the connection each holds, and the
  shutdown as one more thread; every run that does not end in the endless drain loop implements the
  life cycle of \<open>Lifecycle\<close>, a graph of nine places.  \<open>Progress\<close>: no push blocks while the open connections
  fit each queue; a deadlock of workers, wait room and listeners beyond that, reachable with five
  connections and queues of one cell.  \<open>Silence\<close>: clients that say nothing stop the workers, the work queue
  and the shutdown.  \<open>Records\<close>: what holds of every connection record, wherever it is.  \<open>Shutdown\<close>: the stages of \<open>server_shutdown\<close>, and where the connections are
  at its end - some still on a queue.  \<open>Startup\<close>: \<open>main\<close>, \<open>worker_init\<close>, the signal thread and the sequence of
  calls of the shutdown.  \<open>Creation\<close>: \<open>worker_init\<close> as a sequence of assignments and thread creations, and what a
  shutdown meets that comes before its end.  This theory puts start-up and threads together.

  \<^bold>\<open>State and answers.\<close>  A C record is a record, an array a list of its length, an integer a word of its
  width where it can wrap and an \<open>int\<close> otherwise, a pointer an \<open>option\<close>.  What the kernel, OpenSSL, the
  clock and the file system answer is an argument of the operation that asks (\<open>read_event\<close>, \<open>write_event\<close>,
  \<open>tls_answer\<close>, \<open>handler_env\<close>, \<open>worker_env\<close>, \<open>main_env\<close>), so every theorem holds for all answers; those that
  rely on documented behaviour of a call (a \<open>read\<close> returns at most what it was asked for, \<open>mmap\<close> maps the
  whole file) name it as a hypothesis, and its witness gives an instance.  A worker's round is one step of
  \<open>Threads\<close>: it touches no state shared with other threads but the log, the configuration record its handler
  is given (\<open>ConfigShare\<close> says that each read sees a whole one; a reload between two reads of one request
  may show it two) and the static buffer of \<open>int_to_string\<close> (\<open>Printing\<close>), which the rounds take to be unshared.

  \<^bold>\<open>Bounds and fuel.\<close>  Loops are structural or have a measure.  Three have fuel.  \<open>drain\<close>, the wait room's loop over the
  wait queue, has as many steps as it is given; outside a shutdown one more than the length of the queue is
  enough, and during one no number is (\<open>drain_spins_on_shutdown\<close>).  \<open>worker_pops\<close>, the pops of a worker from a
  queue that is shutting down, likewise, where one more than the length of the queue is enough
  (\<open>shutdown_drains_queue\<close>; the worker's loop itself may stop earlier, \<open>shutdown_drops_queued\<close>), and
  \<open>logger_loop\<close>, the logger thread once no producer runs, where \<open>shutdown_drains_log\<close> says how many turns are.

  \<^bold>\<open>Not modelled.\<close>  \<open>http2.c\<close> and \<open>handler_dynamic.c\<close> hold only includes.  The version texts and the verbose
  greeting only print.  The initialisation of mutexes and the \<open>free\<close> calls of the queues at shutdown only
  release memory; they appear as actions of \<open>server_shutdown\<close>.  A failed \<open>pthread_create\<close> and a shutdown that comes
  early are in \<open>Creation\<close> only: the step relations start from threads that all run.  Memory ordering of the
  atomic flag is not modelled.
\<close>

subsection \<open>From \<open>main\<close> to the last connection\<close>

text \<open>
  A server that \<open>main\<close> started, with its memory allocated and a connection queue of at least one
  cell, never runs as root, and in every state its threads reach each descriptor
  accepted is queued, held by a worker, in the keep-alive pool or closed, and in only one
  of these, except those \<open>accept_connection\<close> lost.
\<close>

theorem running_server_accounts:
  assumes "main_program me = Running sv lg c conf" "me_mem me = (True, True, True, True)"
    and "0 < unat (conn_queue_size conf)" "pool_init True (unat (conn_queue_size conf)) p0 = (r, pool)"
    and "sys_step\<^sup>*\<^sup>* (system_of sv pool) s"
  shows "c_uid c \<noteq> 0
    \<and> sys_accepted s = image_mset conn_fd (mset (wq_list (wr_work s)) + sys_held s
        + mset (wq_list (wr_wait s)) + mset (pool_list (wr_pool s)) + mset (wr_closed s)) + sys_leaked s"
proof -
  have "started (system_of sv pool)"
    using running_worker_init [OF assms(1)] assms(2-4) by (metis worker_init_started)
  then have "sys_inv s" using sys_reachable_inv [OF assms(5)] started_inv by blast
  then show ?thesis using running_user [OF assms(1)] by (simp add: sys_inv_unfold ac_simps)
qed

theorem running_server_accounts_witness:
  "\<exists>sv lg c conf pool. main_program example_main = Running sv lg c conf \<and> c_uid c \<noteq> 0
     \<and> sys_accepted (system_of sv pool) = image_mset conn_fd (mset (wr_closed (system_of sv pool)))"
proof -
  obtain sv lg c conf where r: "main_program example_main = Running sv lg c conf" "conn_queue_size conf = 256"
    using example_runs by blast
  obtain rp pool where p: "pool_init True (unat (conn_queue_size conf)) \<lparr>pool_items = [], pool_count = 0, pool_capacity = 0\<rparr>
      = (rp, pool)"
    by (metis prod.exhaust)
  have a: "c_uid c \<noteq> 0
    \<and> sys_accepted (system_of sv pool) = image_mset conn_fd (mset (wq_list (wr_work (system_of sv pool)))
        + sys_held (system_of sv pool) + mset (wq_list (wr_wait (system_of sv pool)))
        + mset (pool_list (wr_pool (system_of sv pool))) + mset (wr_closed (system_of sv pool)))
        + sys_leaked (system_of sv pool)"
    by (rule running_server_accounts [OF r(1) _ _ p]) (use r(2) in \<open>simp_all add: example_main_def\<close>)
  then have "sys_accepted (system_of sv pool) = image_mset conn_fd (mset (wr_closed (system_of sv pool)))"
    by (simp add: system_of_def)
  with r(1) a show ?thesis by blast
qed

subsection \<open>The threads \<open>main\<close> starts\<close>

text \<open>The threads \<open>worker_init\<close> creates: the wait room with its pool, the workers, the two listeners.\<close>

definition threads_of :: "server_t \<Rightarrow> conn_pool_t \<Rightarrow> threads" where
  "threads_of sv pool = \<lparr>
     th_wr = \<lparr>wr_wait = sv_wait_queue sv, wr_work = sv_work_queue sv, wr_pool = pool, wr_watch = (\<lambda>_. None), wr_closed = []\<rparr>,
     th_workers = replicate (sv_n_workers sv) W_pop, th_listeners = [L_accept, L_accept], th_room = R_top,
     th_flag = False, th_shut = Sh_idle, th_lost = []\<rparr>"

lemma threads_of_start:
  assumes "started (system_of sv pool)" "\<not> wq_shutting_down (sv_work_queue sv)" "\<not> wq_shutting_down (sv_wait_queue sv)"
  shows "th_start (threads_of sv pool)"
  using assms by (simp add: started_def system_of_def th_start_def threads_of_def wr_inv_def)

lemma running_threads:
  assumes "main_program me = Running sv lg c conf" "me_mem me = (True, True, True, True)"
    and "0 < unat (conn_queue_size conf)" "pool_init True (unat (conn_queue_size conf)) p0 = (r, pool)"
  shows "th_start (threads_of sv pool)"
proof -
  obtain lock h t g where init: "worker_init conf lock h t (True, True, True, True) g = Some sv"
    using running_worker_init [OF assms(1)] assms(2) by metis
  have "started (system_of sv pool)" using worker_init_started [OF init assms(3,4)] by blast
  moreover have "\<not> wq_shutting_down (sv_work_queue sv)" "\<not> wq_shutting_down (sv_wait_queue sv)"
    using worker_init_queues [OF init] by (simp_all add: queue_init_def)
  ultimately show ?thesis by (rule threads_of_start)
qed



end
